(* ===== verification/Prelude.thy ===== *)
theory Prelude
  imports Main "HOL-Library.Word"
begin

text \<open>
  Shared vocabulary of the development: Rust's machine integers, the result of a fallible or
  panicking Rust computation, checked and saturating arithmetic on \<open>usize\<close>, and the generic facts
  on words and lists that the component theories rest on.

  A Rust computation has three ends: it returns \<open>Ok\<close>, it returns \<open>Err\<close>, or it panics (an index out
  of range, a failed \<open>expect\<close>, a failed \<open>debug_assert\<close>). The type \<open>outcome\<close> keeps the three apart, so
  that "never panics" is a statement about the model and not an assumption of it.
\<close>

unbundle bit_operations_syntax

named_theorems usize_simps \<open>unfolding of the checked and saturating usize operations\<close>

section \<open>Machine integers\<close>

text \<open>
  Signed integers are words too: \<open>sint\<close> reads them as two's complement. A \<open>usize\<close> (64 bits on every
  supported target) that counts elements of a vector is a \<open>nat\<close>; where its width matters the bound
  is written out with \<open>usize_MAX\<close>.
\<close>

type_synonym u8 = "8 word"
type_synonym u16 = "16 word"
type_synonym u32 = "32 word"
type_synonym u64 = "64 word"
type_synonym u128 = "128 word"
type_synonym i64 = "64 word"
type_synonym i128 = "128 word"
type_synonym usize = nat

abbreviation usize_MAX :: usize where
  "usize_MAX \<equiv> 18446744073709551615"

definition checked_mul :: "usize \<Rightarrow> usize \<Rightarrow> usize option" where
  [usize_simps]: "checked_mul a b = (if a * b \<le> usize_MAX then Some (a * b) else None)"

definition saturating_mul :: "usize \<Rightarrow> usize \<Rightarrow> usize" where
  [usize_simps]: "saturating_mul a b = min (a * b) usize_MAX"

definition saturating_add :: "usize \<Rightarrow> usize \<Rightarrow> usize" where
  [usize_simps]: "saturating_add a b = min (a + b) usize_MAX"

definition saturating_sub :: "usize \<Rightarrow> usize \<Rightarrow> usize" where
  [usize_simps]: "saturating_sub a b = a - b"

text \<open>Plain \<open>+\<close> and \<open>*\<close> on \<open>usize\<close> wrap around in the release profile.\<close>

definition wrapping_add :: "usize \<Rightarrow> usize \<Rightarrow> usize" where
  [usize_simps]: "wrapping_add a b = (a + b) mod 2 ^ 64"

definition wrapping_mul :: "usize \<Rightarrow> usize \<Rightarrow> usize" where
  [usize_simps]: "wrapping_mul a b = (a * b) mod 2 ^ 64"

definition wrapping_sub :: "usize \<Rightarrow> usize \<Rightarrow> usize" where
  [usize_simps]: "wrapping_sub a b = (a + 2 ^ 64 - b) mod 2 ^ 64"

text \<open>\<open>saturating_sub\<close> on the word types.\<close>

definition word_saturating_sub :: "'a::len word \<Rightarrow> 'a word \<Rightarrow> 'a word" where
  "word_saturating_sub a b = (if a < b then 0 else a - b)"

definition div_ceil :: "usize \<Rightarrow> usize \<Rightarrow> usize" where
  "div_ceil a b = a div b + (if a mod b = 0 then 0 else 1)"

lemma div_ceil_bounds:
  assumes "0 < b"
  shows "a \<le> div_ceil a b * b" and "div_ceil a b * b < a + b"
proof -
  have "b * (a div b) + a mod b = a" and "a mod b < b"
    using assms by auto
  then show "a \<le> div_ceil a b * b" and "div_ceil a b * b < a + b"
    unfolding div_ceil_def by (cases "a mod b = 0"; simp add: algebra_simps; linarith)+
qed

lemma div_ceil_least: "0 < b \<Longrightarrow> a \<le> n * b \<Longrightarrow> div_ceil a b \<le> n"
proof -
  assume b: "0 < b" and n: "a \<le> n * b"
  have "div_ceil a b * b < (n + 1) * b"
    using div_ceil_bounds(2) [OF b, of a] n by (simp add: algebra_simps)
  then show "div_ceil a b \<le> n" using b by (metis mult_less_cancel2 less_Suc_eq_le Suc_eq_plus1)
qed

lemma div_ceil_pos: "0 < a \<Longrightarrow> 0 < b \<Longrightarrow> 0 < div_ceil a b"
  using div_ceil_bounds(1) [of b a] by (cases "div_ceil a b") auto

section \<open>Sums over finite maps\<close>

definition map_sum :: "('v \<Rightarrow> nat) \<Rightarrow> ('k \<rightharpoonup> 'v) \<Rightarrow> nat" where
  "map_sum f m = (\<Sum>k \<in> dom m. f (the (m k)))"

lemma map_sum_empty [simp]: "map_sum f Map.empty = 0"
  by (simp add: map_sum_def)

lemma map_sum_delete:
  assumes "finite (dom m)" "m k = Some v"
  shows "map_sum f m = map_sum f (m(k := None)) + f v"
proof -
  have "map_sum f m = f (the (m k)) + (\<Sum>j \<in> dom m - {k}. f (the (m j)))"
    unfolding map_sum_def using assms by (intro sum.remove) auto
  also have "(\<Sum>j \<in> dom m - {k}. f (the (m j))) = map_sum f (m(k := None))"
    unfolding map_sum_def by (rule sum.cong) auto
  finally show ?thesis using assms(2) by simp
qed

lemma map_sum_insert:
  assumes "finite (dom m)" "m k = None"
  shows "map_sum f (m(k \<mapsto> v)) = map_sum f m + f v"
  using map_sum_delete [of "m(k \<mapsto> v)" k v f] assms by (simp add: fun_upd_idem)

lemma map_sum_update:
  assumes "finite (dom m)" "m k = Some u"
  shows "map_sum f (m(k \<mapsto> v)) + f u = map_sum f m + f v"
  using map_sum_delete [OF assms, of f] map_sum_delete [of "m(k \<mapsto> v)" k v f] assms(1) by simp

lemma map_sum_member:
  assumes "finite (dom m)" "m k = Some v"
  shows "f v \<le> map_sum f m"
  using map_sum_delete [OF assms, of f] by simp

section \<open>Outcomes\<close>

datatype ('e, 'a) outcome = Ok 'a | Err 'e | Panic

definition obind :: "('e, 'a) outcome \<Rightarrow> ('a \<Rightarrow> ('e, 'b) outcome) \<Rightarrow> ('e, 'b) outcome" where
  "obind m f = (case m of Ok x \<Rightarrow> f x | Err e \<Rightarrow> Err e | Panic \<Rightarrow> Panic)"

lemma obind_simps [simp]:
  "obind (Ok x) f = f x" "obind (Err e) f = Err e" "obind Panic f = Panic"
  by (simp_all add: obind_def)

lemma obind_assoc: "obind (obind m f) g = obind m (\<lambda>x. obind (f x) g)"
  by (cases m) simp_all

lemma obind_eq_Ok_iff: "obind m f = Ok y \<longleftrightarrow> (\<exists>x. m = Ok x \<and> f x = Ok y)"
  by (cases m) simp_all

section \<open>Bits of words\<close>

lemma bit_127_int [simp]: "bit (127 :: int) n \<longleftrightarrow> n < 7"
proof -
  have "(127 :: int) = mask 7" by (simp add: mask_eq_exp_minus_1)
  then show ?thesis by (simp only: bit_mask_iff) auto
qed

lemma bit_128_int [simp]: "bit (128 :: int) n \<longleftrightarrow> n = 7"
proof -
  have "(128 :: int) = 2 ^ 7" by simp
  then show ?thesis by (simp only: bit_exp_iff) auto
qed

lemma bit_64_int [simp]: "bit (64 :: int) n \<longleftrightarrow> n = 6"
proof -
  have "(64 :: int) = 2 ^ 6" by simp
  then show ?thesis by (simp only: bit_exp_iff) auto
qed

lemma and_64_eq_0_iff: "(w AND 0x40 = (0 :: u8)) \<longleftrightarrow> \<not> bit w 6"
  using and_exp_eq_0_iff_not_bit [of w 6] by simp

lemma and_128_eq_0_iff: "(w AND 0x80 = (0 :: u8)) \<longleftrightarrow> \<not> bit w 7"
  using and_exp_eq_0_iff_not_bit [of w 7] by simp

lemma continuation_bit [simp]: "((b :: u8) OR 0x80) AND 0x80 \<noteq> 0"
  unfolding and_128_eq_0_iff by (simp add: bit_simps)

lemma push_bit_split_7:
  "push_bit n (v AND 0x7F) OR push_bit (n + 7) (drop_bit 7 v) = push_bit n (v :: 'a::len word)"
proof (rule bit_word_eqI)
  fix k
  assume "k < LENGTH('a)"
  then show "bit (push_bit n (v AND 0x7F) OR push_bit (n + 7) (drop_bit 7 v)) k = bit (push_bit n v) k"
    by (cases "n + 7 \<le> k") (auto simp: bit_simps)
qed

lemma unat_drop_bit_7: "unat (drop_bit 7 v) = unat v div 128"
  unfolding unat_drop_bit_eq by (simp add: drop_bit_eq_div)

lemma unat_drop_bit_7_less: "drop_bit 7 v \<noteq> (0 :: 'a::len word) \<Longrightarrow> unat (drop_bit 7 v) < unat v"
proof -
  assume "drop_bit 7 v \<noteq> (0 :: 'a word)"
  then have "unat (drop_bit 7 v) \<noteq> 0" by (metis unat_eq_zero)
  then have "0 < unat v" by (metis gr0I unat_drop_bit_7 div_0)
  then show ?thesis by (simp add: unat_drop_bit_7)
qed

lemma sint_signed_drop_bit: "sint (signed_drop_bit n (w :: 'a::len word)) = sint w div 2 ^ n"
  by (simp add: sint_signed_drop_bit_eq drop_bit_eq_div)

lemma unat_of_nat_u64 [simp]: "n \<le> usize_MAX \<Longrightarrow> unat (of_nat n :: u64) = n"
  by (simp add: unat_of_nat take_bit_nat_eq_self)

section \<open>Iterators and sorting\<close>

text \<open>
  \<open>Iterator::min_by_key\<close> (the first of several minimal elements) and \<open>slice::sort_by_key\<close> with the key
  \<open>Reverse\<close> of a \<open>u64\<close> (stable, largest first).
\<close>

fun min_by_key :: "('a \<Rightarrow> 'b::linorder) \<Rightarrow> 'a list \<Rightarrow> 'a option" where
  "min_by_key f [] = None"
| "min_by_key f (x # xs) = (case min_by_key f xs of
     None \<Rightarrow> Some x | Some y \<Rightarrow> if f x \<le> f y then Some x else Some y)"

definition sort_by_key_reverse :: "('a \<Rightarrow> u64) \<Rightarrow> 'a list \<Rightarrow> 'a list" where
  "sort_by_key_reverse f = sort_key (\<lambda>x. - uint (f x))"

lemma min_by_key_None [simp]: "min_by_key f xs = None \<longleftrightarrow> xs = []"
  by (cases xs) (auto split: option.splits)

lemma min_by_key_Some:
  "min_by_key f xs = Some x \<Longrightarrow> x \<in> set xs \<and> (\<forall>y \<in> set xs. f x \<le> f y)"
proof (induction xs arbitrary: x)
  case (Cons z xs)
  then show ?case
    by (fastforce split: option.splits if_splits)
qed simp

lemma min_by_key_exists: "xs \<noteq> [] \<Longrightarrow> \<exists>x. min_by_key f xs = Some x"
  by (cases "min_by_key f xs") auto

end
