(* ===== verification/Wire_Error.thy ===== *)
theory Wire_Error
  imports Prelude
begin

text \<open>
  The wire-format enumerations and the error type of \<open>crates/sqe-quack-wire\<close>. The enumerations come
  first because \<open>WireError\<close> carries them (\<open>lib.rs\<close>).
\<close>

section \<open>Discriminants\<close>

datatype message_type =
    MtInvalid
  | MtConnectionRequest
  | MtConnectionResponse
  | MtPrepareRequest
  | MtPrepareResponse
  | MtFetchRequest
  | MtFetchResponse
  | MtAppendRequest
  | MtSuccessResponse
  | MtDisconnectMessage
  | MtErrorResponse

datatype logical_type_id =
    LInvalid
  | SqlNull
  | Boolean
  | TinyInt
  | SmallInt
  | Integer
  | BigInt
  | Date
  | Time
  | TimestampSec
  | TimestampMs
  | Timestamp
  | TimestampNs
  | Decimal
  | Float
  | Double
  | Char
  | Varchar
  | Blob
  | Interval
  | UTinyInt
  | USmallInt
  | UInteger
  | UBigInt
  | TimestampTz
  | TimestampTzNs
  | TimeTz
  | TimeNs
  | Bit
  | UHugeInt
  | HugeInt
  | Uuid
  | Struct
  | List
  | Map
  | Enum
  | Union
  | Array

datatype extra_type_info_type =
    EtInvalid
  | EtGeneric
  | EtDecimal
  | EtString
  | EtList
  | EtStruct
  | EtEnum
  | EtUnbound
  | EtAggregateState
  | EtArray
  | EtAny
  | EtIntegerLiteral
  | EtTemplate
  | EtGeo

section \<open>Errors\<close>

text \<open>
  \<open>UnsupportedArrowType\<close> is raised by the Arrow bridge only; its payload is the type's printed name.
\<close>

datatype wire_error =
    UnexpectedEof
  | VarintOverflow
  | UnexpectedField (expected: u16) (actual: u16)
  | InvalidUtf8
  | UnknownMessageType u8
  | UnsupportedMessageType message_type
  | UnknownLogicalTypeId u8
  | UnsupportedLogicalType logical_type_id
  | UnsupportedVectorType u8
  | UnsupportedArrowType "u8 list"
  | NullDataChunkWrapper
  | UnknownExtraTypeInfoType u8
  | UnsupportedExtraTypeInfo extra_type_info_type
  | NullExtraTypeInfo
  | UnsupportedExtensionTypeInfo
  | RecursionLimitExceeded (max_depth: nat)
  | CountExceedsRemaining (wire_count: u64) (wire_remaining: u64)

type_synonym 'a wire_result = "(wire_error, 'a) outcome"

end
