(* ===== verification/Varint.thy ===== *)
theory Varint
  imports Wire_Error
begin

text \<open>
  LEB128 variable-length integers (\<open>crates/sqe-quack-wire/src/varint.rs\<close>): the unsigned and the
  sign-extended encodings, their decoders, and the round trips.

  The decoders' loops carry the byte index, the value so far and the shift. A shift of 64 or more is
  an arithmetic overflow in Rust, so the loops have a panicking branch for it; it is never taken.
\<close>

section \<open>Encoding\<close>

function encode_unsigned :: "u64 \<Rightarrow> u8 list \<Rightarrow> u8 list" where
  "encode_unsigned value out =
     (let byte = ucast (value AND 0x7F) :: u8;
          value = drop_bit 7 value;
          byte = (if value \<noteq> 0 then byte OR 0x80 else byte);
          out = out @ [byte]
      in if value = 0 then out else encode_unsigned value out)"
  by pat_completeness auto
termination
  by (relation "measure (\<lambda>(v, _). unat v)") (auto simp: unat_drop_bit_7_less)

declare encode_unsigned.simps [simp del]

text \<open>The distance of a signed value from the fixed points 0 and -1 of the arithmetic shift.\<close>

definition signed_magnitude :: "i64 \<Rightarrow> nat" where
  "signed_magnitude v = nat (if sint v < 0 then - sint v - 1 else sint v)"

lemma signed_magnitude_less:
  assumes "v \<noteq> 0" and "v \<noteq> -1"
  shows "signed_magnitude (signed_drop_bit 7 v) < signed_magnitude v"
proof -
  have "sint v \<noteq> 0" "sint v \<noteq> -1"
    using assms by (simp_all add: signed_eq_0_iff) (metis signed_minus_1 signed_word_eqI)
  then show ?thesis by (auto simp: signed_magnitude_def sint_signed_drop_bit)
qed

function encode_signed :: "i64 \<Rightarrow> u8 list \<Rightarrow> u8 list" where
  "encode_signed value out =
     (let byte = (ucast value :: u8) AND 0x7F;
          value = signed_drop_bit 7 value;
          finished = ((value = 0 \<and> byte AND 0x40 = 0) \<or> (value = -1 \<and> byte AND 0x40 \<noteq> 0))
      in if finished then out @ [byte] else encode_signed value (out @ [byte OR 0x80]))"
  by pat_completeness auto
termination
  by (relation "measure (\<lambda>(v, _). signed_magnitude v)")
    (auto simp: and_64_eq_0_iff bit_simps intro!: signed_magnitude_less)

declare encode_signed.simps [simp del]

section \<open>Decoding\<close>

fun decode_signed_loop :: "usize \<Rightarrow> i64 \<Rightarrow> nat \<Rightarrow> u8 list \<Rightarrow> (i64 \<times> usize) wire_result" where
  "decode_signed_loop i value shift [] = Err UnexpectedEof"
| "decode_signed_loop i value shift (byte # rest) =
     (if i \<ge> 10 then Err VarintOverflow
      else if shift \<ge> 64 then Panic
      else let value = value OR push_bit shift (ucast (byte AND 0x7F));
               shift = shift + 7
           in if byte AND 0x80 = 0
              then let value = (if shift < 64 \<and> byte AND 0x40 \<noteq> 0
                                then value OR push_bit shift (-1) else value)
                   in Ok (value, i + 1)
              else decode_signed_loop (i + 1) value shift rest)"

definition decode_signed :: "u8 list \<Rightarrow> (i64 \<times> usize) wire_result" where
  "decode_signed input = decode_signed_loop 0 0 0 input"

fun decode_unsigned_loop :: "usize \<Rightarrow> u64 \<Rightarrow> nat \<Rightarrow> u8 list \<Rightarrow> (u64 \<times> usize) wire_result" where
  "decode_unsigned_loop i value shift [] = Err UnexpectedEof"
| "decode_unsigned_loop i value shift (byte # rest) =
     (if i \<ge> 10 then Err VarintOverflow
      else if shift \<ge> 64 then Panic
      else let value = value OR push_bit shift (ucast (byte AND 0x7F))
           in if byte AND 0x80 = 0 then Ok (value, i + 1)
              else decode_unsigned_loop (i + 1) value (shift + 7) rest)"

definition decode_unsigned :: "u8 list \<Rightarrow> (u64 \<times> usize) wire_result" where
  "decode_unsigned input = decode_unsigned_loop 0 0 0 input"

section \<open>The unsigned round trip\<close>

lemma encode_unsigned_append: "encode_unsigned v out = out @ encode_unsigned v []"
proof (induction "unat v" arbitrary: v out rule: less_induct)
  case less
  have IH: "drop_bit 7 v \<noteq> 0 \<Longrightarrow> encode_unsigned (drop_bit 7 v) (out @ [b]) =
      out @ b # encode_unsigned (drop_bit 7 v) []" for out b
    using less.hyps [of "drop_bit 7 v" "out @ [b]"] unat_drop_bit_7_less [of v] by simp
  show ?case
    by (subst (1 2) encode_unsigned.simps) (simp add: Let_def IH IH [of "[]", simplified])
qed

lemma encode_unsigned_rec:
  "encode_unsigned v [] =
     (if drop_bit 7 v = 0 then [ucast (v AND 0x7F)]
      else (ucast (v AND 0x7F) OR 0x80) # encode_unsigned (drop_bit 7 v) [])"
  by (subst encode_unsigned.simps, simp add: Let_def) (subst encode_unsigned_append, simp)

lemma encode_unsigned_nonempty [simp]: "encode_unsigned v [] \<noteq> []"
  by (subst encode_unsigned_rec) simp

lemma ucast_byte_7 [simp]:
  "ucast ((ucast (v AND 0x7F) :: u8) AND 0x7F) = (v AND 0x7F :: u64)"
  "ucast (((ucast (v AND 0x7F) :: u8) OR 0x80) AND 0x7F) = (v AND 0x7F :: u64)"
  by (rule bit_word_eqI; auto simp: bit_simps)+

lemma no_continuation_bit [simp]: "(ucast (v AND 0x7F :: u64) :: u8) AND 0x80 = 0"
  unfolding and_128_eq_0_iff by (simp add: bit_simps)

lemma next_shift: "7 * (i + 1) = 7 * i + (7 :: nat)"
  by simp

lemma seven_more_bits: "i + 1 < 10 \<Longrightarrow> 2 ^ (64 - 7 * i) = 128 * (2::nat) ^ (64 - 7 * (i + 1))"
proof -
  assume "i + 1 < 10"
  then have "64 - 7 * i = 7 + (64 - 7 * (i + 1))" by arith
  then have "(2::nat) ^ (64 - 7 * i) = 2 ^ 7 * 2 ^ (64 - 7 * (i + 1))" by (metis power_add)
  then show ?thesis by simp
qed

lemma decode_unsigned_loop_encode:
  assumes "i < 10" "unat v < 2 ^ (64 - 7 * i)"
  shows "decode_unsigned_loop i acc (7 * i) (encode_unsigned v [] @ rest) =
     Ok (acc OR push_bit (7 * i) v, i + length (encode_unsigned v []))"
  using assms
proof (induction "unat v" arbitrary: v i acc rule: less_induct)
  case less
  show ?case
  proof (cases "drop_bit 7 v = 0")
    case True
    then have v: "v AND 0x7F = v" using push_bit_split_7 [of 0 v] by simp
    from True less.prems
    have "decode_unsigned_loop i acc (7 * i) (encode_unsigned v [] @ rest) =
        Ok (acc OR push_bit (7 * i) (v AND 0x7F), i + length (encode_unsigned v []))"
      by (simp add: encode_unsigned_rec [of v] Let_def)
    then show ?thesis by (simp only: v)
  next
    case False
    have "i \<noteq> 9"
    proof
      assume "i = 9"
      with less.prems have "unat (drop_bit 7 v) = 0" by (simp add: unat_drop_bit_7)
      with False show False by (metis unat_eq_zero)
    qed
    with less.prems have i: "i + 1 < 10" by simp
    with less.prems have "unat (drop_bit 7 v) < 2 ^ (64 - 7 * (i + 1))"
      using seven_more_bits [of i] by (simp add: unat_drop_bit_7 less_mult_imp_div_less mult.commute)
    from less.hyps [OF unat_drop_bit_7_less [OF False] i this, unfolded next_shift]
    show ?thesis using False less.prems push_bit_split_7 [of "7 * i" v]
      by (simp add: encode_unsigned_rec [of v] or.assoc Let_def)
  qed
qed

lemma decode_unsigned_encode:
  "decode_unsigned (encode_unsigned v [] @ rest) = Ok (v, length (encode_unsigned v []))"
proof -
  have "unat v < 2 ^ 64" using unsigned_less [of v] by simp
  then show ?thesis
    using decode_unsigned_loop_encode [of 0 v 0 rest] by (simp add: decode_unsigned_def)
qed

section \<open>The signed round trip\<close>

text \<open>The loop of \<open>encode_signed\<close> ends when the byte just taken determines all remaining bits.\<close>

definition signed_finished :: "i64 \<Rightarrow> bool" where
  "signed_finished v \<longleftrightarrow>
     (signed_drop_bit 7 v = 0 \<and> \<not> bit v 6) \<or> (signed_drop_bit 7 v = -1 \<and> bit v 6)"

lemma encode_signed_unfold:
  "encode_signed v out =
     (if signed_finished v then out @ [ucast v AND 0x7F]
      else encode_signed (signed_drop_bit 7 v) (out @ [(ucast v AND 0x7F) OR 0x80]))"
  by (subst encode_signed.simps)
    (simp add: Let_def signed_finished_def and_64_eq_0_iff bit_simps)

lemma signed_magnitude_less_unfinished:
  "\<not> signed_finished v \<Longrightarrow> signed_magnitude (signed_drop_bit 7 v) < signed_magnitude v"
  by (rule signed_magnitude_less) (auto simp: signed_finished_def bit_simps)

lemma encode_signed_append: "encode_signed v out = out @ encode_signed v []"
proof (induction "signed_magnitude v" arbitrary: v out rule: less_induct)
  case less
  have IH: "\<not> signed_finished v \<Longrightarrow> encode_signed (signed_drop_bit 7 v) (out @ [b]) =
      out @ b # encode_signed (signed_drop_bit 7 v) []" for out b
    using less.hyps [of "signed_drop_bit 7 v" "out @ [b]"] signed_magnitude_less_unfinished [of v]
    by simp
  show ?case
    by (subst (1 2) encode_signed_unfold) (simp add: IH IH [of "[]", simplified])
qed

lemma encode_signed_rec:
  "encode_signed v [] =
     (if signed_finished v then [ucast v AND 0x7F]
      else ((ucast v AND 0x7F) OR 0x80) # encode_signed (signed_drop_bit 7 v) [])"
  by (subst encode_signed_unfold, simp) (subst encode_signed_append, simp)

lemma encode_signed_nonempty [simp]: "encode_signed v [] \<noteq> []"
  by (subst encode_signed_rec) simp

lemma ucast_signed_byte [simp]:
  "ucast ((ucast v :: u8) AND 0x7F) = (v AND 0x7F :: i64)"
  "ucast ((((ucast v :: u8) AND 0x7F) OR 0x80) AND 0x7F) = (v AND 0x7F :: i64)"
  by (rule bit_word_eqI; auto simp: bit_simps)+

lemma signed_byte_bits [simp]:
  "((ucast (v :: i64) :: u8) AND 0x7F) AND 0x80 = 0"
  "(((ucast (v :: i64) :: u8) AND 0x7F) AND 0x40 = 0) \<longleftrightarrow> \<not> bit v 6"
  unfolding and_128_eq_0_iff and_64_eq_0_iff by (simp_all add: bit_simps)

lemma bit_signed_drop_bit_7:
  "k < 57 \<Longrightarrow> bit (signed_drop_bit 7 (v :: i64)) k = bit v (k + 7)"
  by (simp add: bit_signed_drop_bit_iff add.commute)

lemma push_bit_split_signed:
  "push_bit n (v AND 0x7F) OR push_bit (n + 7) (signed_drop_bit 7 v) = push_bit n (v :: i64)"
proof (rule bit_word_eqI)
  fix k
  assume "k < LENGTH(64)"
  then show "bit (push_bit n (v AND 0x7F) OR push_bit (n + 7) (signed_drop_bit 7 v)) k
      = bit (push_bit n v) k"
    using bit_signed_drop_bit_7 [of "k - (n + 7)" v]
    by (cases "n + 7 \<le> k") (auto simp: bit_push_bit_iff bit_and_iff bit_or_iff)
qed

lemma sign_extension:
  assumes "signed_finished v"
  shows "push_bit n (v AND 0x7F) OR (if n + 7 < 64 \<and> bit v 6 then push_bit (n + 7) (-1) else 0)
    = push_bit n v"
proof -
  have "push_bit (n + 7) (signed_drop_bit 7 v) =
      (if bit v 6 then push_bit (n + 7) (-1) else (0 :: i64))"
    using assms by (auto simp: signed_finished_def)
  moreover have "\<not> n + 7 < 64 \<Longrightarrow> push_bit (n + 7) (-1) = (0 :: i64)"
    by (rule bit_word_eqI) (simp add: bit_simps)
  ultimately have "push_bit (n + 7) (signed_drop_bit 7 v) =
      (if n + 7 < 64 \<and> bit v 6 then push_bit (n + 7) (-1) else (0 :: i64))"
    by (cases "n + 7 < 64") simp_all
  then show ?thesis using push_bit_split_signed [of n v] by simp
qed

lemma decode_signed_loop_encode:
  assumes "i < 10" "- (2 ^ (63 - 7 * i)) \<le> sint v" "sint v < 2 ^ (63 - 7 * i)"
  shows "decode_signed_loop i acc (7 * i) (encode_signed v [] @ rest) =
     Ok (acc OR push_bit (7 * i) v, i + length (encode_signed v []))"
  using assms
proof (induction "signed_magnitude v" arbitrary: v i acc rule: less_induct)
  case less
  show ?case
  proof (cases "signed_finished v")
    case True
    have "decode_signed_loop i acc (7 * i) (encode_signed v [] @ rest) =
        Ok (acc OR push_bit (7 * i) (v AND 0x7F)
          OR (if 7 * i + 7 < 64 \<and> bit v 6 then push_bit (7 * i + 7) (-1) else 0),
          i + length (encode_signed v []))"
      using True less.prems(1) by (simp add: encode_signed_rec [of v] Let_def or.assoc)
    then show ?thesis by (simp only: sign_extension [OF True])
  next
    case False
    have "i \<noteq> 9"
    proof
      assume "i = 9"
      with less.prems have "sint v = 0 \<or> sint v = -1" by auto
      then have "v = 0 \<or> v = -1" by (metis signed_eq_0_iff signed_minus_1 signed_word_eqI)
      with False show False by (auto simp: signed_finished_def)
    qed
    with less.prems have i: "i + 1 < 10" by simp
    have "63 - 7 * i = (63 - 7 * (i + 1)) + 7" using i by arith
    then have p: "(2::int) ^ (63 - 7 * i) = 2 ^ (63 - 7 * (i + 1)) * 2 ^ 7"
      by (metis power_add)
    have "- (2 ^ (63 - 7 * (i + 1))) \<le> sint (signed_drop_bit 7 v)"
      "sint (signed_drop_bit 7 v) < 2 ^ (63 - 7 * (i + 1))"
      using less.prems unfolding p sint_signed_drop_bit by simp_all
    from less.hyps [OF signed_magnitude_less_unfinished [OF False] i this, unfolded next_shift]
    show ?thesis using False less.prems(1) push_bit_split_signed [of "7 * i" v]
      by (simp add: encode_signed_rec [of v] or.assoc Let_def)
  qed
qed

lemma decode_signed_encode:
  "decode_signed (encode_signed v [] @ rest) = Ok (v, length (encode_signed v []))"
proof -
  have "- (2 ^ 63) \<le> sint v" "sint v < 2 ^ 63"
    using sint_ge [of v] sint_lt [of v] by simp_all
  then show ?thesis
    using decode_signed_loop_encode [of 0 v 0 rest] by (simp add: decode_signed_def)
qed

section \<open>Decoding arbitrary bytes\<close>

lemma decode_unsigned_loop_total:
  "shift \<le> 7 * i \<Longrightarrow> decode_unsigned_loop i v shift bs \<noteq> Panic \<and>
     (\<forall>w n. decode_unsigned_loop i v shift bs = Ok (w, n) \<longrightarrow> i < n \<and> n \<le> i + length bs \<and> n \<le> 10)"
proof (induction bs arbitrary: i v shift)
  case (Cons b bs)
  show ?case
  proof (cases "10 \<le> i")
    case False
    then have "shift < 64" and s: "shift + 7 \<le> 7 * (i + 1)" using Cons.prems by simp_all
    with False Cons.IH [OF s, of "v OR push_bit shift (ucast (b AND 0x7F))"] show ?thesis
      by (auto simp: Let_def)
  qed simp
qed simp

lemma decode_signed_loop_total:
  "shift \<le> 7 * i \<Longrightarrow> decode_signed_loop i v shift bs \<noteq> Panic \<and>
     (\<forall>w n. decode_signed_loop i v shift bs = Ok (w, n) \<longrightarrow> i < n \<and> n \<le> i + length bs \<and> n \<le> 10)"
proof (induction bs arbitrary: i v shift)
  case (Cons b bs)
  show ?case
  proof (cases "10 \<le> i")
    case False
    then have "shift < 64" and s: "shift + 7 \<le> 7 * (i + 1)" using Cons.prems by simp_all
    with False Cons.IH [OF s, of "v OR push_bit shift (ucast (b AND 0x7F))"] show ?thesis
      by (auto simp: Let_def)
  qed simp
qed simp

lemma decode_unsigned_total [simp]: "decode_unsigned bs \<noteq> Panic"
  by (simp add: decode_unsigned_def decode_unsigned_loop_total)

lemma decode_signed_total [simp]: "decode_signed bs \<noteq> Panic"
  by (simp add: decode_signed_def decode_signed_loop_total)

lemma decode_unsigned_consumed:
  "decode_unsigned bs = Ok (v, n) \<Longrightarrow> 0 < n \<and> n \<le> length bs \<and> n \<le> 10"
  using decode_unsigned_loop_total [of 0 0 0 bs] by (simp add: decode_unsigned_def)

lemma decode_signed_consumed:
  "decode_signed bs = Ok (v, n) \<Longrightarrow> 0 < n \<and> n \<le> length bs \<and> n \<le> 10"
  using decode_signed_loop_total [of 0 0 0 bs] by (simp add: decode_signed_def)

lemma encode_unsigned_length: "0 < length (encode_unsigned v []) \<and> length (encode_unsigned v []) \<le> 10"
  using decode_unsigned_consumed [OF decode_unsigned_encode [of v "[]"]] by simp

lemma encode_signed_length: "0 < length (encode_signed v []) \<and> length (encode_signed v []) \<le> 10"
  using decode_signed_consumed [OF decode_signed_encode [of v "[]"]] by simp

section \<open>Properties\<close>

text \<open>
  C22: every \<open>u64\<close> and every \<open>i64\<close> is decoded from its varint encoding, whatever bytes follow, and the
  decoder consumes exactly the bytes the encoder wrote, between one and ten of them.
\<close>

theorem varint_roundtrip:
  "decode_unsigned (encode_unsigned u [] @ rest) = Ok (u, length (encode_unsigned u [])) \<and>
   decode_signed (encode_signed i [] @ rest) = Ok (i, length (encode_signed i [])) \<and>
   length (encode_unsigned u []) \<in> {1..10} \<and> length (encode_signed i []) \<in> {1..10}"
  using encode_unsigned_length [of u] encode_signed_length [of i]
  by (simp add: decode_unsigned_encode decode_signed_encode Suc_le_eq)

end
