(* ===== verification/Codec.thy ===== *)
theory Codec
  imports Varint
begin

text \<open>
  \<open>BinarySerializer\<close> and \<open>BinaryDeserializer\<close> (\<open>crates/sqe-quack-wire/src/codec.rs\<close>).

  A serializer is the record of its output buffer and every write method is a function on it. A
  deserializer is the record of its buffer and its position; a read method is a \<open>decoder\<close>, a function
  from the deserializer to a value and the advanced deserializer, or an error, or a panic. After an
  error every caller propagates it with \<open>?\<close> and drops the deserializer, so an error carries none. The
  \<open>debug_assert\<close>s and the slice expressions have their panicking branch.

  The theory then gives the two judgements all later decoders are verified with: \<open>parses\<close> (the decoder
  accepts these bytes and leaves those) and \<open>safe\<close> (on any input the decoder does not panic, stays in
  its buffer, never moves backwards, and returns a value with the given property), and the interface
  \<open>codec\<close> between an encoder and its decoder, whose laws lift to lists.
\<close>

named_theorems writes \<open>what a write method appends\<close>
named_theorems parses_intros \<open>decoders accept what the write methods append\<close>
named_theorems safe_intros \<open>decoders neither panic nor leave their buffer\<close>

section \<open>BinarySerializer\<close>

definition MESSAGE_TERMINATOR_FIELD_ID :: u16 where
  "MESSAGE_TERMINATOR_FIELD_ID = 0xFFFF"

record binary_serializer =
  out :: "u8 list"

definition serializer_new :: binary_serializer where
  "serializer_new = \<lparr>out = []\<rparr>"

definition into_bytes :: "binary_serializer \<Rightarrow> u8 list" where
  "into_bytes s = out s"

text \<open>Rust's \<open>u16::to_le_bytes\<close> and \<open>u16::from_le_bytes\<close>.\<close>

definition u16_to_le_bytes :: "u16 \<Rightarrow> u8 list" where
  "u16_to_le_bytes v = [ucast v, ucast (drop_bit 8 v)]"

definition u16_from_le_bytes :: "u8 \<Rightarrow> u8 \<Rightarrow> u16" where
  "u16_from_le_bytes b0 b1 = ucast b0 OR push_bit 8 (ucast b1)"

definition extend_from_slice :: "u8 list \<Rightarrow> binary_serializer \<Rightarrow> binary_serializer" where
  "extend_from_slice bs s = s\<lparr>out := out s @ bs\<rparr>"

definition begin_object :: "binary_serializer \<Rightarrow> binary_serializer" where
  "begin_object s = s"

definition end_object :: "binary_serializer \<Rightarrow> binary_serializer" where
  "end_object s = extend_from_slice (u16_to_le_bytes MESSAGE_TERMINATOR_FIELD_ID) s"

definition begin_property :: "u16 \<Rightarrow> binary_serializer \<Rightarrow> binary_serializer" where
  "begin_property field_id s = extend_from_slice (u16_to_le_bytes field_id) s"

definition end_property :: "binary_serializer \<Rightarrow> binary_serializer" where
  "end_property s = s"

definition begin_optional_property :: "u16 \<Rightarrow> bool \<Rightarrow> binary_serializer \<Rightarrow> binary_serializer" where
  "begin_optional_property field_id present s =
     (if present then begin_property field_id s else s)"

definition end_optional_property :: "bool \<Rightarrow> binary_serializer \<Rightarrow> binary_serializer" where
  "end_optional_property present s = s"

definition begin_list :: "u64 \<Rightarrow> binary_serializer \<Rightarrow> binary_serializer" where
  "begin_list count s = s\<lparr>out := encode_unsigned count (out s)\<rparr>"

definition end_list :: "binary_serializer \<Rightarrow> binary_serializer" where
  "end_list s = s"

definition begin_nullable :: "bool \<Rightarrow> binary_serializer \<Rightarrow> binary_serializer" where
  "begin_nullable present s = extend_from_slice [of_bool present] s"

definition end_nullable :: "bool \<Rightarrow> binary_serializer \<Rightarrow> binary_serializer" where
  "end_nullable present s = s"

definition write_bool :: "bool \<Rightarrow> binary_serializer \<Rightarrow> binary_serializer" where
  "write_bool b s = extend_from_slice [of_bool b] s"

definition write_u8 :: "u8 \<Rightarrow> binary_serializer \<Rightarrow> binary_serializer" where
  "write_u8 v s = s\<lparr>out := encode_unsigned (ucast v) (out s)\<rparr>"

definition write_u32 :: "u32 \<Rightarrow> binary_serializer \<Rightarrow> binary_serializer" where
  "write_u32 v s = s\<lparr>out := encode_unsigned (ucast v) (out s)\<rparr>"

definition write_u64 :: "u64 \<Rightarrow> binary_serializer \<Rightarrow> binary_serializer" where
  "write_u64 v s = s\<lparr>out := encode_unsigned v (out s)\<rparr>"

definition write_i64 :: "i64 \<Rightarrow> binary_serializer \<Rightarrow> binary_serializer" where
  "write_i64 v s = s\<lparr>out := encode_signed v (out s)\<rparr>"

definition write_hugeint :: "i128 \<Rightarrow> binary_serializer \<Rightarrow> binary_serializer" where
  "write_hugeint v s =
     (let lower = ucast v :: i64;
          upper = ucast (signed_drop_bit 64 v) :: i64;
          s = s\<lparr>out := encode_signed lower (out s)\<rparr>
      in s\<lparr>out := encode_signed upper (out s)\<rparr>)"

text \<open>An \<open>f64\<close> is written as its eight bytes; the model carries its bits.\<close>

definition write_f64 :: "u64 \<Rightarrow> binary_serializer \<Rightarrow> binary_serializer" where
  "write_f64 bits s =
     extend_from_slice (map (\<lambda>k. ucast (drop_bit (8 * k) bits)) [0..<8]) s"

definition write_data_ptr :: "u8 list \<Rightarrow> binary_serializer \<Rightarrow> binary_serializer" where
  "write_data_ptr bytes s =
     extend_from_slice bytes (s\<lparr>out := encode_unsigned (of_nat (length bytes)) (out s)\<rparr>)"

definition write_string :: "u8 list \<Rightarrow> binary_serializer \<Rightarrow> binary_serializer" where
  "write_string value s =
     (let bytes = value
      in extend_from_slice bytes (s\<lparr>out := encode_unsigned (of_nat (length bytes)) (out s)\<rparr>))"

section \<open>UTF-8\<close>

text \<open>
  A Rust \<open>str\<close> is its UTF-8 bytes, so strings are byte lists. \<open>utf8_valid\<close> is the standard library's
  \<open>std::str::from_utf8\<close> check: the well-formed byte sequences of the Unicode standard (no overlong
  form, no surrogate, nothing above U+10FFFF).
\<close>

definition utf8_cont :: "u8 \<Rightarrow> bool" where
  "utf8_cont b \<longleftrightarrow> 0x80 \<le> b \<and> b \<le> 0xBF"

definition utf8_second_of_3 :: "u8 \<Rightarrow> u8 \<Rightarrow> bool" where
  "utf8_second_of_3 b1 b2 \<longleftrightarrow>
     (if b1 = 0xE0 then 0xA0 \<le> b2 \<and> b2 \<le> 0xBF
      else if b1 = 0xED then 0x80 \<le> b2 \<and> b2 \<le> 0x9F
      else utf8_cont b2)"

definition utf8_second_of_4 :: "u8 \<Rightarrow> u8 \<Rightarrow> bool" where
  "utf8_second_of_4 b1 b2 \<longleftrightarrow>
     (if b1 = 0xF0 then 0x90 \<le> b2 \<and> b2 \<le> 0xBF
      else if b1 = 0xF4 then 0x80 \<le> b2 \<and> b2 \<le> 0x8F
      else utf8_cont b2)"

fun utf8_valid :: "u8 list \<Rightarrow> bool" where
  "utf8_valid [] = True"
| "utf8_valid [b1] = (b1 < 0x80)"
| "utf8_valid [b1, b2] =
     (if b1 < 0x80 then utf8_valid [b2]
      else 0xC2 \<le> b1 \<and> b1 \<le> 0xDF \<and> utf8_cont b2)"
| "utf8_valid [b1, b2, b3] =
     (if b1 < 0x80 then utf8_valid [b2, b3]
      else if b1 \<le> 0xDF then 0xC2 \<le> b1 \<and> utf8_cont b2 \<and> utf8_valid [b3]
      else b1 \<le> 0xEF \<and> utf8_second_of_3 b1 b2 \<and> utf8_cont b3)"
| "utf8_valid (b1 # b2 # b3 # b4 # bs) =
     (if b1 < 0x80 then utf8_valid (b2 # b3 # b4 # bs)
      else if b1 \<le> 0xDF then 0xC2 \<le> b1 \<and> utf8_cont b2 \<and> utf8_valid (b3 # b4 # bs)
      else if b1 \<le> 0xEF then utf8_second_of_3 b1 b2 \<and> utf8_cont b3 \<and> utf8_valid (b4 # bs)
      else b1 \<le> 0xF4 \<and> utf8_second_of_4 b1 b2 \<and> utf8_cont b3 \<and> utf8_cont b4 \<and> utf8_valid bs)"

text \<open>A value of Rust's \<open>String\<close> type.\<close>

definition rust_string :: "u8 list \<Rightarrow> bool" where
  "rust_string s \<longleftrightarrow> utf8_valid s \<and> length s \<le> usize_MAX"

lemma rust_string_Nil [simp]: "rust_string []"
  by (simp add: rust_string_def)

section \<open>BinaryDeserializer\<close>

record binary_deserializer =
  buf :: "u8 list"
  pos :: usize

type_synonym 'a decoder = "binary_deserializer \<Rightarrow> ('a \<times> binary_deserializer) wire_result"

definition deserializer_new :: "u8 list \<Rightarrow> binary_deserializer" where
  "deserializer_new bytes = \<lparr>buf = bytes, pos = 0\<rparr>"

definition dreturn :: "'a \<Rightarrow> 'a decoder" where
  "dreturn x d = Ok (x, d)"

definition dbind :: "'a decoder \<Rightarrow> ('a \<Rightarrow> 'b decoder) \<Rightarrow> 'b decoder" where
  "dbind p f d = obind (p d) (\<lambda>(x, d'). f x d')"

text \<open>A computation that does not touch the deserializer, propagated with \<open>?\<close>.\<close>

definition dlift :: "'a wire_result \<Rightarrow> 'a decoder" where
  "dlift r d = obind r (\<lambda>x. Ok (x, d))"

definition dfail :: "wire_error \<Rightarrow> 'a decoder" where
  "dfail e d = Err e"

definition debug_assert_pos :: "unit decoder" where
  "debug_assert_pos d = (if pos d \<le> length (buf d) then Ok ((), d) else Panic)"

definition remaining :: "u8 list decoder" where
  "remaining = dbind debug_assert_pos (\<lambda>_ d. Ok (drop (pos d) (buf d), d))"

definition read_u16_le :: "u16 decoder" where
  "read_u16_le = dbind debug_assert_pos (\<lambda>_ d.
     if saturating_sub (length (buf d)) (pos d) < 2 then Err UnexpectedEof
     else let v = u16_from_le_bytes (buf d ! pos d) (buf d ! (pos d + 1))
          in Ok (v, d\<lparr>pos := pos d + 2\<rparr>))"

definition peek_field :: "u16 decoder" where
  "peek_field = dbind debug_assert_pos (\<lambda>_ d.
     if saturating_sub (length (buf d)) (pos d) < 2 then Err UnexpectedEof
     else Ok (u16_from_le_bytes (buf d ! pos d) (buf d ! (pos d + 1)), d))"

definition expect_field :: "u16 \<Rightarrow> unit decoder" where
  "expect_field field_id = dbind read_u16_le (\<lambda>actual.
     if actual \<noteq> field_id then dfail (UnexpectedField field_id actual) else dreturn ())"

definition expect_object_end :: "unit decoder" where
  "expect_object_end = dbind read_u16_le (\<lambda>actual.
     if actual \<noteq> MESSAGE_TERMINATOR_FIELD_ID
     then dfail (UnexpectedField MESSAGE_TERMINATOR_FIELD_ID actual) else dreturn ())"

definition read_optional :: "u16 \<Rightarrow> bool decoder" where
  "read_optional field_id = dbind peek_field (\<lambda>peeked d.
     if peeked = field_id then Ok (True, d\<lparr>pos := pos d + 2\<rparr>) else Ok (False, d))"

definition read_bool :: "bool decoder" where
  "read_bool d =
     (if pos d \<ge> length (buf d) then Err UnexpectedEof
      else Ok (buf d ! pos d \<noteq> 0, d\<lparr>pos := pos d + 1\<rparr>))"

definition read_nullable_present :: "bool decoder" where
  "read_nullable_present = read_bool"

text \<open>The slice \<open>&self.buf[self.pos..]\<close> panics when the position is past the end.\<close>

definition read_u64 :: "u64 decoder" where
  "read_u64 d =
     (if pos d > length (buf d) then Panic
      else obind (decode_unsigned (drop (pos d) (buf d))) (\<lambda>(value, consumed).
        Ok (value, d\<lparr>pos := pos d + consumed\<rparr>)))"

definition read_u8 :: "u8 decoder" where
  "read_u8 = dbind read_u64 (\<lambda>v.
     if unat v < 2 ^ 8 then dreturn (ucast v) else dfail VarintOverflow)"

definition read_u16 :: "u16 decoder" where
  "read_u16 = dbind read_u64 (\<lambda>v.
     if unat v < 2 ^ 16 then dreturn (ucast v) else dfail VarintOverflow)"

definition read_u32 :: "u32 decoder" where
  "read_u32 = dbind read_u64 (\<lambda>v.
     if unat v < 2 ^ 32 then dreturn (ucast v) else dfail VarintOverflow)"

definition read_i64 :: "i64 decoder" where
  "read_i64 d =
     (if pos d > length (buf d) then Panic
      else obind (decode_signed (drop (pos d) (buf d))) (\<lambda>(value, consumed).
        Ok (value, d\<lparr>pos := pos d + consumed\<rparr>)))"

definition read_hugeint :: "i128 decoder" where
  "read_hugeint = dbind read_i64 (\<lambda>lower. dbind read_i64 (\<lambda>upper.
     dreturn (push_bit 64 (scast upper) OR ucast lower)))"

definition take_bytes :: "usize \<Rightarrow> u8 list decoder" where
  "take_bytes len = dbind debug_assert_pos (\<lambda>_ d.
     if saturating_sub (length (buf d)) (pos d) < len then Err UnexpectedEof
     else Ok (take len (drop (pos d) (buf d)), d\<lparr>pos := pos d + len\<rparr>))"

definition read_string :: "u8 list decoder" where
  "read_string = dbind read_u64 (\<lambda>len. dbind (take_bytes (unat len)) (\<lambda>bytes.
     if utf8_valid bytes then dreturn bytes else dfail InvalidUtf8))"

definition skip_string :: "unit decoder" where
  "skip_string = dbind read_u64 (\<lambda>len. dbind (take_bytes (unat len)) (\<lambda>_. dreturn ()))"

definition read_bounded_count :: "usize decoder" where
  "read_bounded_count = dbind read_u64 (\<lambda>count. dbind remaining (\<lambda>bytes.
     if unat count > length bytes
     then dfail (CountExceedsRemaining count (of_nat (length bytes)))
     else dreturn (unat count)))"

definition read_data_ptr :: "u8 list decoder" where
  "read_data_ptr = dbind read_u64 (\<lambda>len. take_bytes (unat len))"

text \<open>The bodies of the loops \<open>for t in ts\<close> and \<open>for _ in 0..n\<close> that push one decoded value each.\<close>

fun decode_each :: "('t \<Rightarrow> 'a decoder) \<Rightarrow> 't list \<Rightarrow> 'a list decoder" where
  "decode_each f [] = dreturn []"
| "decode_each f (t # ts) =
     dbind (f t) (\<lambda>x. dbind (decode_each f ts) (\<lambda>xs. dreturn (x # xs)))"

definition decode_many :: "usize \<Rightarrow> 'a decoder \<Rightarrow> 'a list decoder" where
  "decode_many n p = decode_each (\<lambda>_. p) [0..<n]"

section \<open>What the write methods append\<close>

text \<open>The bytes of a field id, of an object terminator, of an unsigned varint and of a string.\<close>

abbreviation field :: "u16 \<Rightarrow> u8 list" where
  "field \<equiv> u16_to_le_bytes"

abbreviation object_end :: "u8 list" where
  "object_end \<equiv> u16_to_le_bytes MESSAGE_TERMINATOR_FIELD_ID"

abbreviation varint :: "u64 \<Rightarrow> u8 list" where
  "varint n \<equiv> encode_unsigned n []"

definition string_bytes :: "u8 list \<Rightarrow> u8 list" where
  "string_bytes s = varint (of_nat (length s)) @ s"

lemma extend_from_slice_writes [writes]: "out (extend_from_slice bs s) = out s @ bs"
  by (simp add: extend_from_slice_def)

lemma serializer_new_writes [writes]: "out serializer_new = []"
  by (simp add: serializer_new_def)

lemma structure_writes [writes]:
  "out (begin_object s) = out s"
  "out (end_object s) = out s @ u16_to_le_bytes MESSAGE_TERMINATOR_FIELD_ID"
  "out (begin_property f s) = out s @ u16_to_le_bytes f"
  "out (end_property s) = out s"
  "out (begin_optional_property f b s) = out s @ (if b then u16_to_le_bytes f else [])"
  "out (end_optional_property b s) = out s"
  "out (begin_list n s) = out s @ encode_unsigned n []"
  "out (end_list s) = out s"
  "out (begin_nullable b s) = out s @ [of_bool b]"
  "out (end_nullable b s) = out s"
  by (simp_all add: begin_object_def end_object_def begin_property_def end_property_def
      begin_optional_property_def end_optional_property_def begin_list_def end_list_def
      begin_nullable_def end_nullable_def writes encode_unsigned_append [of n "out s"])

lemma scalar_writes [writes]:
  "out (write_bool b s) = out s @ [of_bool b]"
  "out (write_u8 w8 s) = out s @ encode_unsigned (ucast w8) []"
  "out (write_u32 w32 s) = out s @ encode_unsigned (ucast w32) []"
  "out (write_u64 w64 s) = out s @ encode_unsigned w64 []"
  "out (write_i64 w64 s) = out s @ encode_signed w64 []"
  "out (write_data_ptr bs s) = out s @ string_bytes bs"
  "out (write_string bs s) = out s @ string_bytes bs"
  by (simp_all add: string_bytes_def write_bool_def write_u8_def write_u32_def write_u64_def write_i64_def
      write_data_ptr_def write_string_def Let_def writes
      encode_unsigned_append [of _ "out s"] encode_signed_append [of _ "out s"])

lemma write_hugeint_writes [writes]:
  "out (write_hugeint v s) =
     out s @ encode_signed (ucast v) [] @ encode_signed (ucast (signed_drop_bit 64 v)) []"
  by (simp add: write_hugeint_def Let_def encode_signed_append [of _ "out s"]
      encode_signed_append [of _ "out s @ _"])

lemma fold_writes:
  "(\<And>x s. x \<in> set xs \<Longrightarrow> out (f x s) = out s @ g x) \<Longrightarrow>
   out (fold f xs s) = out s @ concat (map g xs)"
  by (induction xs arbitrary: s) simp_all

lemma concat_length_ge:
  "(\<And>x. x \<in> set xs \<Longrightarrow> g x \<noteq> []) \<Longrightarrow> length xs \<le> length (concat (map g xs))"
proof (induction xs)
  case (Cons x xs)
  then have "1 \<le> length (g x)" by (simp add: Suc_le_eq)
  with Cons show ?case by simp
qed simp

lemma string_bytes_nonempty [simp]: "string_bytes v \<noteq> []"
  by (simp add: string_bytes_def)

section \<open>Accepting decoders\<close>

definition deser_ok :: "binary_deserializer \<Rightarrow> bool" where
  "deser_ok d \<longleftrightarrow> pos d \<le> length (buf d)"

definition unread :: "binary_deserializer \<Rightarrow> u8 list" where
  "unread d = drop (pos d) (buf d)"

definition parses :: "'a decoder \<Rightarrow> u8 list \<Rightarrow> 'a \<Rightarrow> u8 list \<Rightarrow> bool" where
  "parses p bs x bs' \<longleftrightarrow>
     (\<forall>d. deser_ok d \<longrightarrow> unread d = bs \<longrightarrow>
        (\<exists>d'. p d = Ok (x, d') \<and> deser_ok d' \<and> unread d' = bs' \<and> buf d' = buf d))"

lemma parsesI:
  "(\<And>d. deser_ok d \<Longrightarrow> unread d = bs \<Longrightarrow>
      \<exists>d'. p d = Ok (x, d') \<and> deser_ok d' \<and> unread d' = bs' \<and> buf d' = buf d)
   \<Longrightarrow> parses p bs x bs'"
  by (simp add: parses_def)

lemma parsesE:
  assumes "parses p bs x bs'" "deser_ok d" "unread d = bs"
  obtains d' where "p d = Ok (x, d')" "deser_ok d'" "unread d' = bs'" "buf d' = buf d"
  using assms by (auto simp: parses_def)

lemma parses_return [parses_intros]: "parses (dreturn x) bs x bs"
  by (simp add: parses_def dreturn_def)

lemma parses_return_eq: "x = y \<Longrightarrow> parses (dreturn x) bs y bs"
  by (simp add: parses_return)

lemma parses_bind [parses_intros]:
  assumes "parses p bs x bs'" and "parses (f x) bs' y bs''"
  shows "parses (dbind p f) bs y bs''"
proof (rule parsesI)
  fix d
  assume "deser_ok d" "unread d = bs"
  with assms(1) obtain d' where d': "p d = Ok (x, d')" "deser_ok d'" "unread d' = bs'" "buf d' = buf d"
    by (rule parsesE)
  from assms(2) d'(2,3) obtain d'' where
    "f x d' = Ok (y, d'')" "deser_ok d''" "unread d'' = bs''" "buf d'' = buf d'"
    by (rule parsesE)
  with d' show "\<exists>d''. dbind p f d = Ok (y, d'') \<and> deser_ok d'' \<and> unread d'' = bs'' \<and> buf d'' = buf d"
    by (simp add: dbind_def)
qed

lemma parses_lift [parses_intros]: "r = Ok x \<Longrightarrow> parses (dlift r) bs x bs"
  by (simp add: parses_def dlift_def)

text \<open>Advancing over a prefix of the unread bytes.\<close>

lemma unread_advance:
  assumes "deser_ok d" "unread d = bs @ rest"
  shows "deser_ok (d\<lparr>pos := pos d + length bs\<rparr>)" "unread (d\<lparr>pos := pos d + length bs\<rparr>) = rest"
proof -
  have "length (buf d) - pos d = length bs + length rest"
    using assms by (metis length_append length_drop unread_def)
  then show "deser_ok (d\<lparr>pos := pos d + length bs\<rparr>)"
    using assms(1) by (simp add: deser_ok_def)
  have "drop (length bs) (unread d) = rest" using assms(2) by simp
  then show "unread (d\<lparr>pos := pos d + length bs\<rparr>) = rest"
    by (simp add: unread_def add.commute)
qed

lemma length_u16_to_le_bytes [simp]: "length (u16_to_le_bytes v) = 2"
  by (simp add: u16_to_le_bytes_def)

lemma u16_to_le_bytes_nonempty [simp]: "u16_to_le_bytes v \<noteq> []"
  by (simp add: u16_to_le_bytes_def)

lemma u16_le_roundtrip: "u16_from_le_bytes (u16_to_le_bytes v ! 0) (u16_to_le_bytes v ! 1) = v"
  by (rule bit_word_eqI) (auto simp: u16_from_le_bytes_def u16_to_le_bytes_def bit_simps)

lemma unread_nth:
  assumes "deser_ok d" "unread d = bs @ rest" "i < length bs"
  shows "buf d ! (pos d + i) = bs ! i"
proof -
  have "buf d ! (pos d + i) = unread d ! i"
    using assms(1) by (simp add: unread_def deser_ok_def)
  with assms(2,3) show ?thesis by (simp add: nth_append)
qed

lemma unread_length: "deser_ok d \<Longrightarrow> length (buf d) - pos d = length (unread d)"
  by (simp add: unread_def)

lemma parses_read_u16_le: "parses read_u16_le (u16_to_le_bytes v @ rest) v rest"
proof (rule parsesI)
  fix d
  assume d: "deser_ok d" "unread d = u16_to_le_bytes v @ rest"
  have "u16_from_le_bytes (buf d ! pos d) (buf d ! (pos d + 1)) = v"
    using unread_nth [OF d, of 0] unread_nth [OF d, of 1] u16_le_roundtrip [of v] by simp
  then show "\<exists>d'. read_u16_le d = Ok (v, d') \<and> deser_ok d' \<and> unread d' = rest \<and> buf d' = buf d"
    using d unread_advance [OF d] unread_length [OF d(1)]
    by (simp add: read_u16_le_def dbind_def debug_assert_pos_def deser_ok_def saturating_sub_def)
qed

lemma parses_peek_field: "parses peek_field (u16_to_le_bytes v @ rest) v (u16_to_le_bytes v @ rest)"
proof (rule parsesI)
  fix d
  assume d: "deser_ok d" "unread d = u16_to_le_bytes v @ rest"
  have "u16_from_le_bytes (buf d ! pos d) (buf d ! (pos d + 1)) = v"
    using unread_nth [OF d, of 0] unread_nth [OF d, of 1] u16_le_roundtrip [of v] by simp
  then show "\<exists>d'. peek_field d = Ok (v, d') \<and> deser_ok d' \<and>
      unread d' = u16_to_le_bytes v @ rest \<and> buf d' = buf d"
    using d unread_length [OF d(1)]
    by (simp add: peek_field_def dbind_def debug_assert_pos_def deser_ok_def saturating_sub_def)
qed

lemma parses_expect_field [parses_intros]:
  "parses (expect_field f) (u16_to_le_bytes f @ rest) () rest"
  unfolding expect_field_def
  by (rule parses_bind [OF parses_read_u16_le]) (simp add: parses_return)

lemma parses_expect_object_end [parses_intros]:
  "parses expect_object_end (u16_to_le_bytes MESSAGE_TERMINATOR_FIELD_ID @ rest) () rest"
  unfolding expect_object_end_def
  by (rule parses_bind [OF parses_read_u16_le]) (simp add: parses_return)

lemma parses_read_optional_present [parses_intros]:
  "parses (read_optional f) (u16_to_le_bytes f @ rest) True rest"
  unfolding read_optional_def
proof (rule parses_bind [OF parses_peek_field], rule parsesI)
  fix d
  assume "deser_ok d" "unread d = u16_to_le_bytes f @ rest"
  from unread_advance [OF this]
  show "\<exists>d'. (if f = f then Ok (True, d\<lparr>pos := pos d + 2\<rparr>) else Ok (False, d)) = Ok (True, d') \<and>
      deser_ok d' \<and> unread d' = rest \<and> buf d' = buf d"
    by simp
qed

lemma parses_read_optional_absent [parses_intros]:
  "g \<noteq> f \<Longrightarrow> parses (read_optional f) (u16_to_le_bytes g @ rest) False (u16_to_le_bytes g @ rest)"
  unfolding read_optional_def
  by (rule parses_bind [OF parses_peek_field]) (simp add: parses_def)

lemma parses_read_bool [parses_intros]: "parses read_bool (of_bool b # rest) b rest"
proof (rule parsesI)
  fix d
  assume d: "deser_ok d" "unread d = of_bool b # rest"
  then have d': "unread d = [of_bool b] @ rest" by simp
  have "(buf d ! pos d \<noteq> 0) = b" using unread_nth [OF d(1) d', of 0] by simp
  moreover have "pos d < length (buf d)"
    using unread_length [OF d(1)] d(2) by simp
  ultimately show "\<exists>d'. read_bool d = Ok (b, d') \<and> deser_ok d' \<and> unread d' = rest \<and> buf d' = buf d"
    using unread_advance [OF d(1) d'] by (simp add: read_bool_def)
qed

lemma parses_read_nullable_present [parses_intros]:
  "parses read_nullable_present (of_bool b # rest) b rest"
  unfolding read_nullable_present_def by (rule parses_read_bool)

lemma parses_read_present [parses_intros]:
  "parses read_nullable_present (1 # rest) True rest"
  "parses read_nullable_present (0 # rest) False rest"
  "parses read_bool (1 # rest) True rest"
  "parses read_bool (0 # rest) False rest"
  using parses_read_nullable_present [of True rest] parses_read_nullable_present [of False rest]
    parses_read_bool [of True rest] parses_read_bool [of False rest] by simp_all

lemma parses_read_u64 [parses_intros]: "parses read_u64 (encode_unsigned v [] @ rest) v rest"
proof (rule parsesI)
  fix d
  assume d: "deser_ok d" "unread d = encode_unsigned v [] @ rest"
  from unread_advance [OF this] d
  show "\<exists>d'. read_u64 d = Ok (v, d') \<and> deser_ok d' \<and> unread d' = rest \<and> buf d' = buf d"
    by (simp add: read_u64_def deser_ok_def unread_def decode_unsigned_encode)
qed

lemma parses_read_i64 [parses_intros]: "parses read_i64 (encode_signed v [] @ rest) v rest"
proof (rule parsesI)
  fix d
  assume d: "deser_ok d" "unread d = encode_signed v [] @ rest"
  from unread_advance [OF this] d
  show "\<exists>d'. read_i64 d = Ok (v, d') \<and> deser_ok d' \<and> unread d' = rest \<and> buf d' = buf d"
    by (simp add: read_i64_def deser_ok_def unread_def decode_signed_encode)
qed

lemma unat_ucast_less: "unat (ucast (w :: 'a::len word) :: 'b::len word) < 2 ^ LENGTH('a)"
  by (metis le_less_trans take_bit_nat_less_eq_self unsigned_less unsigned_ucast_eq)

lemma ucast_u8_back: "ucast (ucast (v :: u8) :: u64) = v"
  by (rule bit_word_eqI) (simp add: bit_simps)

lemma ucast_u32_back: "ucast (ucast (v :: u32) :: u64) = v"
  by (rule bit_word_eqI) (simp add: bit_simps)

lemma parses_read_u8 [parses_intros]:
  "parses read_u8 (encode_unsigned (ucast (v :: u8)) [] @ rest) v rest"
  unfolding read_u8_def
  by (rule parses_bind [OF parses_read_u64]) (use unat_ucast_less [where 'b = 64, of v] in
      \<open>simp add: parses_return ucast_u8_back\<close>)

lemma parses_read_u32 [parses_intros]:
  "parses read_u32 (encode_unsigned (ucast (v :: u32)) [] @ rest) v rest"
  unfolding read_u32_def
  by (rule parses_bind [OF parses_read_u64]) (use unat_ucast_less [where 'b = 64, of v] in
      \<open>simp add: parses_return ucast_u32_back\<close>)

lemma hugeint_halves:
  "push_bit 64 (scast (ucast (signed_drop_bit 64 v) :: i64)) OR ucast (ucast v :: i64) = (v :: i128)"
proof (rule bit_word_eqI)
  fix k
  assume k: "k < LENGTH(128)"
  show "bit (push_bit 64 (scast (ucast (signed_drop_bit 64 v) :: i64)) OR ucast (ucast v :: i64) :: i128) k
      = bit v k"
  proof (cases "k < 64")
    case True
    then show ?thesis by (simp add: bit_simps)
  next
    case False
    with k show ?thesis by (cases "k = 127") (auto simp: bit_simps not_less min_def)
  qed
qed

lemma parses_read_hugeint [parses_intros]:
  "parses read_hugeint
     (encode_signed (ucast v) [] @ encode_signed (ucast (signed_drop_bit 64 v)) [] @ rest) v rest"
  unfolding read_hugeint_def
  by (rule parses_bind [OF parses_read_i64], rule parses_bind [OF parses_read_i64])
    (simp add: hugeint_halves parses_return)

lemma parses_take_bytes: "parses (take_bytes (length bs)) (bs @ rest) bs rest"
proof (rule parsesI)
  fix d
  assume d: "deser_ok d" "unread d = bs @ rest"
  then have "take (length bs) (drop (pos d) (buf d)) = bs" by (simp add: unread_def)
  with unread_advance [OF d] d unread_length [OF d(1)]
  show "\<exists>d'. take_bytes (length bs) d = Ok (bs, d') \<and> deser_ok d' \<and> unread d' = rest \<and> buf d' = buf d"
    by (simp add: take_bytes_def dbind_def debug_assert_pos_def deser_ok_def saturating_sub_def)
qed

lemma parses_take_bytes_unat:
  "length bs \<le> usize_MAX \<Longrightarrow> parses (take_bytes (unat (of_nat (length bs) :: u64))) (bs @ rest) bs rest"
  by (simp add: parses_take_bytes)

lemma parses_read_data_ptr [parses_intros]:
  "length bs \<le> usize_MAX \<Longrightarrow>
   parses read_data_ptr (encode_unsigned (of_nat (length bs)) [] @ bs @ rest) bs rest"
  unfolding read_data_ptr_def
  by (rule parses_bind [OF parses_read_u64]) (rule parses_take_bytes_unat)

lemma parses_read_string [parses_intros]:
  "rust_string s \<Longrightarrow> parses read_string (encode_unsigned (of_nat (length s)) [] @ s @ rest) s rest"
  unfolding read_string_def rust_string_def
  by (elim conjE, rule parses_bind [OF parses_read_u64], rule parses_bind [OF parses_take_bytes_unat])
    (simp_all add: parses_return)

lemma parses_string_bytes [parses_intros]:
  "rust_string v \<Longrightarrow> parses read_string (string_bytes v @ rest) v rest"
  by (simp add: string_bytes_def parses_read_string)

lemma parses_data_ptr_bytes [parses_intros]:
  "length v \<le> usize_MAX \<Longrightarrow> parses read_data_ptr (string_bytes v @ rest) v rest"
  by (simp add: string_bytes_def parses_read_data_ptr)

lemma parses_skip_string [parses_intros]:
  "length s \<le> usize_MAX \<Longrightarrow> parses skip_string (encode_unsigned (of_nat (length s)) [] @ s @ rest) () rest"
  unfolding skip_string_def
  by (rule parses_bind [OF parses_read_u64], rule parses_bind [OF parses_take_bytes_unat])
    (simp_all add: parses_return)

lemma parses_remaining: "parses remaining bs bs bs"
  by (simp add: parses_def remaining_def dbind_def debug_assert_pos_def deser_ok_def unread_def)

lemma parses_read_bounded_count [parses_intros]:
  "n \<le> length rest \<Longrightarrow> n \<le> usize_MAX \<Longrightarrow>
   parses read_bounded_count (encode_unsigned (of_nat n) [] @ rest) n rest"
  unfolding read_bounded_count_def
  by (rule parses_bind [OF parses_read_u64], rule parses_bind [OF parses_remaining])
    (simp add: parses_return)

lemma parses_decode_each:
  assumes "list_all2 (\<lambda>t (x, bs). \<forall>rest. parses (f t) (bs @ rest) x rest) ts xbs"
  shows "parses (decode_each f ts) (concat (map snd xbs) @ rest) (map fst xbs) rest"
  using assms
proof (induction ts xbs rule: list_all2_induct)
  case Nil
  show ?case by (simp add: parses_return)
next
  case (Cons t ts xb xbs)
  obtain x bs where xb: "xb = (x, bs)" by (cases xb)
  with Cons.hyps have "parses (f t) (bs @ concat (map snd xbs) @ rest) x (concat (map snd xbs) @ rest)"
    by simp
  then have "parses (decode_each f (t # ts)) (bs @ concat (map snd xbs) @ rest) (x # map fst xbs) rest"
    unfolding decode_each.simps
    by (rule parses_bind) (rule parses_bind [OF Cons.IH], rule parses_return)
  then show ?case by (simp add: xb)
qed

lemma parses_decode_many:
  assumes "\<And>x rest. x \<in> set xs \<Longrightarrow> parses p (g x @ rest) x rest"
  shows "parses (decode_many (length xs) p) (concat (map g xs) @ rest) xs rest"
proof -
  have "list_all2 (\<lambda>t (x, bs). \<forall>rest. parses p (bs @ rest) x rest)
      [0..<length xs] (map (\<lambda>x. (x, g x)) xs)"
    using assms by (auto simp: list_all2_conv_all_nth)
  from parses_decode_each [where f = "\<lambda>_. p", OF this] show ?thesis
    by (simp add: decode_many_def comp_def)
qed

text \<open>A whole buffer, decoded from its start.\<close>

lemma deserializer_new_ok [simp]:
  "deser_ok (deserializer_new bs)" "unread (deserializer_new bs) = bs" "buf (deserializer_new bs) = bs"
  by (simp_all add: deserializer_new_def deser_ok_def unread_def)

lemma parses_new:
  assumes "parses p bs x bs'"
  shows "p (deserializer_new bs) = Ok (x, \<lparr>buf = bs, pos = length bs - length bs'\<rparr>)"
proof -
  from assms obtain d' where d': "p (deserializer_new bs) = Ok (x, d')" "deser_ok d'" "unread d' = bs'"
      "buf d' = bs"
    using parsesE [OF assms, of "deserializer_new bs"] by (metis deserializer_new_ok)
  then have "pos d' = length bs - length bs'"
    by (metis deser_ok_def diff_diff_cancel unread_length)
  with d'(1,4) show ?thesis by simp
qed

section \<open>Refusing decoders\<close>

definition refuses :: "'a decoder \<Rightarrow> u8 list \<Rightarrow> wire_error \<Rightarrow> bool" where
  "refuses p bs e \<longleftrightarrow> (\<forall>d. deser_ok d \<longrightarrow> unread d = bs \<longrightarrow> p d = Err e)"

lemma refuses_fail: "refuses (dfail e) bs e"
  by (simp add: refuses_def dfail_def)

lemma refuses_here: "refuses p bs e \<Longrightarrow> refuses (dbind p f) bs e"
  by (simp add: refuses_def dbind_def)

lemma refuses_later:
  assumes "parses p bs x bs'" and "refuses (f x) bs' e"
  shows "refuses (dbind p f) bs e"
  unfolding refuses_def
proof (intro allI impI)
  fix d
  assume "deser_ok d" "unread d = bs"
  with assms(1) obtain d' where "p d = Ok (x, d')" "deser_ok d'" "unread d' = bs'"
    by (rule parsesE)
  with assms(2) show "dbind p f d = Err e" by (simp add: refuses_def dbind_def)
qed

lemma refuses_new: "refuses p bs e \<Longrightarrow> p (deserializer_new bs) = Err e"
  by (simp add: refuses_def)

text \<open>A loop is refused at the first element that is.\<close>

lemma refuses_decode_each:
  assumes "length ts = length xs"
    and "\<And>x rest. x \<in> set xs \<Longrightarrow> P x \<Longrightarrow> parses p (g x @ rest) x rest"
    and "\<And>x rest. x \<in> set xs \<Longrightarrow> \<not> P x \<Longrightarrow> refuses p (g x @ rest) e"
    and "\<not> list_all P xs"
  shows "refuses (decode_each (\<lambda>_. p) ts) (concat (map g xs) @ rest) e"
  using assms
proof (induction ts xs rule: list_induct2)
  case (Cons t ts x xs)
  show ?case
  proof (cases "P x")
    case True
    have "refuses (decode_each (\<lambda>_. p) ts) (concat (map g xs) @ rest) e"
      using Cons True by simp
    with True Cons.prems(1) [of x "concat (map g xs) @ rest"] show ?thesis
      by (auto intro: refuses_later refuses_here)
  next
    case False
    with Cons.prems(2) [of x "concat (map g xs) @ rest"] show ?thesis by (auto intro: refuses_here)
  qed
qed simp

lemmas refuses_decode_many =
  refuses_decode_each [of "[0..<length xs]" xs for xs, simplified, folded decode_many_def]

section \<open>Safe decoders\<close>

definition safe :: "'a decoder \<Rightarrow> ('a \<Rightarrow> bool) \<Rightarrow> bool" where
  "safe p Q \<longleftrightarrow>
     (\<forall>d. deser_ok d \<longrightarrow>
        (case p d of
           Ok (x, d') \<Rightarrow> deser_ok d' \<and> buf d' = buf d \<and> pos d \<le> pos d' \<and> Q x
         | Err e \<Rightarrow> True
         | Panic \<Rightarrow> False))"

lemma safe_return [safe_intros]: "Q x \<Longrightarrow> safe (dreturn x) Q"
  by (simp add: safe_def dreturn_def)

lemma safe_fail [safe_intros]: "safe (dfail e) Q"
  by (simp add: safe_def dfail_def)

lemma safeD:
  assumes "safe p Q" "deser_ok d"
  shows "p d \<noteq> Panic"
    and "p d = Ok (x, d') \<Longrightarrow> deser_ok d' \<and> buf d' = buf d \<and> pos d \<le> pos d' \<and> Q x"
proof -
  from assms have "case p d of Ok (x, d') \<Rightarrow> deser_ok d' \<and> buf d' = buf d \<and> pos d \<le> pos d' \<and> Q x
      | Err e \<Rightarrow> True | Panic \<Rightarrow> False"
    by (simp add: safe_def)
  then show "p d \<noteq> Panic"
    and "p d = Ok (x, d') \<Longrightarrow> deser_ok d' \<and> buf d' = buf d \<and> pos d \<le> pos d' \<and> Q x"
    by auto
qed

lemma safeI:
  assumes "\<And>d. deser_ok d \<Longrightarrow> p d \<noteq> Panic"
    and "\<And>d x d'. deser_ok d \<Longrightarrow> p d = Ok (x, d') \<Longrightarrow>
      deser_ok d' \<and> buf d' = buf d \<and> pos d \<le> pos d' \<and> Q x"
  shows "safe p Q"
  unfolding safe_def
proof (intro allI impI)
  fix d
  assume "deser_ok d"
  with assms [of d] show "case p d of
      Ok (x, d') \<Rightarrow> deser_ok d' \<and> buf d' = buf d \<and> pos d \<le> pos d' \<and> Q x
    | Err e \<Rightarrow> True | Panic \<Rightarrow> False"
    by (cases "p d") auto
qed

lemma safe_bind [safe_intros]:
  assumes "safe p P" and "\<And>x. P x \<Longrightarrow> safe (f x) Q"
  shows "safe (dbind p f) Q"
proof (rule safeI)
  fix d
  assume d: "deser_ok d"
  show "dbind p f d \<noteq> Panic"
  proof (cases "p d")
    case (Ok r)
    obtain x d1 where r: "r = (x, d1)" by (cases r)
    from safeD(2) [OF assms(1) d, of x d1] Ok r have "deser_ok d1" "P x" by simp_all
    with Ok r safeD(1) [OF assms(2)] show ?thesis by (simp add: dbind_def)
  qed (use safeD(1) [OF assms(1) d] in \<open>simp_all add: dbind_def\<close>)
next
  fix d y d2
  assume d: "deser_ok d" and "dbind p f d = Ok (y, d2)"
  then obtain x d1 where p: "p d = Ok (x, d1)" and f: "f x d1 = Ok (y, d2)"
    by (auto simp: dbind_def obind_eq_Ok_iff)
  from safeD(2) [OF assms(1) d p] have d1: "deser_ok d1" "buf d1 = buf d" "pos d \<le> pos d1" "P x"
    by simp_all
  from safeD(2) [OF assms(2) [OF d1(4)] d1(1) f] d1
  show "deser_ok d2 \<and> buf d2 = buf d \<and> pos d \<le> pos d2 \<and> Q y" by simp
qed

lemma safe_weaken: "safe p P \<Longrightarrow> (\<And>x. P x \<Longrightarrow> Q x) \<Longrightarrow> safe p Q"
  by (rule safeI) (auto dest: safeD)

lemma safe_lift: "r \<noteq> Panic \<Longrightarrow> (\<And>x. r = Ok x \<Longrightarrow> Q x) \<Longrightarrow> safe (dlift r) Q"
  by (cases r) (auto simp: safe_def dlift_def)

lemma safe_if [safe_intros]: "(b \<Longrightarrow> safe p Q) \<Longrightarrow> (\<not> b \<Longrightarrow> safe q Q) \<Longrightarrow> safe (if b then p else q) Q"
  by simp

text \<open>A decoder that inspects the deserializer and moves its position inside the buffer.\<close>

lemma safe_step:
  assumes "\<And>d. deser_ok d \<Longrightarrow> p d \<noteq> Panic"
    and "\<And>d x d'. deser_ok d \<Longrightarrow> p d = Ok (x, d') \<Longrightarrow>
      \<exists>k \<le> length (buf d). pos d \<le> k \<and> d' = d\<lparr>pos := k\<rparr> \<and> Q x"
  shows "safe p Q"
proof (rule safeI)
  fix d x d'
  assume d: "deser_ok d" and "p d = Ok (x, d')"
  from assms(2) [OF this] show "deser_ok d' \<and> buf d' = buf d \<and> pos d \<le> pos d' \<and> Q x"
    by (auto simp: deser_ok_def)
qed (rule assms(1))

lemma safe_debug_assert_pos: "safe debug_assert_pos (\<lambda>_. True)"
  by (rule safeI) (auto simp: debug_assert_pos_def deser_ok_def)

lemma safe_remaining [safe_intros]: "safe remaining (\<lambda>_. True)"
  unfolding remaining_def
  by (rule safe_bind [OF safe_debug_assert_pos]) (simp add: safe_def)

lemma safe_read_u16_le [safe_intros]: "safe read_u16_le (\<lambda>_. True)"
  unfolding read_u16_le_def
  by (rule safe_bind [OF safe_debug_assert_pos])
    (auto simp: safe_def deser_ok_def saturating_sub_def Let_def)

lemma safe_peek_field [safe_intros]: "safe peek_field (\<lambda>_. True)"
  unfolding peek_field_def
  by (rule safe_bind [OF safe_debug_assert_pos]) (auto simp: safe_def)

lemma safe_expect_field [safe_intros]: "safe (expect_field f) (\<lambda>_. True)"
  unfolding expect_field_def
  by (rule safe_bind [OF safe_read_u16_le]) (simp add: safe_intros)

lemma safe_expect_object_end [safe_intros]: "safe expect_object_end (\<lambda>_. True)"
  unfolding expect_object_end_def
  by (rule safe_bind [OF safe_read_u16_le]) (simp add: safe_intros)

lemma safe_read_optional [safe_intros]: "safe (read_optional f) (\<lambda>_. True)"
  by (rule safeI)
    (auto simp: read_optional_def peek_field_def dbind_def debug_assert_pos_def
      saturating_sub_def deser_ok_def split: if_splits)

lemma safe_read_bool [safe_intros]: "safe read_bool (\<lambda>_. True)"
  by (rule safeI) (auto simp: read_bool_def deser_ok_def split: if_splits)

lemma safe_read_nullable_present [safe_intros]: "safe read_nullable_present (\<lambda>_. True)"
  unfolding read_nullable_present_def by (rule safe_read_bool)

lemma safe_read_u64 [safe_intros]: "safe read_u64 (\<lambda>_. True)"
proof (rule safe_step)
  fix d
  assume "deser_ok d"
  then show "read_u64 d \<noteq> Panic"
    using decode_unsigned_total [of "drop (pos d) (buf d)"]
    by (cases "decode_unsigned (drop (pos d) (buf d))") (auto simp: read_u64_def deser_ok_def)
next
  fix d x d'
  assume "deser_ok d" and "read_u64 d = Ok (x, d')"
  then obtain n where "decode_unsigned (drop (pos d) (buf d)) = Ok (x, n)" "d' = d\<lparr>pos := pos d + n\<rparr>"
    by (auto simp: read_u64_def obind_eq_Ok_iff split: if_splits)
  with decode_unsigned_consumed [OF this(1)] \<open>deser_ok d\<close>
  show "\<exists>k \<le> length (buf d). pos d \<le> k \<and> d' = d\<lparr>pos := k\<rparr> \<and> True"
    by (intro exI [of _ "pos d + n"]) (auto simp: deser_ok_def)
qed

lemma safe_read_i64 [safe_intros]: "safe read_i64 (\<lambda>_. True)"
proof (rule safe_step)
  fix d
  assume "deser_ok d"
  then show "read_i64 d \<noteq> Panic"
    using decode_signed_total [of "drop (pos d) (buf d)"]
    by (cases "decode_signed (drop (pos d) (buf d))") (auto simp: read_i64_def deser_ok_def)
next
  fix d x d'
  assume "deser_ok d" and "read_i64 d = Ok (x, d')"
  then obtain n where "decode_signed (drop (pos d) (buf d)) = Ok (x, n)" "d' = d\<lparr>pos := pos d + n\<rparr>"
    by (auto simp: read_i64_def obind_eq_Ok_iff split: if_splits)
  with decode_signed_consumed [OF this(1)] \<open>deser_ok d\<close>
  show "\<exists>k \<le> length (buf d). pos d \<le> k \<and> d' = d\<lparr>pos := k\<rparr> \<and> True"
    by (intro exI [of _ "pos d + n"]) (auto simp: deser_ok_def)
qed

lemma safe_read_u8 [safe_intros]: "safe read_u8 (\<lambda>_. True)"
  unfolding read_u8_def by (rule safe_bind [OF safe_read_u64]) (simp add: safe_intros)

lemma safe_read_u16 [safe_intros]: "safe read_u16 (\<lambda>_. True)"
  unfolding read_u16_def by (rule safe_bind [OF safe_read_u64]) (simp add: safe_intros)

lemma safe_read_u32 [safe_intros]: "safe read_u32 (\<lambda>_. True)"
  unfolding read_u32_def by (rule safe_bind [OF safe_read_u64]) (simp add: safe_intros)

lemma safe_read_hugeint [safe_intros]: "safe read_hugeint (\<lambda>_. True)"
  unfolding read_hugeint_def
  by (rule safe_bind [OF safe_read_i64], rule safe_bind [OF safe_read_i64]) (simp add: safe_intros)

lemma safe_take_bytes [safe_intros]: "safe (take_bytes n) (\<lambda>bs. length bs = n)"
  unfolding take_bytes_def
  by (rule safe_bind [OF safe_debug_assert_pos])
    (auto simp: safe_def deser_ok_def saturating_sub_def)

lemma unat_u64_le [simp]: "unat (v :: u64) \<le> usize_MAX"
  using unsigned_less [of v, where ?'a = nat] by simp

lemma safe_read_data_ptr [safe_intros]: "safe read_data_ptr (\<lambda>bs. length bs \<le> usize_MAX)"
  unfolding read_data_ptr_def
  by (rule safe_bind [OF safe_read_u64], rule safe_weaken [OF safe_take_bytes]) simp

lemma safe_read_string [safe_intros]: "safe read_string rust_string"
  unfolding read_string_def
  by (rule safe_bind [OF safe_read_u64], rule safe_bind [OF safe_take_bytes])
    (simp add: safe_intros rust_string_def)

lemma safe_skip_string [safe_intros]: "safe skip_string (\<lambda>_. True)"
  unfolding skip_string_def
  by (rule safe_bind [OF safe_read_u64], rule safe_bind [OF safe_take_bytes]) (simp add: safe_intros)

lemma safe_read_bounded_count [safe_intros]: "safe read_bounded_count (\<lambda>n. n \<le> usize_MAX)"
  unfolding read_bounded_count_def
  by (rule safe_bind [OF safe_read_u64], rule safe_bind [OF safe_remaining]) (simp add: safe_intros)

lemma safe_decode_each:
  "(\<And>t. t \<in> set ts \<Longrightarrow> safe (f t) (Q t)) \<Longrightarrow> safe (decode_each f ts) (\<lambda>xs. list_all2 Q ts xs)"
proof (induction ts)
  case Nil
  show ?case by (simp add: safe_return)
next
  case (Cons t ts)
  from Cons.prems have "safe (f t) (Q t)" "safe (decode_each f ts) (\<lambda>xs. list_all2 Q ts xs)"
    by (auto intro: Cons.IH)
  then show ?case
    unfolding decode_each.simps
    by (elim safe_bind) (simp add: safe_return)
qed

lemma safe_decode_many:
  assumes "safe p Q"
  shows "safe (decode_many n p) (\<lambda>xs. length xs = n \<and> list_all Q xs)"
  unfolding decode_many_def
  by (rule safe_weaken [OF safe_decode_each [where Q = "\<lambda>_. Q"]])
    (use assms in \<open>auto simp: list_all2_conv_all_nth list_all_length\<close>)

section \<open>The interface between an encoder and its decoder\<close>

text \<open>
  An encoder appends to the serializer; its decoder accepts exactly what it appended, whatever bytes
  follow. The laws lift to the loops that write and read lists.
\<close>

locale wire_format =
  fixes enc :: "'a \<Rightarrow> binary_serializer \<Rightarrow> binary_serializer"
    and dec :: "'a decoder"
    and valid :: "'a \<Rightarrow> bool"
  assumes enc_appends: "out (enc x s) = out s @ out (enc x serializer_new)"
    and dec_enc: "valid x \<Longrightarrow> parses dec (out (enc x serializer_new) @ rest) x rest"
begin

text \<open>A value written as an object of its own.\<close>

lemma object_roundtrip:
  assumes "valid x"
  shows "parses (dbind dec (\<lambda>x. dbind expect_object_end (\<lambda>_. dreturn x)))
    (out (enc x serializer_new) @ object_end @ rest) x rest"
  by (rule parses_intros dec_enc assms)+

end

text \<open>
  A format that writes at least one byte per value can be listed: the count the decoder reads is never
  larger than the bytes that follow it, so \<open>read_bounded_count\<close> admits it.
\<close>

locale codec = wire_format +
  assumes enc_nonempty: "out (enc x serializer_new) \<noteq> []"
begin

lemma fold_appends:
  "out (fold enc xs s) = out s @ concat (map (\<lambda>x. out (enc x serializer_new)) xs)"
proof (induction xs arbitrary: s)
  case (Cons x xs)
  from Cons.IH [of "enc x s"] enc_appends [of x s] show ?case by simp
qed simp

lemma fold_length: "length xs \<le> length (concat (map (\<lambda>x. out (enc x serializer_new)) xs))"
  by (rule concat_length_ge) (simp add: enc_nonempty)

lemma many_roundtrip:
  assumes "list_all valid xs"
  shows "parses (decode_many (length xs) dec)
    (concat (map (\<lambda>x. out (enc x serializer_new)) xs) @ rest) xs rest"
  by (rule parses_decode_many) (use assms in \<open>simp add: list_all_iff dec_enc\<close>)

text \<open>A count followed by that many values, as \<open>begin_list\<close> and \<open>read_bounded_count\<close> frame it.\<close>

lemma counted_roundtrip:
  assumes "list_all valid xs" "length xs \<le> usize_MAX"
  shows "parses (dbind read_bounded_count (\<lambda>n. decode_many n dec))
    (encode_unsigned (of_nat (length xs)) [] @
     concat (map (\<lambda>x. out (enc x serializer_new)) xs) @ rest) xs rest"
proof (rule parses_bind)
  show "parses read_bounded_count (encode_unsigned (of_nat (length xs)) [] @
     concat (map (\<lambda>x. out (enc x serializer_new)) xs) @ rest) (length xs)
     (concat (map (\<lambda>x. out (enc x serializer_new)) xs) @ rest)"
    using assms(2) fold_length [of xs] by (intro parses_read_bounded_count) simp_all
qed (rule many_roundtrip [OF assms(1)])

end

interpretation string_codec: codec write_string read_string rust_string
  by unfold_locales (simp_all add: writes parses_string_bytes)

interpretation u64_codec: codec write_u64 read_u64 "\<lambda>_. True"
  by unfold_locales (simp_all add: writes parses_read_u64)

interpretation hugeint_codec: codec write_hugeint read_hugeint "\<lambda>_. True"
  by unfold_locales (simp_all add: writes parses_read_hugeint)

interpretation data_ptr_codec: codec write_data_ptr read_data_ptr "\<lambda>bs. length bs \<le> usize_MAX"
  by unfold_locales (simp_all add: writes parses_data_ptr_bytes)

section \<open>Properties\<close>

text \<open>
  a byte field accepts a ten-byte varint. The bits of the tenth byte above the 64th are dropped, so
  the bytes that spell \<open>2 ^ 64 + 10\<close> are read as the value 10 by \<open>read_u8\<close> instead of being refused
  with \<open>VarintOverflow\<close>.
\<close>

theorem read_u8_accepts_overlong:
  "read_u8 (deserializer_new ([0x8A, 0x80, 0x80, 0x80, 0x80, 0x80, 0x80, 0x80, 0x80, 0x02] @ rest)) =
     Ok (10, \<lparr>buf = [0x8A, 0x80, 0x80, 0x80, 0x80, 0x80, 0x80, 0x80, 0x80, 0x02] @ rest, pos = 10\<rparr>)"
  by (simp add: read_u8_def dbind_def read_u64_def decode_unsigned_def deserializer_new_def dreturn_def)

end
