(* ===== verification/Logical_Type.thy ===== *)
theory Logical_Type
  imports Codec
begin

text \<open>
  \<open>LogicalType\<close> and \<open>ExtraTypeInfo\<close> (\<open>crates/sqe-quack-wire/src/data_chunk.rs\<close>): the type
  discriminants, the parameterised types, their physical widths, and the depth-bounded decoder.

  The decoder recurses on \<open>remaining_depth\<close>, which Rust decrements with \<open>checked_sub\<close>; in the model it
  is a natural number and the recursion is structural. \<open>type_depth\<close> is the number of levels the decoder
  spends on a type.
\<close>

definition MAX_DECODE_DEPTH :: nat where
  "MAX_DECODE_DEPTH = 32"

section \<open>Discriminants\<close>

text \<open>The cast \<open>self.id as u8\<close> and its inverse.\<close>

fun logical_type_id_code :: "logical_type_id \<Rightarrow> u8" where
  "logical_type_id_code LInvalid = 0"
| "logical_type_id_code SqlNull = 1"
| "logical_type_id_code Boolean = 10"
| "logical_type_id_code TinyInt = 11"
| "logical_type_id_code SmallInt = 12"
| "logical_type_id_code Integer = 13"
| "logical_type_id_code BigInt = 14"
| "logical_type_id_code Date = 15"
| "logical_type_id_code Time = 16"
| "logical_type_id_code TimestampSec = 17"
| "logical_type_id_code TimestampMs = 18"
| "logical_type_id_code Timestamp = 19"
| "logical_type_id_code TimestampNs = 20"
| "logical_type_id_code Decimal = 21"
| "logical_type_id_code Float = 22"
| "logical_type_id_code Double = 23"
| "logical_type_id_code Char = 24"
| "logical_type_id_code Varchar = 25"
| "logical_type_id_code Blob = 26"
| "logical_type_id_code Interval = 27"
| "logical_type_id_code UTinyInt = 28"
| "logical_type_id_code USmallInt = 29"
| "logical_type_id_code UInteger = 30"
| "logical_type_id_code UBigInt = 31"
| "logical_type_id_code TimestampTz = 32"
| "logical_type_id_code TimestampTzNs = 33"
| "logical_type_id_code TimeTz = 34"
| "logical_type_id_code TimeNs = 35"
| "logical_type_id_code Bit = 36"
| "logical_type_id_code UHugeInt = 49"
| "logical_type_id_code HugeInt = 50"
| "logical_type_id_code Uuid = 54"
| "logical_type_id_code Struct = 100"
| "logical_type_id_code List = 101"
| "logical_type_id_code Map = 102"
| "logical_type_id_code Enum = 104"
| "logical_type_id_code Union = 107"
| "logical_type_id_code Array = 108"

definition logical_type_id_from_u8 :: "u8 \<Rightarrow> logical_type_id wire_result" where
  "logical_type_id_from_u8 value =
     (if value = 0 then Ok LInvalid
      else if value = 1 then Ok SqlNull
      else if value = 10 then Ok Boolean
      else if value = 11 then Ok TinyInt
      else if value = 12 then Ok SmallInt
      else if value = 13 then Ok Integer
      else if value = 14 then Ok BigInt
      else if value = 15 then Ok Date
      else if value = 16 then Ok Time
      else if value = 17 then Ok TimestampSec
      else if value = 18 then Ok TimestampMs
      else if value = 19 then Ok Timestamp
      else if value = 20 then Ok TimestampNs
      else if value = 21 then Ok Decimal
      else if value = 22 then Ok Float
      else if value = 23 then Ok Double
      else if value = 24 then Ok Char
      else if value = 25 then Ok Varchar
      else if value = 26 then Ok Blob
      else if value = 27 then Ok Interval
      else if value = 28 then Ok UTinyInt
      else if value = 29 then Ok USmallInt
      else if value = 30 then Ok UInteger
      else if value = 31 then Ok UBigInt
      else if value = 32 then Ok TimestampTz
      else if value = 33 then Ok TimestampTzNs
      else if value = 34 then Ok TimeTz
      else if value = 35 then Ok TimeNs
      else if value = 36 then Ok Bit
      else if value = 49 then Ok UHugeInt
      else if value = 50 then Ok HugeInt
      else if value = 54 then Ok Uuid
      else if value = 100 then Ok Struct
      else if value = 101 then Ok List
      else if value = 102 then Ok Map
      else if value = 104 then Ok Enum
      else if value = 107 then Ok Union
      else if value = 108 then Ok Array
      else Err (UnknownLogicalTypeId value))"

definition fixed_width :: "logical_type_id \<Rightarrow> usize option" where
  "fixed_width t =
     (if t \<in> {Boolean, TinyInt, UTinyInt} then Some 1
      else if t \<in> {SmallInt, USmallInt} then Some 2
      else if t \<in> {Integer, UInteger, Float, Date} then Some 4
      else if t \<in> {BigInt, UBigInt, Double, Time, TimeNs, TimeTz, Timestamp, TimestampSec,
                    TimestampMs, TimestampNs, TimestampTz, TimestampTzNs} then Some 8
      else if t \<in> {HugeInt, UHugeInt, Uuid, Interval} then Some 16
      else None)"

fun extra_type_info_type_code :: "extra_type_info_type \<Rightarrow> u8" where
  "extra_type_info_type_code EtInvalid = 0"
| "extra_type_info_type_code EtGeneric = 1"
| "extra_type_info_type_code EtDecimal = 2"
| "extra_type_info_type_code EtString = 3"
| "extra_type_info_type_code EtList = 4"
| "extra_type_info_type_code EtStruct = 5"
| "extra_type_info_type_code EtEnum = 6"
| "extra_type_info_type_code EtUnbound = 7"
| "extra_type_info_type_code EtAggregateState = 8"
| "extra_type_info_type_code EtArray = 9"
| "extra_type_info_type_code EtAny = 10"
| "extra_type_info_type_code EtIntegerLiteral = 11"
| "extra_type_info_type_code EtTemplate = 12"
| "extra_type_info_type_code EtGeo = 13"

definition extra_type_info_type_from_u8 :: "u8 \<Rightarrow> extra_type_info_type wire_result" where
  "extra_type_info_type_from_u8 value =
     (if value = 0 then Ok EtInvalid
      else if value = 1 then Ok EtGeneric
      else if value = 2 then Ok EtDecimal
      else if value = 3 then Ok EtString
      else if value = 4 then Ok EtList
      else if value = 5 then Ok EtStruct
      else if value = 6 then Ok EtEnum
      else if value = 7 then Ok EtUnbound
      else if value = 8 then Ok EtAggregateState
      else if value = 9 then Ok EtArray
      else if value = 10 then Ok EtAny
      else if value = 11 then Ok EtIntegerLiteral
      else if value = 12 then Ok EtTemplate
      else if value = 13 then Ok EtGeo
      else Err (UnknownExtraTypeInfoType value))"

section \<open>Types\<close>

datatype logical_type =
    LogicalType (type_id: logical_type_id) (type_extra: "extra_type_info option")
and extra_type_info =
    ExDecimal (precision: u8) (scale: u8)
  | ExList logical_type
  | ExStruct "(u8 list \<times> logical_type) list"
  | ExArray logical_type u32
  | ExEnum "u8 list list"

definition logical_type_new :: "logical_type_id \<Rightarrow> logical_type" where
  "logical_type_new tid = LogicalType tid None"

definition logical_type_with_extra :: "logical_type_id \<Rightarrow> extra_type_info \<Rightarrow> logical_type" where
  "logical_type_with_extra tid extra = LogicalType tid (Some extra)"

fun discriminant :: "extra_type_info \<Rightarrow> extra_type_info_type" where
  "discriminant (ExDecimal p s) = EtDecimal"
| "discriminant (ExList c) = EtList"
| "discriminant (ExStruct fs) = EtStruct"
| "discriminant (ExArray c n) = EtArray"
| "discriminant (ExEnum vs) = EtEnum"

definition enum_physical_width :: "usize \<Rightarrow> usize" where
  "enum_physical_width dict_size =
     (if dict_size \<le> 255 + 1 then 1
      else if dict_size \<le> 65535 + 1 then 2
      else 4)"

definition decimal_physical_width :: "u8 \<Rightarrow> usize" where
  "decimal_physical_width p = (if p \<le> 4 then 2 else if p \<le> 9 then 4 else if p \<le> 18 then 8 else 16)"

fun physical_width :: "logical_type \<Rightarrow> usize option" where
  "physical_width (LogicalType Decimal (Some (ExDecimal p s))) = Some (decimal_physical_width p)"
| "physical_width (LogicalType Enum (Some (ExEnum vs))) = Some (enum_physical_width (length vs))"
| "physical_width (LogicalType tid extra) = fixed_width tid"

section \<open>Encoding\<close>

definition extra_encode_base :: "extra_type_info \<Rightarrow> binary_serializer \<Rightarrow> binary_serializer" where
  "extra_encode_base info s =
     end_property (write_u8 (extra_type_info_type_code (discriminant info)) (begin_property 100 s))"

fun logical_type_encode :: "logical_type \<Rightarrow> binary_serializer \<Rightarrow> binary_serializer"
  and extra_encode_inner :: "extra_type_info \<Rightarrow> binary_serializer \<Rightarrow> binary_serializer" where
  "logical_type_encode (LogicalType tid extra) s =
     (let s = end_property (write_u8 (logical_type_id_code tid) (begin_property 100 s))
      in case extra of
           None \<Rightarrow> s
         | Some info \<Rightarrow>
             let s = begin_optional_property 101 True s;
                 s = begin_nullable True s;
                 s = begin_object s;
                 s = extra_encode_inner info s;
                 s = end_object s;
                 s = end_nullable True s
             in end_optional_property True s)"
| "extra_encode_inner (ExDecimal p sc) s =
     (let s = extra_encode_base (ExDecimal p sc) s;
          s = (if p \<noteq> 0 then end_property (write_u8 p (begin_property 200 s)) else s)
      in if sc \<noteq> 0 then end_property (write_u8 sc (begin_property 201 s)) else s)"
| "extra_encode_inner (ExList child) s =
     (let s = extra_encode_base (ExList child) s;
          s = begin_object (begin_property 200 s);
          s = logical_type_encode child s
      in end_property (end_object s))"
| "extra_encode_inner (ExStruct fs) s =
     (let s = extra_encode_base (ExStruct fs) s
      in if fs = [] then s
         else let s = begin_property 200 s;
                  s = begin_list (of_nat (length fs)) s;
                  s = fold (\<lambda>(name, ty) s.
                        let s = begin_object s;
                            s = end_property (write_string name (begin_property 0 s));
                            s = begin_property 1 s;
                            s = begin_object s;
                            s = logical_type_encode ty s;
                            s = end_object s;
                            s = end_property s
                        in end_object s) fs s
              in end_property (end_list s))"
| "extra_encode_inner (ExArray child n) s =
     (let s = extra_encode_base (ExArray child n) s;
          s = begin_object (begin_property 200 s);
          s = logical_type_encode child s;
          s = end_property (end_object s)
      in if n \<noteq> 0 then end_property (write_u32 n (begin_property 201 s)) else s)"
| "extra_encode_inner (ExEnum values) s =
     (let s = extra_encode_base (ExEnum values) s;
          s = end_property (write_u64 (of_nat (length values)) (begin_property 200 s));
          s = begin_property 201 s;
          s = begin_list (of_nat (length values)) s;
          s = fold write_string values s
      in end_property (end_list s))"

section \<open>Decoding\<close>

fun logical_type_decode_with_depth :: "nat \<Rightarrow> logical_type decoder"
  and extra_decode_inner_with_depth :: "nat \<Rightarrow> extra_type_info decoder" where
  "logical_type_decode_with_depth 0 = dfail (RecursionLimitExceeded MAX_DECODE_DEPTH)"
| "logical_type_decode_with_depth (Suc child_depth) =
     dbind (expect_field 100) (\<lambda>_.
     dbind read_u8 (\<lambda>tag.
     dbind (dlift (logical_type_id_from_u8 tag)) (\<lambda>tid.
     dbind (read_optional 101) (\<lambda>has_extra.
       if has_extra then
         dbind read_nullable_present (\<lambda>present.
           if \<not> present then dfail NullExtraTypeInfo
           else
             dbind (extra_decode_inner_with_depth child_depth) (\<lambda>extra.
             dbind expect_object_end (\<lambda>_.
             dreturn (LogicalType tid (Some extra)))))
       else dreturn (LogicalType tid None)))))"
| "extra_decode_inner_with_depth 0 = dfail (RecursionLimitExceeded MAX_DECODE_DEPTH)"
| "extra_decode_inner_with_depth (Suc child_depth) =
     dbind (expect_field 100) (\<lambda>_.
     dbind read_u8 (\<lambda>tag.
     dbind (dlift (extra_type_info_type_from_u8 tag)) (\<lambda>kind.
     dbind (read_optional 101) (\<lambda>has_alias.
     dbind (if has_alias then read_string else dreturn []) (\<lambda>_.
     dbind (read_optional 102) (\<lambda>has_modifiers.
     if has_modifiers then dfail (UnexpectedField 200 102) else
     dbind (read_optional 103) (\<lambda>has_extension.
     if has_extension then dfail UnsupportedExtensionTypeInfo else
     (case kind of
        EtDecimal \<Rightarrow>
          dbind (read_optional 200) (\<lambda>has_precision.
          dbind (if has_precision then read_u8 else dreturn 0) (\<lambda>p.
          dbind (read_optional 201) (\<lambda>has_scale.
          dbind (if has_scale then read_u8 else dreturn 0) (\<lambda>sc.
          dreturn (ExDecimal p sc)))))
      | EtList \<Rightarrow>
          dbind (expect_field 200) (\<lambda>_.
          dbind (logical_type_decode_with_depth child_depth) (\<lambda>child.
          dbind expect_object_end (\<lambda>_.
          dreturn (ExList child))))
      | EtStruct \<Rightarrow>
          dbind (read_optional 200) (\<lambda>has_fields.
          if has_fields then
            dbind read_bounded_count (\<lambda>count.
            dbind (decode_many count (
              dbind (expect_field 0) (\<lambda>_.
              dbind read_string (\<lambda>name.
              dbind (expect_field 1) (\<lambda>_.
              dbind (logical_type_decode_with_depth child_depth) (\<lambda>ty.
              dbind expect_object_end (\<lambda>_.
              dbind expect_object_end (\<lambda>_.
              dreturn (name, ty))))))))) (\<lambda>fs.
            dreturn (ExStruct fs)))
          else dreturn (ExStruct []))
      | EtArray \<Rightarrow>
          dbind (expect_field 200) (\<lambda>_.
          dbind (logical_type_decode_with_depth child_depth) (\<lambda>child.
          dbind expect_object_end (\<lambda>_.
          dbind (read_optional 201) (\<lambda>has_size.
          dbind (if has_size then read_u32 else dreturn 0) (\<lambda>n.
          dreturn (ExArray child n))))))
      | EtEnum \<Rightarrow>
          dbind (expect_field 200) (\<lambda>_.
          dbind read_u64 (\<lambda>count.
          dbind (expect_field 201) (\<lambda>_.
          dbind read_bounded_count (\<lambda>listed.
          if listed \<noteq> unat count
          then dfail (UnexpectedField (ucast count) (of_nat listed))
          else
            dbind (decode_many listed read_string) (\<lambda>values.
            dreturn (ExEnum values))))))
      | other \<Rightarrow> dfail (UnsupportedExtraTypeInfo other)))))))))"

definition logical_type_decode :: "logical_type decoder" where
  "logical_type_decode = logical_type_decode_with_depth MAX_DECODE_DEPTH"

definition extra_decode_inner :: "extra_type_info decoder" where
  "extra_decode_inner = extra_decode_inner_with_depth MAX_DECODE_DEPTH"

section \<open>Discriminants are a bijection onto their codes\<close>

lemma logical_type_id_from_code [simp]: "logical_type_id_from_u8 (logical_type_id_code t) = Ok t"
  by (cases t) (simp_all add: logical_type_id_from_u8_def)

lemma logical_type_id_code_from:
  "logical_type_id_from_u8 value = Ok t \<Longrightarrow> logical_type_id_code t = value"
  by (auto simp: logical_type_id_from_u8_def split: if_splits)

lemma logical_type_id_from_u8_total: "logical_type_id_from_u8 value \<noteq> Panic"
  by (simp add: logical_type_id_from_u8_def)

lemma extra_type_info_type_from_code [simp]:
  "extra_type_info_type_from_u8 (extra_type_info_type_code t) = Ok t"
  by (cases t) (simp_all add: extra_type_info_type_from_u8_def)

lemma extra_type_info_type_code_from:
  "extra_type_info_type_from_u8 value = Ok t \<Longrightarrow> extra_type_info_type_code t = value"
  by (auto simp: extra_type_info_type_from_u8_def split: if_splits)

lemma extra_type_info_type_from_u8_total: "extra_type_info_type_from_u8 value \<noteq> Panic"
  by (simp add: extra_type_info_type_from_u8_def)

section \<open>Physical widths\<close>

lemma decimal_physical_width_cases: "decimal_physical_width p \<in> {2, 4, 8, 16}"
  by (simp add: decimal_physical_width_def)

lemma enum_physical_width_indexes:
  assumes "i < n" "n \<le> 2 ^ 32"
  shows "i < 2 ^ (8 * enum_physical_width n)"
  using assms by (simp add: enum_physical_width_def)

lemma fixed_width_cases: "fixed_width t = Some w \<Longrightarrow> w \<in> {1, 2, 4, 8, 16}"
  by (auto simp: fixed_width_def split: if_splits)

lemma physical_width_cases: "physical_width t = Some w \<Longrightarrow> w \<in> {1, 2, 4, 8, 16}"
  by (cases t rule: physical_width.cases)
    (auto simp: enum_physical_width_def decimal_physical_width_def dest!: fixed_width_cases
      split: if_splits)

lemma physical_width_pos: "physical_width t = Some w \<Longrightarrow> 0 < w"
  by (drule physical_width_cases) auto

section \<open>The wire format of types\<close>

text \<open>The bytes of a type, as a specification the encoder is shown to produce.\<close>

fun type_bytes :: "logical_type \<Rightarrow> u8 list"
  and extra_bytes :: "extra_type_info \<Rightarrow> u8 list" where
  "type_bytes (LogicalType tid extra) =
     field 100 @ varint (ucast (logical_type_id_code tid)) @
     (case extra of None \<Rightarrow> [] | Some info \<Rightarrow> field 101 @ 1 # extra_bytes info @ object_end)"
| "extra_bytes (ExDecimal p sc) =
     field 100 @ varint (ucast (extra_type_info_type_code EtDecimal)) @
     (if p = 0 then [] else field 200 @ varint (ucast p)) @
     (if sc = 0 then [] else field 201 @ varint (ucast sc))"
| "extra_bytes (ExList child) =
     field 100 @ varint (ucast (extra_type_info_type_code EtList)) @
     field 200 @ type_bytes child @ object_end"
| "extra_bytes (ExStruct fs) =
     field 100 @ varint (ucast (extra_type_info_type_code EtStruct)) @
     (if fs = [] then []
      else field 200 @ varint (of_nat (length fs)) @
        concat (map (\<lambda>(name, ty). field 0 @ string_bytes name @ field 1 @ type_bytes ty @
          object_end @ object_end) fs))"
| "extra_bytes (ExArray child n) =
     field 100 @ varint (ucast (extra_type_info_type_code EtArray)) @
     field 200 @ type_bytes child @ object_end @
     (if n = 0 then [] else field 201 @ varint (ucast n))"
| "extra_bytes (ExEnum values) =
     field 100 @ varint (ucast (extra_type_info_type_code EtEnum)) @
     field 200 @ varint (of_nat (length values)) @
     field 201 @ varint (of_nat (length values)) @ concat (map string_bytes values)"

lemma fold_write_string: "out (fold write_string vs s) = out s @ concat (map string_bytes vs)"
  by (rule fold_writes) (simp add: writes string_bytes_def)

lemma type_encode_writes [writes]:
  "out (logical_type_encode t s) = out s @ type_bytes t"
  "out (extra_encode_inner e s) = out s @ extra_bytes e"
proof (induction t s and e s rule: logical_type_encode_extra_encode_inner.induct)
  case (4 fs s)
  then have "out (fold (\<lambda>(name, ty) s.
      let s = begin_object s; s = end_property (write_string name (begin_property 0 s));
          s = begin_property 1 s; s = begin_object s; s = logical_type_encode ty s;
          s = end_object s; s = end_property s in end_object s) fs s') =
      out s' @ concat (map (\<lambda>(name, ty). field 0 @ string_bytes name @ field 1 @ type_bytes ty @
          object_end @ object_end) fs)" if "fs \<noteq> []" for s'
    using that
    by (intro fold_writes) (auto simp: writes Let_def string_bytes_def split: prod.splits)
  then show ?case by (simp add: Let_def writes extra_encode_base_def)
qed (auto simp: Let_def writes extra_encode_base_def fold_write_string split: option.splits)

section \<open>Nesting depth and well-formed values\<close>

fun type_depth :: "logical_type \<Rightarrow> nat"
  and extra_depth :: "extra_type_info \<Rightarrow> nat" where
  "type_depth (LogicalType tid extra) =
     Suc (case extra of None \<Rightarrow> 0 | Some info \<Rightarrow> extra_depth info)"
| "extra_depth (ExDecimal p sc) = 1"
| "extra_depth (ExList child) = Suc (type_depth child)"
| "extra_depth (ExStruct fs) = Suc (foldr max (map (\<lambda>(name, ty). type_depth ty) fs) 0)"
| "extra_depth (ExArray child n) = Suc (type_depth child)"
| "extra_depth (ExEnum values) = 1"

text \<open>The values the Rust types can hold: names are strings and lengths are \<open>usize\<close>.\<close>

fun rust_type :: "logical_type \<Rightarrow> bool"
  and rust_extra :: "extra_type_info \<Rightarrow> bool" where
  "rust_type (LogicalType tid extra) = (case extra of None \<Rightarrow> True | Some info \<Rightarrow> rust_extra info)"
| "rust_extra (ExDecimal p sc) = True"
| "rust_extra (ExList child) = rust_type child"
| "rust_extra (ExStruct fs) =
     (length fs \<le> usize_MAX \<and> list_all (\<lambda>(name, ty). rust_string name \<and> rust_type ty) fs)"
| "rust_extra (ExArray child n) = rust_type child"
| "rust_extra (ExEnum values) = (length values \<le> usize_MAX \<and> list_all rust_string values)"

lemma foldr_max_le_iff: "foldr max ns (0::nat) \<le> m \<longleftrightarrow> (\<forall>n \<in> set ns. n \<le> m)"
  by (induction ns) auto

lemma struct_depth_le_iff:
  "extra_depth (ExStruct fs) \<le> Suc n \<longleftrightarrow> (\<forall>(name, ty) \<in> set fs. type_depth ty \<le> n)"
  by (auto simp: foldr_max_le_iff)

lemma type_depth_pos: "0 < type_depth t" "0 < extra_depth e"
  by (cases t; simp) (cases e; simp)

section \<open>Decoding accepts every encoded type within the depth limit\<close>

abbreviation field_bytes :: "u8 list \<times> logical_type \<Rightarrow> u8 list" where
  "field_bytes \<equiv> (\<lambda>(name, ty). field 0 @ string_bytes name @ field 1 @ type_bytes ty @
     object_end @ object_end)"

abbreviation field_decode :: "logical_type decoder \<Rightarrow> (u8 list \<times> logical_type) decoder" where
  "field_decode dec \<equiv>
     dbind (expect_field 0) (\<lambda>_. dbind read_string (\<lambda>name. dbind (expect_field 1) (\<lambda>_.
     dbind dec (\<lambda>ty. dbind expect_object_end (\<lambda>_. dbind expect_object_end (\<lambda>_.
     dreturn (name, ty)))))))"

lemma field_neqs:
  "MESSAGE_TERMINATOR_FIELD_ID \<noteq> 101" "MESSAGE_TERMINATOR_FIELD_ID \<noteq> 102"
  "MESSAGE_TERMINATOR_FIELD_ID \<noteq> 103" "MESSAGE_TERMINATOR_FIELD_ID \<noteq> 200"
  "MESSAGE_TERMINATOR_FIELD_ID \<noteq> 201"
  by (simp_all add: MESSAGE_TERMINATOR_FIELD_ID_def)

lemma parses_field:
  assumes "\<And>rest. parses dec (type_bytes (snd f) @ object_end @ rest) (snd f) (object_end @ rest)"
    and "rust_string (fst f)"
  shows "parses (field_decode dec) (field_bytes f @ rest) f rest"
  using assms(2) by (simp add: case_prod_unfold) (rule parses_intros assms(1) | simp)+

lemma parses_type:
  "rust_type t \<Longrightarrow> type_depth t \<le> n \<Longrightarrow>
   parses (logical_type_decode_with_depth n) (type_bytes t @ object_end @ rest) t (object_end @ rest)"
  "rust_extra e \<Longrightarrow> extra_depth e \<le> n \<Longrightarrow>
   parses (extra_decode_inner_with_depth n) (extra_bytes e @ object_end @ rest) e (object_end @ rest)"
proof (induction n arbitrary: t e rest)
  case 0
  { case 1 with type_depth_pos(1) [of t] show ?case by simp }
  { case 2 with type_depth_pos(2) [of e] show ?case by simp }
next
  case (Suc n)
  { case 1
    then show ?case
      by (cases t; cases "type_extra t")
        (simp, (rule parses_intros Suc.IH | simp add: field_neqs)+)+
  }
  { case 2
    note extra_type_info_type_code.simps [simp del]
    show ?case
    proof (cases e)
      case (ExDecimal p sc)
      then show ?thesis
        by (cases "p = 0"; cases "sc = 0")
          (simp, (rule parses_intros | simp add: field_neqs)+)+
    next
      case (ExList c)
      with 2 show ?thesis
        by simp (rule parses_intros Suc.IH | simp)+
    next
      case (ExStruct fs)
      with 2 have fs: "length fs \<le> usize_MAX" 
        "\<forall>f \<in> set fs. rust_string (fst f) \<and> rust_type (snd f) \<and> type_depth (snd f) \<le> n"
        by (simp_all add: list_all_iff struct_depth_le_iff case_prod_unfold del: extra_depth.simps)
      have "parses (field_decode (logical_type_decode_with_depth n)) (field_bytes f @ rest') f rest'"
        if "f \<in> set fs" for f rest'
        using that fs(2) by (intro parses_field Suc.IH(1)) simp_all
      note many = parses_decode_many [where g = field_bytes, OF this]
      have "length fs \<le> length (concat (map field_bytes fs))"
        by (rule concat_length_ge) auto
      with fs(1) ExStruct show ?thesis
        by (cases "fs = []") (simp, (rule parses_intros many | simp add: field_neqs)+)+
    next
      case (ExArray c k)
      with 2 show ?thesis
        by (cases "k = 0") (simp, (rule parses_intros Suc.IH | simp add: field_neqs)+)+
    next
      case (ExEnum vs)
      with 2 have "length vs \<le> usize_MAX" "\<forall>v \<in> set vs. rust_string v"
        "length vs \<le> length (concat (map string_bytes vs))"
        by (simp_all add: list_all_iff concat_length_ge)
      with ExEnum show ?thesis
        by simp (rule parses_intros parses_decode_many [where g = string_bytes] | simp)+
    qed
  }
qed


section \<open>Decoding refuses deeper types\<close>

lemma refuses_field:
  assumes "\<And>rest. refuses dec (type_bytes (snd f) @ object_end @ rest) err"
    and "rust_string (fst f)"
  shows "refuses (field_decode dec) (field_bytes f @ rest) err"
  using assms(2) by (simp add: case_prod_unfold)
    ((rule refuses_here, rule assms(1)) | (rule refuses_later, rule parses_intros) | simp)+

lemma refuses_type:
  "rust_type t \<Longrightarrow> n < type_depth t \<Longrightarrow>
   refuses (logical_type_decode_with_depth n) (type_bytes t @ object_end @ rest)
     (RecursionLimitExceeded MAX_DECODE_DEPTH)"
  "rust_extra e \<Longrightarrow> n < extra_depth e \<Longrightarrow>
   refuses (extra_decode_inner_with_depth n) (extra_bytes e @ object_end @ rest)
     (RecursionLimitExceeded MAX_DECODE_DEPTH)"
proof (induction n arbitrary: t e rest)
  case 0
  { case 1 show ?case by (simp add: refuses_fail) }
  { case 2 show ?case by (simp add: refuses_fail) }
next
  case (Suc n)
  { case 1
    then show ?case
      by (cases t; cases "type_extra t") (simp_all,
        ((rule refuses_here, rule Suc.IH) | (rule refuses_later, rule parses_intros) | simp)+)
  }
  { case 2
    note extra_type_info_type_code.simps [simp del]
    show ?case
    proof (cases e)
      case (ExStruct fs)
      with 2 have fs: "length fs \<le> usize_MAX" "\<forall>f \<in> set fs. rust_string (fst f) \<and> rust_type (snd f)"
        "\<not> list_all (\<lambda>f. type_depth (snd f) \<le> n) fs"
        by (simp_all add: list_all_iff struct_depth_le_iff case_prod_unfold not_le [symmetric]
            del: extra_depth.simps)
      have many: "refuses (decode_many (length fs) (field_decode (logical_type_decode_with_depth n)))
          (concat (map field_bytes fs) @ rest') (RecursionLimitExceeded MAX_DECODE_DEPTH)" for rest'
      proof (rule refuses_decode_many [where P = "\<lambda>f. type_depth (snd f) \<le> n", OF _ _ fs(3)])
        show "parses (field_decode (logical_type_decode_with_depth n)) (field_bytes f @ r) f r"
          if "f \<in> set fs" "type_depth (snd f) \<le> n" for f r
          using that fs(2) by (intro parses_field parses_type(1)) simp_all
        show "refuses (field_decode (logical_type_decode_with_depth n)) (field_bytes f @ r)
            (RecursionLimitExceeded MAX_DECODE_DEPTH)"
          if "f \<in> set fs" "\<not> type_depth (snd f) \<le> n" for f r
          using that fs(2) by (intro refuses_field Suc.IH(1)) simp_all
      qed
      have "length fs \<le> length (concat (map field_bytes fs))" "fs \<noteq> []"
        using fs(3) by (auto intro!: concat_length_ge)
      with fs(1) ExStruct show ?thesis
        by simp ((rule refuses_here, rule many) | (rule refuses_later, rule parses_intros)
          | simp add: field_neqs)+
    next
      case (ExList c)
      with 2 show ?thesis
        by simp ((rule refuses_here, rule Suc.IH) | (rule refuses_later, rule parses_intros) | simp)+
    next
      case (ExArray c k)
      with 2 show ?thesis
        by (cases "k = 0") (simp, ((rule refuses_here, rule Suc.IH)
          | (rule refuses_later, rule parses_intros) | simp)+)+
    qed (use 2 in simp_all)
  }
qed

section \<open>Decoding arbitrary bytes\<close>

lemma safe_logical_type_id_from_u8 [safe_intros]: "safe (dlift (logical_type_id_from_u8 v)) (\<lambda>_. True)"
  by (rule safe_lift) (simp_all add: logical_type_id_from_u8_total)

lemma safe_extra_type_info_type_from_u8 [safe_intros]:
  "safe (dlift (extra_type_info_type_from_u8 v)) (\<lambda>_. True)"
  by (rule safe_lift) (simp_all add: extra_type_info_type_from_u8_total)

lemma safe_field:
  assumes "safe dec (\<lambda>t. rust_type t \<and> type_depth t \<le> n)"
  shows "safe (field_decode dec)
    (\<lambda>f. rust_string (fst f) \<and> rust_type (snd f) \<and> type_depth (snd f) \<le> n)"
  by (rule safe_intros assms | simp)+

lemma safe_type:
  "safe (logical_type_decode_with_depth n) (\<lambda>t. rust_type t \<and> type_depth t \<le> n)"
  "safe (extra_decode_inner_with_depth n) (\<lambda>e. rust_extra e \<and> extra_depth e \<le> n)"
proof (induction n)
  case 0
  { case 1 show ?case by (simp add: safe_fail) }
  { case 2 show ?case by (simp add: safe_fail) }
next
  case (Suc n)
  { case 1
    show ?case
      unfolding logical_type_decode_with_depth.simps by (rule safe_intros Suc.IH | simp)+
  }
  { case 2
    note many = safe_decode_many [OF safe_field [OF Suc.IH(1)]]
    show ?case
      unfolding extra_decode_inner_with_depth.simps
      by (rule safe_intros Suc.IH many safe_decode_many
        | simp add: list_all_iff case_prod_unfold struct_depth_le_iff del: extra_depth.simps(3)
        | (split extra_type_info_type.split, intro conjI impI))+
  }
qed

section \<open>Properties\<close>

text \<open>
  C18: decoding an encoded logical type, followed by the terminator of its object and any further
  bytes, returns exactly that type and stops before the terminator when the type needs at most
  \<open>MAX_DECODE_DEPTH\<close> levels, and is refused with \<open>RecursionLimitExceeded\<close> otherwise. It holds for every
  value of the Rust type.
\<close>

theorem logical_type_roundtrip:
  assumes "rust_type t"
  shows "logical_type_decode (deserializer_new
      (into_bytes (end_object (logical_type_encode t (begin_object serializer_new))) @ rest)) =
    (if type_depth t \<le> MAX_DECODE_DEPTH
     then Ok (t, \<lparr>buf = into_bytes (end_object (logical_type_encode t (begin_object serializer_new))) @ rest,
                  pos = length (into_bytes (logical_type_encode t serializer_new))\<rparr>)
     else Err (RecursionLimitExceeded MAX_DECODE_DEPTH))"
proof (cases "type_depth t \<le> MAX_DECODE_DEPTH")
  case True
  from parses_new [OF parses_type(1) [OF assms True]] True show ?thesis
    by (simp add: logical_type_decode_def into_bytes_def writes)
next
  case False
  then have "MAX_DECODE_DEPTH < type_depth t" by simp
  from refuses_new [OF refuses_type(1) [OF assms this]] False show ?thesis
    by (simp add: logical_type_decode_def into_bytes_def writes)
qed

theorem logical_type_roundtrip_witness:
  "logical_type_decode (deserializer_new
      (into_bytes (end_object (logical_type_encode
         (LogicalType List (Some (ExList (LogicalType Decimal (Some (ExDecimal 18 0)))))) serializer_new)) @ [7])) =
    Ok (LogicalType List (Some (ExList (LogicalType Decimal (Some (ExDecimal 18 0))))),
      \<lparr>buf = into_bytes (end_object (logical_type_encode
         (LogicalType List (Some (ExList (LogicalType Decimal (Some (ExDecimal 18 0)))))) serializer_new)) @ [7],
       pos = length (into_bytes (logical_type_encode
         (LogicalType List (Some (ExList (LogicalType Decimal (Some (ExDecimal 18 0)))))) serializer_new))\<rparr>)"
  using logical_type_roundtrip
    [of "LogicalType List (Some (ExList (LogicalType Decimal (Some (ExDecimal 18 0)))))" "[7]"]
  by (simp add: MAX_DECODE_DEPTH_def begin_object_def)

text \<open>
  C19: on any bytes and from any position inside them, decoding a logical type does not panic, and what
  it returns is a well-formed value nested at most \<open>MAX_DECODE_DEPTH\<close> levels deep, with the position
  advanced inside the buffer: no input drives the recursion past the limit.
\<close>

theorem logical_type_decode_safe:
  assumes "pos d \<le> length (buf d)"
  shows "case logical_type_decode d of
      Ok (t, d') \<Rightarrow> rust_type t \<and> type_depth t \<le> MAX_DECODE_DEPTH \<and>
        buf d' = buf d \<and> pos d \<le> pos d' \<and> pos d' \<le> length (buf d)
    | Err e \<Rightarrow> True
    | Panic \<Rightarrow> False"
  using safe_type(1) [of MAX_DECODE_DEPTH] assms
  unfolding safe_def logical_type_decode_def deser_ok_def
  by (elim allE [of _ d]) (auto split: outcome.splits)

theorem logical_type_decode_safe_witness:
  "case logical_type_decode \<lparr>buf = [100, 0, 13, 0xFF, 0xFF], pos = 0\<rparr> of
      Ok (t, d') \<Rightarrow> t = LogicalType Integer None \<and> pos d' = 3
    | Err e \<Rightarrow> False
    | Panic \<Rightarrow> False"
  using logical_type_decode_safe [of "\<lparr>buf = [100, 0, 13, 0xFF, 0xFF], pos = 0\<rparr>"]
  by code_simp

end
