(* ===== verification/Vector_Codec.thy ===== *)
theory Vector_Codec
  imports Logical_Type
begin

text \<open>
  \<open>Vector\<close>, \<open>VectorData\<close> and \<open>DataChunk\<close> (\<open>crates/sqe-quack-wire/src/data_chunk.rs\<close>): the columnar
  payload of a result batch. The arms of the \<open>match\<close> in \<open>Vector::decode_with_depth\<close> are one definition
  each, over the decoder of the child vectors; \<open>vector_decode_with_depth\<close> ties the recursion on the
  remaining depth.

  \<open>backs\<close> is the contract of decoded vectors (every promised row is backed by decoded data) the Arrow
  bridge relies on; \<open>wire_vector\<close> describes the vectors the Arrow bridge hands to the encoder.
\<close>

section \<open>Vectors\<close>

datatype vector =
    Vector (vec_type: logical_type) (validity: "bool list option") (vec_data: vector_data)
and vector_data =
    Fixed "u8 list"
  | Strings "u8 list option list"
  | Blobs "u8 list option list"
  | VList (entries: "(u64 \<times> u64) list") (child_count: u64) (list_child: vector)
  | VStruct (children: "vector list")
  | VArray (array_size: u64) (array_child: vector)

definition vector_new_fixed :: "logical_type_id \<Rightarrow> u8 list \<Rightarrow> vector" where
  "vector_new_fixed tid data = Vector (logical_type_new tid) None (Fixed data)"

definition vector_new_strings :: "u8 list option list \<Rightarrow> vector" where
  "vector_new_strings vs =
     (let valid = (if list_ex (\<lambda>v. v = None) vs then Some (map (\<lambda>v. v \<noteq> None) vs) else None)
      in Vector (logical_type_new Varchar) valid (Strings vs))"

section \<open>Encoding\<close>

text \<open>
  The validity bit mask. The index \<open>i / 8\<close> is always inside the mask (\<open>mask_index\<close> below), so the
  indexing of the source does not panic.
\<close>

definition set_mask_bit :: "nat \<Rightarrow> u8 list \<Rightarrow> u8 list" where
  "set_mask_bit i mask_bytes =
     mask_bytes[i div 8 := mask_bytes ! (i div 8) OR push_bit (i mod 8) 1]"

definition validity_mask :: "usize \<Rightarrow> bool list \<Rightarrow> u8 list" where
  "validity_mask count valids =
     (let n_u64 = div_ceil count 64
      in fold (\<lambda>(i, valid) mask_bytes. if valid then set_mask_bit i mask_bytes else mask_bytes)
           (enumerate 0 (take count valids)) (replicate (n_u64 * 8) 0))"

definition unwrap_or_empty :: "u8 list option \<Rightarrow> u8 list" where
  "unwrap_or_empty entry = (case entry of None \<Rightarrow> [] | Some v \<Rightarrow> v)"

definition encode_entry :: "u64 \<times> u64 \<Rightarrow> binary_serializer \<Rightarrow> binary_serializer" where
  "encode_entry e s =
     (let s = begin_object s;
          s = end_property (write_u64 (fst e) (begin_property 100 s));
          s = end_property (write_u64 (snd e) (begin_property 101 s))
      in end_object s)"

definition encode_validity :: "usize \<Rightarrow> bool list option \<Rightarrow> binary_serializer \<Rightarrow> binary_serializer" where
  "encode_validity count valid s =
     (let s = end_property (write_bool (valid \<noteq> None) (begin_property 100 s))
      in case valid of
           None \<Rightarrow> s
         | Some valids \<Rightarrow>
             end_property (write_data_ptr (validity_mask count valids) (begin_property 101 s)))"

fun vector_encode :: "vector \<Rightarrow> usize \<Rightarrow> binary_serializer \<Rightarrow> binary_serializer" where
  "vector_encode (Vector ty valid data) count s =
     (let s = encode_validity count valid s
      in case data of
           Fixed bytes \<Rightarrow> end_property (write_data_ptr bytes (begin_property 102 s))
         | Strings strs \<Rightarrow>
             let s = begin_list (of_nat count) (begin_property 102 s);
                 s = fold (\<lambda>entry s. write_string (unwrap_or_empty entry) s) (take count strs) s
             in end_property (end_list s)
         | Blobs blobs \<Rightarrow>
             let s = begin_list (of_nat count) (begin_property 102 s);
                 s = fold (\<lambda>entry s. write_data_ptr (unwrap_or_empty entry) s) (take count blobs) s
             in end_property (end_list s)
         | VStruct cs \<Rightarrow>
             let s = begin_list (of_nat (length cs)) (begin_property 103 s);
                 s = fold (\<lambda>child s. end_object (vector_encode child count (begin_object s))) cs s
             in end_property (end_list s)
         | VArray n child \<Rightarrow>
             let s = end_property (write_u64 n (begin_property 103 s));
                 s = begin_object (begin_property 104 s);
                 s = vector_encode child ((unat n * count) mod 2 ^ 64) s
             in end_property (end_object s)
         | VList es n child \<Rightarrow>
             let s = end_property (write_u64 n (begin_property 104 s));
                 s = begin_list (of_nat count) (begin_property 105 s);
                 s = fold encode_entry (take count es) s;
                 s = end_property (end_list s);
                 s = begin_object (begin_property 106 s);
                 s = vector_encode child (unat n) s
             in end_property (end_object s))"

section \<open>Decoding\<close>

definition validity_bits :: "u8 list \<Rightarrow> usize \<Rightarrow> bool list" where
  "validity_bits raw count =
     map (\<lambda>i. let byte = (if i div 8 < length raw then raw ! (i div 8) else 0)
              in byte AND push_bit (i mod 8) 1 \<noteq> 0) [0..<count]"

definition decode_validity :: "usize \<Rightarrow> bool list option decoder" where
  "decode_validity count =
     dbind (expect_field 100) (\<lambda>_.
     dbind read_bool (\<lambda>has_validity.
     if has_validity then
       dbind (expect_field 101) (\<lambda>_.
       dbind read_data_ptr (\<lambda>raw.
         let capacity_bits = saturating_mul (length raw) 8
         in if capacity_bits < count
            then dfail (CountExceedsRemaining (of_nat count) (of_nat capacity_bits))
            else dreturn (Some (validity_bits raw count))))
     else dreturn None))"

definition decode_entry :: "u64 \<Rightarrow> (u64 \<times> u64) decoder" where
  "decode_entry n =
     dbind (expect_field 100) (\<lambda>_.
     dbind read_u64 (\<lambda>offset.
     dbind (expect_field 101) (\<lambda>_.
     dbind read_u64 (\<lambda>len.
     dbind expect_object_end (\<lambda>_.
       if unat offset + unat len > usize_MAX
       then dfail (CountExceedsRemaining (- 1) n)
       else if offset + len > n
       then dfail (CountExceedsRemaining (offset + len) n)
       else dreturn (offset, len))))))"

type_synonym vector_decoder = "logical_type \<Rightarrow> usize \<Rightarrow> vector decoder"

definition decode_list_arm :: "vector_decoder \<Rightarrow> logical_type \<Rightarrow> usize \<Rightarrow> vector_data decoder" where
  "decode_list_arm decode_child ty count =
     dbind (expect_field 104) (\<lambda>_.
     dbind read_u64 (\<lambda>n.
     dbind (expect_field 105) (\<lambda>_.
     dbind read_bounded_count (\<lambda>actual.
     dbind (decode_many actual (decode_entry n)) (\<lambda>es.
     if actual < count
     then dfail (CountExceedsRemaining (of_nat count) (of_nat actual))
     else
       dbind (expect_field 106) (\<lambda>_.
         case type_extra ty of
           Some (ExList child_logical) \<Rightarrow>
             dbind (decode_child child_logical (unat n)) (\<lambda>child_vec.
             dbind expect_object_end (\<lambda>_.
             dreturn (VList es n child_vec)))
         | _ \<Rightarrow> dfail (UnsupportedLogicalType (type_id ty))))))))"

definition decode_array_arm :: "vector_decoder \<Rightarrow> logical_type \<Rightarrow> usize \<Rightarrow> vector_data decoder" where
  "decode_array_arm decode_child ty count =
     dbind (expect_field 103) (\<lambda>_.
     dbind read_u64 (\<lambda>n.
     dbind (expect_field 104) (\<lambda>_.
       case type_extra ty of
         Some (ExArray child_logical _) \<Rightarrow>
           (case (if n \<le> 2147483647 then checked_mul (unat n) count else None) of
              None \<Rightarrow> dfail (CountExceedsRemaining n 2147483647)
            | Some child_rows \<Rightarrow>
                dbind (decode_child child_logical child_rows) (\<lambda>child_vec.
                dbind expect_object_end (\<lambda>_.
                dreturn (VArray n child_vec))))
       | _ \<Rightarrow> dfail (UnsupportedLogicalType Array))))"

definition decode_struct_arm :: "vector_decoder \<Rightarrow> logical_type \<Rightarrow> usize \<Rightarrow> vector_data decoder" where
  "decode_struct_arm decode_child ty count =
     dbind (expect_field 103) (\<lambda>_.
     dbind read_bounded_count (\<lambda>n.
       case type_extra ty of
         Some (ExStruct fs) \<Rightarrow>
           (let field_types = map snd fs
            in if n \<noteq> length field_types
               then dfail (UnexpectedField (of_nat (length field_types)) (of_nat n))
               else if field_types = [] then dfail (UnsupportedLogicalType (type_id ty))
               else
                 dbind (decode_each (\<lambda>ty.
                   dbind (decode_child ty count) (\<lambda>child.
                   dbind expect_object_end (\<lambda>_.
                   dreturn child))) field_types) (\<lambda>cs.
                 dreturn (VStruct cs)))
       | _ \<Rightarrow> dfail (UnsupportedLogicalType (type_id ty))))"

definition decode_fixed_arm :: "usize \<Rightarrow> usize \<Rightarrow> vector_data decoder" where
  "decode_fixed_arm width count =
     dbind (expect_field 102) (\<lambda>_.
     dbind read_data_ptr (\<lambda>bytes.
       case checked_mul count width of
         None \<Rightarrow> dfail (CountExceedsRemaining (of_nat count) (of_nat (length bytes)))
       | Some needed \<Rightarrow>
           if length bytes < needed
           then dfail (CountExceedsRemaining (of_nat needed) (of_nat (length bytes)))
           else dreturn (Fixed bytes)))"

definition ensure_decoded_rows :: "usize \<Rightarrow> usize \<Rightarrow> unit wire_result" where
  "ensure_decoded_rows decoded count =
     (if decoded < count then Err (CountExceedsRemaining (of_nat count) (of_nat decoded)) else Ok ())"

definition valid_at :: "bool list option \<Rightarrow> nat \<Rightarrow> bool" where
  "valid_at valid i =
     (case valid of None \<Rightarrow> True | Some v \<Rightarrow> if i < length v then v ! i else True)"

definition decode_varchar_arm :: "bool list option \<Rightarrow> usize \<Rightarrow> vector_data decoder" where
  "decode_varchar_arm valid count =
     dbind (expect_field 102) (\<lambda>_.
     dbind read_bounded_count (\<lambda>actual.
     dbind (decode_each (\<lambda>i.
       if valid_at valid i then dbind read_string (\<lambda>v. dreturn (Some v))
       else dbind skip_string (\<lambda>_. dreturn None)) [0..<actual]) (\<lambda>vs.
     dbind (dlift (ensure_decoded_rows actual count)) (\<lambda>_.
     dreturn (Strings vs)))))"

definition decode_blob_arm :: "bool list option \<Rightarrow> usize \<Rightarrow> vector_data decoder" where
  "decode_blob_arm valid count =
     dbind (expect_field 102) (\<lambda>_.
     dbind read_bounded_count (\<lambda>actual.
     dbind (decode_each (\<lambda>i.
       dbind read_data_ptr (\<lambda>bytes.
       dreturn (if valid_at valid i then Some bytes else None))) [0..<actual]) (\<lambda>vs.
     dbind (dlift (ensure_decoded_rows actual count)) (\<lambda>_.
     dreturn (Blobs vs)))))"

definition decode_vector_data ::
    "vector_decoder \<Rightarrow> logical_type \<Rightarrow> usize \<Rightarrow> bool list option \<Rightarrow> vector_data decoder" where
  "decode_vector_data decode_child ty count valid =
     (if type_id ty \<in> {List, Map} then decode_list_arm decode_child ty count
      else if type_id ty = Array then decode_array_arm decode_child ty count
      else if type_id ty \<in> {Struct, Union} then decode_struct_arm decode_child ty count
      else case physical_width ty of
             Some width \<Rightarrow> decode_fixed_arm width count
           | None \<Rightarrow>
               if type_id ty = Varchar then decode_varchar_arm valid count
               else if type_id ty = Blob then decode_blob_arm valid count
               else dfail (UnsupportedLogicalType (type_id ty)))"

primrec vector_decode_with_depth :: "nat \<Rightarrow> vector_decoder" where
  "vector_decode_with_depth 0 = (\<lambda>ty count. dfail (RecursionLimitExceeded MAX_DECODE_DEPTH))"
| "vector_decode_with_depth (Suc child_depth) = (\<lambda>ty count.
     dbind (read_optional 90) (\<lambda>has_vector_type.
     if has_vector_type
     then dbind read_u8 (\<lambda>raw. dfail (UnsupportedVectorType raw))
     else
       dbind (decode_validity count) (\<lambda>valid.
       dbind (decode_vector_data (vector_decode_with_depth child_depth) ty count valid) (\<lambda>data.
       dreturn (Vector ty valid data)))))"

definition vector_decode :: vector_decoder where
  "vector_decode = vector_decode_with_depth MAX_DECODE_DEPTH"

section \<open>DataChunk\<close>

record data_chunk =
  row_count :: u32
  columns :: "vector list"

definition data_chunk_encode :: "data_chunk \<Rightarrow> binary_serializer \<Rightarrow> binary_serializer" where
  "data_chunk_encode chunk s =
     (let s = end_property (write_u32 (row_count chunk) (begin_property 100 s));
          s = begin_list (of_nat (length (columns chunk))) (begin_property 101 s);
          s = fold (\<lambda>column s. end_object (logical_type_encode (vec_type column) (begin_object s)))
                (columns chunk) s;
          s = end_property (end_list s);
          s = begin_list (of_nat (length (columns chunk))) (begin_property 102 s);
          s = fold (\<lambda>column s. end_object (vector_encode column (unat (row_count chunk)) (begin_object s)))
                (columns chunk) s
      in end_property (end_list s))"

definition data_chunk_decode :: "data_chunk decoder" where
  "data_chunk_decode =
     dbind (expect_field 100) (\<lambda>_.
     dbind read_u32 (\<lambda>rows.
     dbind (expect_field 101) (\<lambda>_.
     dbind read_bounded_count (\<lambda>type_count.
     dbind (decode_many type_count
       (dbind logical_type_decode (\<lambda>t. dbind expect_object_end (\<lambda>_. dreturn t)))) (\<lambda>types.
     dbind (expect_field 102) (\<lambda>_.
     dbind read_bounded_count (\<lambda>column_count.
     if column_count \<noteq> type_count
     then dfail (UnexpectedField (of_nat type_count) (of_nat column_count))
     else
       dbind (decode_each (\<lambda>t.
         dbind (vector_decode t (unat rows)) (\<lambda>column.
         dbind expect_object_end (\<lambda>_.
         dreturn column))) types) (\<lambda>cols.
       dreturn \<lparr>row_count = rows, columns = cols\<rparr>))))))))"

section \<open>The validity mask\<close>

lemma mask_index: "i < count \<Longrightarrow> i div 8 < div_ceil count 64 * 8"
  using div_ceil_bounds(1) [of 64 count] by (simp add: less_mult_imp_div_less)

lemma length_set_mask_bit [simp]: "length (set_mask_bit i m) = length m"
  by (simp add: set_mask_bit_def)

lemma bit_set_mask_bit:
  assumes "i div 8 < length m" "j div 8 < length m"
  shows "bit (set_mask_bit i m ! (j div 8)) (j mod 8) \<longleftrightarrow> j = i \<or> bit (m ! (j div 8)) (j mod 8)"
proof (cases "j div 8 = i div 8")
  case True
  have "j mod 8 = i mod 8 \<longleftrightarrow> j = i"
    using True by (metis div_mult_mod_eq)
  with True assms show ?thesis
    by (auto simp: set_mask_bit_def bit_simps)
next
  case False
  with assms show ?thesis by (auto simp: set_mask_bit_def)
qed

abbreviation mark_valid :: "nat \<times> bool \<Rightarrow> u8 list \<Rightarrow> u8 list" where
  "mark_valid \<equiv> (\<lambda>(i, valid) m. if valid then set_mask_bit i m else m)"

lemma length_mark_valid [simp]: "length (fold mark_valid ivs m) = length m"
  by (induction ivs arbitrary: m) auto

lemma bit_mark_valid:
  assumes "\<And>i. i < k + length vs \<Longrightarrow> i div 8 < length m" "j div 8 < length m"
  shows "bit (fold mark_valid (enumerate k vs) m ! (j div 8)) (j mod 8) \<longleftrightarrow>
    (k \<le> j \<and> j < k + length vs \<and> vs ! (j - k)) \<or> bit (m ! (j div 8)) (j mod 8)"
  using assms
proof (induction vs arbitrary: k m)
  case (Cons v vs)
  let ?m = "if v then set_mask_bit k m else m"
  have k: "k div 8 < length m" using Cons.prems(1) [of k] by simp
  have "bit (fold mark_valid (enumerate (Suc k) vs) ?m ! (j div 8)) (j mod 8) \<longleftrightarrow>
    (Suc k \<le> j \<and> j < Suc k + length vs \<and> vs ! (j - Suc k)) \<or> bit (?m ! (j div 8)) (j mod 8)"
    by (rule Cons.IH) (use Cons.prems in auto)
  with bit_set_mask_bit [OF k Cons.prems(2)] show ?case
    by (auto simp: nth_Cons' Suc_le_eq)
qed auto

lemma length_validity_mask: "length (validity_mask count vs) = div_ceil count 64 * 8"
  by (simp add: validity_mask_def Let_def)

lemma validity_mask_covers: "count \<le> length (validity_mask count vs) * 8"
  using div_ceil_bounds(1) [of 64 count] by (simp add: length_validity_mask)

lemma validity_roundtrip:
  assumes "length vs = count"
  shows "validity_bits (validity_mask count vs) count = vs"
proof (rule nth_equalityI)
  fix j
  assume "j < length (validity_bits (validity_mask count vs) count)"
  then have j: "j < count" by (simp add: validity_bits_def)
  have "bit (validity_mask count vs ! (j div 8)) (j mod 8) = vs ! j"
    unfolding validity_mask_def Let_def
    using bit_mark_valid [of 0 vs "replicate (div_ceil count 64 * 8) 0" j] mask_index j assms by simp
  with j show "validity_bits (validity_mask count vs) count ! j = vs ! j"
    using mask_index [OF j]
    by (simp add: validity_bits_def Let_def length_validity_mask push_bit_eq_mult
        and_exp_eq_0_iff_not_bit)
qed (use assms in \<open>simp add: validity_bits_def\<close>)

section \<open>The wire format of vectors\<close>

definition entry_bytes :: "u64 \<times> u64 \<Rightarrow> u8 list" where
  "entry_bytes e = field 100 @ varint (fst e) @ field 101 @ varint (snd e) @ object_end"

definition validity_bytes :: "usize \<Rightarrow> bool list option \<Rightarrow> u8 list" where
  "validity_bytes count valid =
     field 100 @ (case valid of None \<Rightarrow> [0]
       | Some vs \<Rightarrow> 1 # field 101 @ string_bytes (validity_mask count vs))"

fun vector_bytes :: "usize \<Rightarrow> vector \<Rightarrow> u8 list" where
  "vector_bytes count (Vector ty valid data) =
     validity_bytes count valid @
     (case data of
        Fixed bytes \<Rightarrow> field 102 @ string_bytes bytes
      | Strings vs \<Rightarrow> field 102 @ varint (of_nat count) @
          concat (map (\<lambda>v. string_bytes (unwrap_or_empty v)) (take count vs))
      | Blobs vs \<Rightarrow> field 102 @ varint (of_nat count) @
          concat (map (\<lambda>v. string_bytes (unwrap_or_empty v)) (take count vs))
      | VStruct cs \<Rightarrow> field 103 @ varint (of_nat (length cs)) @
          concat (map (\<lambda>c. vector_bytes count c @ object_end) cs)
      | VArray n c \<Rightarrow> field 103 @ varint n @ field 104 @
          vector_bytes ((unat n * count) mod 2 ^ 64) c @ object_end
      | VList es n c \<Rightarrow> field 104 @ varint n @ field 105 @ varint (of_nat count) @
          concat (map entry_bytes (take count es)) @
          field 106 @ vector_bytes (unat n) c @ object_end)"

lemma encode_entry_writes [writes]: "out (encode_entry e s) = out s @ entry_bytes e"
  by (simp add: encode_entry_def entry_bytes_def writes)

lemma encode_validity_writes [writes]:
  "out (encode_validity count valid s) = out s @ validity_bytes count valid"
  by (cases valid) (simp_all add: encode_validity_def validity_bytes_def string_bytes_def writes)

lemma fold_write_values [writes]:
  "out (fold (\<lambda>v s. write_string (g v) s) vs s) = out s @ concat (map (\<lambda>v. string_bytes (g v)) vs)"
  "out (fold (\<lambda>v s. write_data_ptr (g v) s) vs s) = out s @ concat (map (\<lambda>v. string_bytes (g v)) vs)"
  by (rule fold_writes; simp add: writes string_bytes_def)+

lemma fold_encode_entry [writes]:
  "out (fold encode_entry es s) = out s @ concat (map entry_bytes es)"
  by (rule fold_writes) (simp add: writes)

lemma vector_encode_writes [writes]: "out (vector_encode v count s) = out s @ vector_bytes count v"
proof (induction v count s rule: vector_encode.induct)
  case (1 ty valid data count s)
  show ?case
  proof (cases data)
    case (VStruct cs)
    have "out (fold (\<lambda>child s. end_object (vector_encode child count (begin_object s))) cs s') =
        out s' @ concat (map (\<lambda>c. vector_bytes count c @ object_end) cs)" for s'
      using 1 VStruct by (intro fold_writes) (auto simp: writes)
    with VStruct show ?thesis by (simp add: Let_def writes)
  qed (use 1 in \<open>simp_all add: Let_def writes string_bytes_def\<close>)
qed

section \<open>What decoded vectors back, and which vectors are encoded\<close>

text \<open>A vector backs \<open>count\<close> rows: its data matches its type and every row addresses decoded data.\<close>

fun backs :: "usize \<Rightarrow> vector \<Rightarrow> bool" where
  "backs count (Vector ty valid data) =
     ((case valid of None \<Rightarrow> True | Some vs \<Rightarrow> length vs = count) \<and>
      (case data of
         Fixed bytes \<Rightarrow> (case physical_width ty of None \<Rightarrow> False | Some w \<Rightarrow> count * w \<le> length bytes)
       | Strings vs \<Rightarrow> type_id ty = Varchar \<and> count \<le> length vs
       | Blobs vs \<Rightarrow> type_id ty = Blob \<and> count \<le> length vs
       | VList es n c \<Rightarrow>
           type_id ty \<in> {List, Map} \<and> type_extra ty = Some (ExList (vec_type c)) \<and>
           count \<le> length es \<and> list_all (\<lambda>(offset, len). unat offset + unat len \<le> unat n) es \<and>
           backs (unat n) c
       | VStruct cs \<Rightarrow>
           type_id ty \<in> {Struct, Union} \<and> cs \<noteq> [] \<and>
           (case type_extra ty of
              Some (ExStruct fs) \<Rightarrow> map snd fs = map vec_type cs
            | _ \<Rightarrow> False) \<and>
           list_all (backs count) cs
       | VArray n c \<Rightarrow>
           type_id ty = Array \<and>
           (case type_extra ty of Some (ExArray t k) \<Rightarrow> t = vec_type c | _ \<Rightarrow> False) \<and>
           n \<le> 2147483647 \<and> backs (unat n * count) c))"

text \<open>The number of levels the vector decoder spends on a vector.\<close>

fun vector_depth :: "vector \<Rightarrow> nat" where
  "vector_depth (Vector ty valid data) =
     Suc (case data of
            VList es n c \<Rightarrow> vector_depth c
          | VStruct cs \<Rightarrow> foldr max (map vector_depth cs) 0
          | VArray n c \<Rightarrow> vector_depth c
          | _ \<Rightarrow> 0)"

text \<open>
  The vectors of exactly \<open>count\<close> rows the bridge builds: they back their rows, no buffer holds more
  rows than promised, nulls in variable-width data are the rows the validity marks, and lengths are
  \<open>usize\<close>.
\<close>

definition exact_rows :: "(u8 list \<Rightarrow> bool) \<Rightarrow> usize \<Rightarrow> bool list option \<Rightarrow> u8 list option list \<Rightarrow> bool" where
  "exact_rows ok count valid vs \<longleftrightarrow>
     length vs = count \<and> list_all (\<lambda>v. ok (unwrap_or_empty v)) vs \<and>
     map (\<lambda>v. v \<noteq> None) vs = (case valid of None \<Rightarrow> replicate count True | Some bits \<Rightarrow> bits)"

fun exact :: "usize \<Rightarrow> vector \<Rightarrow> bool" where
  "exact count (Vector ty valid data) =
     (count \<le> usize_MAX \<and>
      (case data of
         Fixed bytes \<Rightarrow> length bytes \<le> usize_MAX
       | Strings vs \<Rightarrow> exact_rows rust_string count valid vs
       | Blobs vs \<Rightarrow> exact_rows (\<lambda>v. length v \<le> usize_MAX) count valid vs
       | VList es n c \<Rightarrow> length es = count \<and> exact (unat n) c
       | VStruct cs \<Rightarrow> length cs \<le> usize_MAX \<and> list_all (exact count) cs
       | VArray n c \<Rightarrow> exact (unat n * count) c))"

definition wire_vector :: "usize \<Rightarrow> vector \<Rightarrow> bool" where
  "wire_vector count v \<longleftrightarrow> backs count v \<and> exact count v"

section \<open>Decoding accepts every encoded vector\<close>

lemma parses_skip_string_bytes [parses_intros]:
  "length v \<le> usize_MAX \<Longrightarrow> parses skip_string (string_bytes v @ rest) () rest"
  by (simp add: string_bytes_def parses_skip_string)

lemma validity_mask_fits: "count \<le> usize_MAX \<Longrightarrow> length (validity_mask count vs) * 8 \<le> usize_MAX + 64"
  using div_ceil_bounds(2) [of 64 count] by (simp add: length_validity_mask)

lemma parses_validity:
  assumes "count \<le> usize_MAX" "case valid of None \<Rightarrow> True | Some vs \<Rightarrow> length vs = count"
  shows "parses (decode_validity count) (validity_bytes count valid @ rest) valid rest"
proof (cases valid)
  case None
  then show ?thesis unfolding decode_validity_def validity_bytes_def
    by simp (rule parses_intros | simp)+
next
  case (Some vs)
  have "length (validity_mask count vs) \<le> usize_MAX" "count \<le> saturating_mul (length (validity_mask count vs)) 8"
    using validity_mask_fits [OF assms(1), of vs] validity_mask_covers [of count vs] assms(1)
    by (simp_all add: saturating_mul_def)
  with Some assms show ?thesis unfolding decode_validity_def validity_bytes_def
    by (simp add: Let_def) (rule parses_intros | simp add: validity_roundtrip)+
qed

lemma entry_bytes_nonempty [simp]: "entry_bytes e \<noteq> []"
  by (simp add: entry_bytes_def)

lemma parses_entry:
  assumes "unat (fst e) + unat (snd e) \<le> unat n"
  shows "parses (decode_entry n) (entry_bytes e @ rest) e rest"
proof -
  have "unat (fst e) + unat (snd e) \<le> usize_MAX"
    using assms unat_u64_le [of n] by (rule le_trans)
  moreover from this have "\<not> n < fst e + snd e"
    using assms by (simp add: word_less_nat_alt unat_word_ariths)
  ultimately show ?thesis
    unfolding decode_entry_def entry_bytes_def by simp (rule parses_intros | simp)+
qed

lemma parses_list_arm:
  assumes "type_extra ty = Some (ExList ct)" "length es = count" "count \<le> usize_MAX"
    and "list_all (\<lambda>(offset, len). unat offset + unat len \<le> unat n) es"
    and "\<And>rest. parses (dec ct (unat n)) (cb @ rest) c rest"
  shows "parses (decode_list_arm dec ty count)
    (field 104 @ varint n @ field 105 @ varint (of_nat count) @ concat (map entry_bytes es) @
     field 106 @ cb @ object_end @ rest) (VList es n c) rest"
proof -
  have many: "parses (decode_many (length es) (decode_entry n)) (concat (map entry_bytes es) @ r) es r" for r
    by (rule parses_decode_many, rule parses_entry)
      (use assms(4) in \<open>auto simp: list_all_iff\<close>)
  have "length es \<le> length (concat (map entry_bytes es))"
    by (rule concat_length_ge) simp
  with assms(1,3) assms(2) [symmetric] show ?thesis
    unfolding decode_list_arm_def by simp (rule parses_intros many assms(5) | simp)+
qed

lemma parses_array_arm:
  assumes "type_extra ty = Some (ExArray ct k)" "n \<le> 2147483647" "unat n * count \<le> usize_MAX"
    and "\<And>rest. parses (dec ct (unat n * count)) (cb @ rest) c rest"
  shows "parses (decode_array_arm dec ty count)
    (field 103 @ varint n @ field 104 @ cb @ object_end @ rest) (VArray n c) rest"
  using assms(1-3) unfolding decode_array_arm_def
  by simp (rule parses_intros assms(4) | simp add: checked_mul_def)+

lemma parses_struct_arm:
  assumes "type_extra ty = Some (ExStruct fs)" "map snd fs = map vec_type cs" "cs \<noteq> []"
    and "length cs \<le> usize_MAX" "\<And>c. c \<in> set cs \<Longrightarrow> g c \<noteq> []"
    and "\<And>c rest. c \<in> set cs \<Longrightarrow> parses (dec (vec_type c) count) (g c @ rest) c rest"
  shows "parses (decode_struct_arm dec ty count)
    (field 103 @ varint (of_nat (length cs)) @ concat (map (\<lambda>c. g c @ object_end) cs) @ rest)
    (VStruct cs) rest"
proof -
  let ?dec = "\<lambda>ty. dbind (dec ty count) (\<lambda>child. dbind expect_object_end (\<lambda>_. dreturn child))"
  let ?xbs = "map (\<lambda>c. (c, g c @ object_end)) cs"
  have fs: "length fs = length cs" "fs \<noteq> []" using assms(2,3) by (metis length_map, auto)
  have "parses (?dec (vec_type c)) ((g c @ object_end) @ r) c r" if "c \<in> set cs" for c r
    by simp (rule parses_intros assms(6) that)+
  then have "list_all2 (\<lambda>t (x, bs). \<forall>rest. parses (?dec t) (bs @ rest) x rest) (map snd fs) ?xbs"
    unfolding assms(2) by (auto simp: list_all2_conv_all_nth)
  note each = parses_decode_each [where f = ?dec, OF this, simplified comp_def map_map fst_conv snd_conv map_ident]
  have "length cs \<le> length (concat (map (\<lambda>c. g c @ object_end) cs))"
    by (rule concat_length_ge) (simp add: assms(5))
  with assms(1,3,4) fs show ?thesis
    unfolding decode_struct_arm_def
    by (simp add: Let_def) (rule parses_intros each | simp)+
qed

lemma parses_fixed_arm:
  assumes "count * width \<le> length bytes" "length bytes \<le> usize_MAX"
  shows "parses (decode_fixed_arm width count) (field 102 @ string_bytes bytes @ rest) (Fixed bytes) rest"
  using assms unfolding decode_fixed_arm_def
  by - (rule parses_intros | simp add: checked_mul_def)+

lemma exact_rows_valid_at:
  "exact_rows ok count valid vs \<Longrightarrow> i < count \<Longrightarrow> valid_at valid i \<longleftrightarrow> vs ! i \<noteq> None"
  unfolding exact_rows_def valid_at_def
  by (auto split: option.splits simp: list_eq_iff_nth_eq)

lemma parses_rows:
  assumes "exact_rows ok count valid vs"
    and "\<And>i v rest. ok v \<Longrightarrow> i < count \<Longrightarrow> valid_at valid i \<Longrightarrow>
      parses (dec i) (string_bytes v @ rest) (Some v) rest"
    and "\<And>i rest. i < count \<Longrightarrow> \<not> valid_at valid i \<Longrightarrow> parses (dec i) (string_bytes [] @ rest) None rest"
  shows "parses (decode_each dec [0..<count])
    (concat (map (\<lambda>v. string_bytes (unwrap_or_empty v)) vs) @ rest) vs rest"
proof -
  let ?xbs = "map (\<lambda>v. (v, string_bytes (unwrap_or_empty v))) vs"
  have "parses (dec i) (string_bytes (unwrap_or_empty (vs ! i)) @ r) (vs ! i) r" if "i < count" for i r
    using that assms exact_rows_valid_at [OF assms(1) that]
    by (cases "vs ! i") (auto simp: exact_rows_def unwrap_or_empty_def list_all_length split: option.splits)
  then have "list_all2 (\<lambda>i (x, bs). \<forall>rest. parses (dec i) (bs @ rest) x rest) [0..<count] ?xbs"
    using assms(1) by (auto simp: list_all2_conv_all_nth exact_rows_def)
  from parses_decode_each [OF this] show ?thesis by (simp add: comp_def)
qed

lemma length_rows:
  "length vs \<le> length (concat (map (\<lambda>v. string_bytes (unwrap_or_empty v)) vs))"
  by (rule concat_length_ge) simp

lemma parses_varchar_arm:
  assumes "exact_rows rust_string count valid vs" "count \<le> usize_MAX"
  shows "parses (decode_varchar_arm valid count)
    (field 102 @ varint (of_nat count) @
     concat (map (\<lambda>v. string_bytes (unwrap_or_empty v)) vs) @ rest) (Strings vs) rest"
proof -
  note rows = parses_rows [OF assms(1), where dec = "\<lambda>i.
    if valid_at valid i then dbind read_string (\<lambda>v. dreturn (Some v))
    else dbind skip_string (\<lambda>_. dreturn None)"]
  have "count \<le> length (concat (map (\<lambda>v. string_bytes (unwrap_or_empty v)) vs))"
    using length_rows [of vs] assms(1) by (simp add: exact_rows_def)
  with assms(2) show ?thesis unfolding decode_varchar_arm_def
    by - (rule parses_intros rows | simp add: ensure_decoded_rows_def)+
qed

lemma parses_blob_arm:
  assumes "exact_rows (\<lambda>v. length v \<le> usize_MAX) count valid vs" "count \<le> usize_MAX"
  shows "parses (decode_blob_arm valid count)
    (field 102 @ varint (of_nat count) @
     concat (map (\<lambda>v. string_bytes (unwrap_or_empty v)) vs) @ rest) (Blobs vs) rest"
proof -
  have rows: "parses (decode_each (\<lambda>i. dbind read_data_ptr (\<lambda>bytes.
        dreturn (if valid_at valid i then Some bytes else None))) [0..<count])
      (concat (map (\<lambda>v. string_bytes (unwrap_or_empty v)) vs) @ r) vs r" for r
    by (rule parses_rows [OF assms(1)])
      (simp_all, (rule parses_bind, rule parses_data_ptr_bytes, simp, simp add: parses_return)+)
  have "count \<le> length (concat (map (\<lambda>v. string_bytes (unwrap_or_empty v)) vs))"
    using length_rows [of vs] assms(1) by (simp add: exact_rows_def)
  with assms(2) show ?thesis unfolding decode_blob_arm_def
    by - (rule parses_intros rows | simp add: ensure_decoded_rows_def)+
qed

lemma vector_bytes_nonempty [simp]: "vector_bytes count v \<noteq> []"
  by (cases v) (simp add: validity_bytes_def)

lemma physical_width_id:
  "physical_width ty = Some w \<Longrightarrow> type_id ty \<notin> {List, Map, Array, Struct, Union, Varchar, Blob}"
  by (cases ty rule: physical_width.cases) (auto simp: fixed_width_def split: if_splits)

lemma physical_width_None:
  "type_id ty \<in> {Varchar, Blob} \<Longrightarrow> physical_width ty = None"
  by (cases ty rule: physical_width.cases) (auto simp: fixed_width_def)

lemma parses_vector_data:
  assumes "wire_vector count (Vector ty valid data)"
    and "\<And>c m rest. c \<in> set (case data of VList es n c \<Rightarrow> [c] | VStruct cs \<Rightarrow> cs | VArray n c \<Rightarrow> [c] | _ \<Rightarrow> [])
      \<Longrightarrow> wire_vector m c \<Longrightarrow> parses (dec (vec_type c) m) (vector_bytes m c @ rest) c rest"
  shows "parses (decode_vector_data dec ty count valid)
    (drop (length (validity_bytes count valid)) (vector_bytes count (Vector ty valid data)) @ rest) data rest"
proof (cases data)
  case (Fixed bytes)
  with assms(1) obtain w where "physical_width ty = Some w" "count * w \<le> length bytes" "length bytes \<le> usize_MAX"
    by (auto simp: wire_vector_def split: option.splits)
  with Fixed physical_width_id show ?thesis
    by (auto simp: decode_vector_data_def parses_fixed_arm)
next
  case (Strings vs)
  with assms(1) have "type_id ty = Varchar" "exact_rows rust_string count valid vs" "count \<le> usize_MAX"
    by (auto simp: wire_vector_def)
  moreover from this have "take count vs = vs" by (simp add: exact_rows_def)
  ultimately show ?thesis using Strings
    by (simp add: decode_vector_data_def physical_width_None parses_varchar_arm)
next
  case (Blobs vs)
  with assms(1) have "type_id ty = Blob" "exact_rows (\<lambda>v. length v \<le> usize_MAX) count valid vs" "count \<le> usize_MAX"
    by (auto simp: wire_vector_def)
  moreover from this have "take count vs = vs" by (simp add: exact_rows_def)
  ultimately show ?thesis using Blobs
    by (simp add: decode_vector_data_def physical_width_None parses_blob_arm)
next
  case (VList es n c)
  with assms have "type_id ty \<in> {List, Map}" "length es = count"
    "parses (decode_list_arm dec ty count)
      (field 104 @ varint n @ field 105 @ varint (of_nat count) @ concat (map entry_bytes es) @
       field 106 @ vector_bytes (unat n) c @ object_end @ rest) (VList es n c) rest"
    by (auto simp: wire_vector_def intro!: parses_list_arm)
  then show ?thesis using VList by (simp add: decode_vector_data_def)
next
  case (VStruct cs)
  with assms(1) obtain fs where *: "type_id ty \<in> {Struct, Union}" "type_extra ty = Some (ExStruct fs)"
      "map snd fs = map vec_type cs" "cs \<noteq> []" "length cs \<le> usize_MAX" "\<forall>c \<in> set cs. wire_vector count c"
    by (auto simp: wire_vector_def list_all_iff split: option.splits extra_type_info.splits)
  then have "parses (decode_struct_arm dec ty count)
      (field 103 @ varint (of_nat (length cs)) @ concat (map (\<lambda>c. vector_bytes count c @ object_end) cs) @ rest)
      (VStruct cs) rest"
    by (intro parses_struct_arm) (use VStruct assms(2) in auto)
  with *(1) VStruct show ?thesis by (auto simp: decode_vector_data_def)
next
  case (VArray n c)
  from VArray assms(1) obtain k where *: "type_id ty = Array" "type_extra ty = Some (ExArray (vec_type c) k)"
      "n \<le> 2147483647" "wire_vector (unat n * count) c" "unat n * count \<le> usize_MAX"
    by (cases c) (auto simp: wire_vector_def split: option.splits extra_type_info.splits)
  then have "parses (decode_array_arm dec ty count)
      (field 103 @ varint n @ field 104 @ vector_bytes (unat n * count) c @ object_end @ rest) (VArray n c) rest"
    by (intro parses_array_arm) (use VArray assms(2) in auto)
  with * VArray show ?thesis by (simp add: decode_vector_data_def)
qed

lemma parses_vector:
  assumes "wire_vector count v" "vector_depth v \<le> n"
  shows "parses (vector_decode_with_depth n (vec_type v) count) (vector_bytes count v @ rest) v rest"
  using assms
proof (induction n arbitrary: count v rest)
  case 0
  then show ?case by (cases v) simp
next
  case (Suc n)
  obtain ty valid data where v: "v = Vector ty valid data" by (cases v)
  let ?kids = "case data of VList es n c \<Rightarrow> [c] | VStruct cs \<Rightarrow> cs | VArray n c \<Rightarrow> [c] | _ \<Rightarrow> []"
  have depth: "vector_depth c \<le> n" if "c \<in> set ?kids" for c
    using that Suc.prems(2) v by (cases data) (auto simp: foldr_max_le_iff)
  have valid: "parses (decode_validity count) (validity_bytes count valid @ r) valid r" for r
    using Suc.prems(1) v by (intro parses_validity) (auto simp: wire_vector_def split: option.splits)
  have data: "parses (decode_vector_data (vector_decode_with_depth n) ty count valid)
      (drop (length (validity_bytes count valid)) (vector_bytes count v) @ rest) data rest"
    unfolding v by (rule parses_vector_data) (use Suc.prems(1) v depth Suc.IH in simp_all)
  have split: "vector_bytes count v = validity_bytes count valid @
      drop (length (validity_bytes count valid)) (vector_bytes count v)"
    by (simp add: v)
  have start: "parses (read_optional 90) (validity_bytes count valid @ r) False (validity_bytes count valid @ r)" for r
    by (simp add: validity_bytes_def parses_read_optional_absent)
  show ?case
    by (subst split) (simp add: v del: vector_bytes.simps, (rule parses_intros start valid data [unfolded v] | simp del: vector_bytes.simps)+)
qed

section \<open>Decoding arbitrary bytes\<close>

lemma safe_validity [safe_intros]:
  "safe (decode_validity count) (\<lambda>valid. case valid of None \<Rightarrow> True | Some vs \<Rightarrow> length vs = count)"
  unfolding decode_validity_def Let_def
  by (rule safe_intros | simp add: validity_bits_def)+

lemma safe_entry [safe_intros]:
  "safe (decode_entry n) (\<lambda>(offset, len). unat offset + unat len \<le> unat n)"
  unfolding decode_entry_def
  by (rule safe_intros | simp add: not_less word_le_nat_alt unat_word_ariths)+

definition backed :: "nat \<Rightarrow> logical_type \<Rightarrow> usize \<Rightarrow> vector \<Rightarrow> bool" where
  "backed k ty count v \<longleftrightarrow> vec_type v = ty \<and> backs count v \<and> vector_depth v \<le> k"

abbreviation validity_ok :: "usize \<Rightarrow> bool list option \<Rightarrow> bool" where
  "validity_ok count valid \<equiv> (case valid of None \<Rightarrow> True | Some vs \<Rightarrow> length vs = count)"

lemma safe_list_arm:
  assumes "\<And>t m. safe (dec t m) (backed k t m)"
    and "type_id ty \<in> {List, Map}" "validity_ok count valid"
  shows "safe (decode_list_arm dec ty count) (\<lambda>data. backed (Suc k) ty count (Vector ty valid data))"
  unfolding decode_list_arm_def
  by (rule safe_intros safe_decode_many assms(1)
    | (split option.split extra_type_info.split, intro conjI allI impI)
    | use assms(2,3) in \<open>simp add: backed_def split: option.splits\<close>)+

lemma safe_array_arm:
  assumes "\<And>t m. safe (dec t m) (backed k t m)"
    and "type_id ty = Array" "validity_ok count valid"
  shows "safe (decode_array_arm dec ty count) (\<lambda>data. backed (Suc k) ty count (Vector ty valid data))"
  unfolding decode_array_arm_def
  by (rule safe_intros safe_decode_many assms(1)
    | (split option.split extra_type_info.split, intro conjI allI impI)
    | use assms(2,3) in \<open>simp add: backed_def checked_mul_def split: option.splits if_splits\<close>)+

lemma safe_struct_arm:
  assumes "\<And>t m. safe (dec t m) (backed k t m)"
    and "type_id ty \<in> {Struct, Union}" "validity_ok count valid"
  shows "safe (decode_struct_arm dec ty count) (\<lambda>data. backed (Suc k) ty count (Vector ty valid data))"
proof -
  have each: "safe (decode_each (\<lambda>ty. dbind (dec ty count) (\<lambda>child.
      dbind expect_object_end (\<lambda>_. dreturn child))) ts) (\<lambda>cs. list_all2 (\<lambda>t. backed k t count) ts cs)" for ts
    by (rule safe_decode_each, (rule safe_intros assms(1) | simp)+)
  have "map vec_type cs = ts \<and> list_all (backs count) cs \<and> foldr max (map vector_depth cs) 0 \<le> k \<and> (ts \<noteq> [] \<longrightarrow> cs \<noteq> [])"
    if "list_all2 (\<lambda>t. backed k t count) ts cs" for ts cs
    using that by (induction rule: list_all2_induct) (auto simp: backed_def)
  then show ?thesis
    unfolding decode_struct_arm_def Let_def
    by - (rule safe_intros each
      | (split option.split extra_type_info.split, intro conjI allI impI)
      | use assms(2,3) in \<open>force simp add: backed_def split: option.splits\<close>)+
qed

lemma safe_fixed_arm:
  assumes "physical_width ty = Some w" "validity_ok count valid"
  shows "safe (decode_fixed_arm w count) (\<lambda>data. backed (Suc k) ty count (Vector ty valid data))"
  unfolding decode_fixed_arm_def
  by (rule safe_intros
    | (split option.split, intro conjI allI impI)
    | use assms in \<open>simp add: backed_def checked_mul_def split: option.splits if_splits\<close>)+

lemma safe_ensure_decoded_rows [safe_intros]:
  "safe (dlift (ensure_decoded_rows decoded count)) (\<lambda>_. count \<le> decoded)"
  by (rule safe_lift) (auto simp: ensure_decoded_rows_def split: if_splits)

lemma safe_each_length:
  "(\<And>i. safe (dec i) (\<lambda>_. True)) \<Longrightarrow> safe (decode_each dec [0..<m]) (\<lambda>vs. length vs = m)"
  by (rule safe_weaken [OF safe_decode_each [where Q = "\<lambda>_ _. True"]]) (auto dest: list_all2_lengthD)

lemma safe_varchar_arm:
  assumes "type_id ty = Varchar" "validity_ok count valid"
  shows "safe (decode_varchar_arm valid count) (\<lambda>data. backed (Suc k) ty count (Vector ty valid data))"
  unfolding decode_varchar_arm_def
  by (rule safe_intros safe_each_length TrueI | use assms in \<open>simp add: backed_def split: option.splits\<close>)+

lemma safe_blob_arm:
  assumes "type_id ty = Blob" "validity_ok count valid"
  shows "safe (decode_blob_arm valid count) (\<lambda>data. backed (Suc k) ty count (Vector ty valid data))"
  unfolding decode_blob_arm_def
  by (rule safe_intros safe_each_length TrueI | use assms in \<open>simp add: backed_def split: option.splits\<close>)+

lemma safe_vector_data:
  assumes "\<And>t m. safe (dec t m) (backed k t m)" "validity_ok count valid"
  shows "safe (decode_vector_data dec ty count valid)
    (\<lambda>data. backed (Suc k) ty count (Vector ty valid data))"
  unfolding decode_vector_data_def
  using assms by (auto intro!: safe_if safe_fail safe_list_arm safe_array_arm safe_struct_arm
      safe_fixed_arm safe_varchar_arm safe_blob_arm split: option.splits)

lemma safe_vector: "safe (vector_decode_with_depth n ty count) (backed n ty count)"
proof (induction n arbitrary: ty count)
  case 0
  show ?case by (simp add: safe_fail)
next
  case (Suc n)
  show ?case
    unfolding vector_decode_with_depth.simps
    by (rule safe_intros safe_vector_data Suc.IH | assumption)+
qed

section \<open>Data chunks\<close>

definition chunk_bytes :: "data_chunk \<Rightarrow> u8 list" where
  "chunk_bytes chunk =
     field 100 @ varint (ucast (row_count chunk)) @
     field 101 @ varint (of_nat (length (columns chunk))) @
     concat (map (\<lambda>c. type_bytes (vec_type c) @ object_end) (columns chunk)) @
     field 102 @ varint (of_nat (length (columns chunk))) @
     concat (map (\<lambda>c. vector_bytes (unat (row_count chunk)) c @ object_end) (columns chunk))"

definition wire_chunk :: "data_chunk \<Rightarrow> bool" where
  "wire_chunk chunk \<longleftrightarrow>
     length (columns chunk) \<le> usize_MAX \<and>
     list_all (\<lambda>c. rust_type (vec_type c) \<and> type_depth (vec_type c) \<le> MAX_DECODE_DEPTH \<and>
       wire_vector (unat (row_count chunk)) c) (columns chunk)"

lemma data_chunk_encode_writes [writes]: "out (data_chunk_encode chunk s) = out s @ chunk_bytes chunk"
proof -
  have "out (fold (\<lambda>column s. end_object (logical_type_encode (vec_type column) (begin_object s))) cs s') =
      out s' @ concat (map (\<lambda>c. type_bytes (vec_type c) @ object_end) cs)" for cs s'
    by (rule fold_writes) (simp add: writes)
  moreover have "out (fold (\<lambda>column s. end_object (vector_encode column n (begin_object s))) cs s') =
      out s' @ concat (map (\<lambda>c. vector_bytes n c @ object_end) cs)" for cs s' n
    by (rule fold_writes) (simp add: writes)
  ultimately show ?thesis
    by (simp add: data_chunk_encode_def chunk_bytes_def Let_def writes)
qed

text \<open>A vector never needs more levels than its type: the depth check of types covers vectors.\<close>

lemma vector_depth_le_type_depth: "backs count v \<Longrightarrow> vector_depth v \<le> type_depth (vec_type v)"
proof (induction count v rule: backs.induct)
  case (1 count ty valid data)
  obtain tid extra where ty: "ty = LogicalType tid extra" by (cases ty)
  show ?case
  proof (cases data)
    case (VList es n c)
    with 1 ty show ?thesis by auto
  next
    case (VStruct cs)
    with 1 ty obtain fs where "extra = Some (ExStruct fs)" "map snd fs = map vec_type cs" "list_all (backs count) cs"
      by (auto split: option.splits extra_type_info.splits)
    moreover have "vector_depth c \<le> type_depth (vec_type c)" if "c \<in> set cs" for c
      using 1 VStruct that by (auto simp: list_all_iff)
    then have "foldr max (map vector_depth cs) 0 \<le> foldr max (map type_depth (map vec_type cs)) 0"
      by (induction cs) (auto intro: max.coboundedI1 max.coboundedI2)
    ultimately show ?thesis using VStruct ty
      by (simp add: case_prod_unfold flip: map_map [of type_depth snd, unfolded comp_def])
  next
    case (VArray n c)
    with 1 ty show ?thesis by (auto split: option.splits extra_type_info.splits)
  qed (simp_all add: ty)
qed

lemma data_chunk_eta: "\<lparr>row_count = row_count chunk, columns = columns chunk\<rparr> = (chunk :: data_chunk)"
  by simp

lemma parses_chunk:
  assumes "wire_chunk chunk"
  shows "parses data_chunk_decode (chunk_bytes chunk @ rest) chunk rest"
proof -
  let ?cs = "columns chunk" and ?n = "unat (row_count chunk)"
  let ?vec = "\<lambda>t. dbind (vector_decode t ?n) (\<lambda>column. dbind expect_object_end (\<lambda>_. dreturn column))"
  let ?xbs = "map (\<lambda>c. (c, vector_bytes ?n c @ object_end)) ?cs"
  let ?ty = "dbind logical_type_decode (\<lambda>t. dbind expect_object_end (\<lambda>_. dreturn t))"
  have ok: "length ?cs \<le> usize_MAX" "\<forall>c \<in> set ?cs. rust_type (vec_type c) \<and>
      type_depth (vec_type c) \<le> MAX_DECODE_DEPTH \<and> wire_vector ?n c"
    using assms by (auto simp: wire_chunk_def list_all_iff)
  have "parses ?ty ((type_bytes t @ object_end) @ r) t r" if "t \<in> set (map vec_type ?cs)" for t r
    using ok that unfolding logical_type_decode_def by auto (rule parses_intros parses_type(1) | simp)+
  from parses_decode_many [where g = "\<lambda>t. type_bytes t @ object_end", OF this, of "map vec_type ?cs"]
  have types: "parses (decode_many (length ?cs) ?ty)
      (concat (map (\<lambda>c. type_bytes (vec_type c) @ object_end) ?cs) @ r) (map vec_type ?cs) r" for r
    by (simp add: comp_def)
  have "parses (?vec (vec_type c)) ((vector_bytes ?n c @ object_end) @ r) c r" if "c \<in> set ?cs" for c r
    using ok that vector_depth_le_type_depth [of ?n c]
    by (auto simp: vector_decode_def wire_vector_def intro!: parses_bind [OF parses_vector]
        parses_bind [OF parses_expect_object_end] parses_return)
  then have "list_all2 (\<lambda>t (x, bs). \<forall>rest. parses (?vec t) (bs @ rest) x rest) (map vec_type ?cs) ?xbs"
    by (auto simp: list_all2_conv_all_nth)
  note cols = parses_decode_each [where f = ?vec, OF this, simplified comp_def map_map fst_conv snd_conv map_ident]
  have "length ?cs \<le> length (concat (map (\<lambda>c. type_bytes (vec_type c) @ object_end) ?cs))"
    "length ?cs \<le> length (concat (map (\<lambda>c. vector_bytes ?n c @ object_end) ?cs))"
    by (rule concat_length_ge; simp)+
  with ok(1) show ?thesis
    unfolding data_chunk_decode_def chunk_bytes_def
    by simp (rule parses_intros types cols | simp add: data_chunk_eta parses_return)+
qed

definition chunk_backed :: "data_chunk \<Rightarrow> bool" where
  "chunk_backed chunk \<longleftrightarrow> list_all (\<lambda>c. rust_type (vec_type c) \<and>
     type_depth (vec_type c) \<le> MAX_DECODE_DEPTH \<and> backs (unat (row_count chunk)) c) (columns chunk)"

lemma safe_chunk [safe_intros]: "safe data_chunk_decode chunk_backed"
proof -
  have types: "safe (decode_many n (dbind logical_type_decode (\<lambda>t. dbind expect_object_end (\<lambda>_. dreturn t))))
      (\<lambda>ts. length ts = n \<and> list_all (\<lambda>t. rust_type t \<and> type_depth t \<le> MAX_DECODE_DEPTH) ts)" for n
    unfolding logical_type_decode_def
    by (rule safe_decode_many, (rule safe_intros safe_type(1) | simp)+)
  have cols: "safe (decode_each (\<lambda>t. dbind (vector_decode t n) (\<lambda>column.
      dbind expect_object_end (\<lambda>_. dreturn column))) ts)
      (\<lambda>cs. list_all2 (\<lambda>t. backed MAX_DECODE_DEPTH t n) ts cs)" for n ts
    unfolding vector_decode_def
    by (rule safe_decode_each, (rule safe_intros safe_vector | simp)+)
  have "list_all (\<lambda>c. rust_type (vec_type c) \<and> type_depth (vec_type c) \<le> MAX_DECODE_DEPTH \<and> backs n c) cs"
    if "list_all2 (\<lambda>t. backed MAX_DECODE_DEPTH t n) ts cs"
      "list_all (\<lambda>t. rust_type t \<and> type_depth t \<le> MAX_DECODE_DEPTH) ts" for n ts cs
    using that by (induction rule: list_all2_induct) (auto simp: backed_def)
  then show ?thesis
    unfolding data_chunk_decode_def
    by - (rule safe_intros types cols | simp add: chunk_backed_def)+
qed

section \<open>Properties\<close>

text \<open>
  C17: a data chunk whose columns hold exactly \<open>row_count\<close> rows of their type (fixed-width, VARCHAR and
  BLOB with nulls, LIST, MAP, STRUCT, UNION, ARRAY, nested within the depth limit) is decoded from its
  encoding unchanged, whatever bytes follow, and the decoder stops exactly at its end.
\<close>

theorem data_chunk_roundtrip:
  assumes "wire_chunk chunk"
  shows "data_chunk_decode (deserializer_new (into_bytes (data_chunk_encode chunk serializer_new) @ rest)) =
    Ok (chunk, \<lparr>buf = into_bytes (data_chunk_encode chunk serializer_new) @ rest,
                pos = length (into_bytes (data_chunk_encode chunk serializer_new))\<rparr>)"
  using parses_new [OF parses_chunk [OF assms, of rest]] by (simp add: into_bytes_def writes)

abbreviation example_chunk :: data_chunk where
  "example_chunk \<equiv> \<lparr>row_count = 2, columns =
     [Vector (LogicalType SmallInt None) None (Fixed [1, 0, 2, 0]),
      vector_new_strings [Some [104, 105], None],
      Vector (LogicalType List (Some (ExList (LogicalType Boolean None)))) (Some [True, False])
        (VList [(0, 3), (3, 0)] 3 (vector_new_fixed Boolean [1, 0, 1]))]\<rparr>"

theorem data_chunk_roundtrip_witness:
  "wire_chunk example_chunk \<and>
   data_chunk_decode (deserializer_new (into_bytes (data_chunk_encode example_chunk serializer_new) @ [9])) =
    Ok (example_chunk, \<lparr>buf = into_bytes (data_chunk_encode example_chunk serializer_new) @ [9],
                pos = length (into_bytes (data_chunk_encode example_chunk serializer_new))\<rparr>)"
proof (rule context_conjI)
  show "wire_chunk example_chunk"
    by (simp add: wire_chunk_def wire_vector_def exact_rows_def unwrap_or_empty_def vector_new_strings_def
        vector_new_fixed_def logical_type_new_def fixed_width_def MAX_DECODE_DEPTH_def rust_string_def)
qed (rule data_chunk_roundtrip)

text \<open>
  C16: on any bytes, decoding a data chunk does not panic, and every column of a chunk it returns backs
  all \<open>row_count\<close> rows with decoded data of its type: validity of that length, buffers of at least
  \<open>row_count\<close> values, list entries inside their child vector, children backed in turn.
\<close>

theorem data_chunk_decode_safe:
  "case data_chunk_decode (deserializer_new bytes) of
      Ok (chunk, d') \<Rightarrow> chunk_backed chunk \<and> pos d' \<le> length bytes
    | Err e \<Rightarrow> True
    | Panic \<Rightarrow> False"
proof -
  have "deser_ok (deserializer_new bytes)" by simp
  note * = safeD [OF safe_chunk this]
  show ?thesis
    using *(1) *(2) by (auto simp: deser_ok_def split: outcome.splits)
qed



end
