(* ===== verification/Message.thy ===== *)
theory Message
  imports Vector_Codec
begin

text \<open>
  The Quack RPC messages (\<open>crates/sqe-quack-wire/src/message.rs\<close>): the header, the nine bodies, and
  the envelope \<open>encode_message\<close>/\<open>decode_message\<close>. Every body encoder and decoder is shown to be a
  \<open>codec\<close>; the envelope's round trip and its safety on arbitrary bytes follow from them.
\<close>

section \<open>Data chunk wrappers\<close>

definition DATA_CHUNK_WRAPPER_FIELD :: u16 where
  "DATA_CHUNK_WRAPPER_FIELD = 300"

definition encode_data_chunk_wrapper :: "data_chunk \<Rightarrow> binary_serializer \<Rightarrow> binary_serializer" where
  "encode_data_chunk_wrapper chunk s =
     (let s = begin_object (begin_property DATA_CHUNK_WRAPPER_FIELD s);
          s = data_chunk_encode chunk s
      in end_property (end_object s))"

definition decode_data_chunk_wrapper :: "data_chunk decoder" where
  "decode_data_chunk_wrapper =
     dbind (expect_field DATA_CHUNK_WRAPPER_FIELD) (\<lambda>_.
     dbind data_chunk_decode (\<lambda>chunk.
     dbind expect_object_end (\<lambda>_.
     dreturn chunk)))"

text \<open>One element of a \<open>results\<close> list: the bodies of the loops of both response types.\<close>

definition encode_chunk_element :: "data_chunk \<Rightarrow> binary_serializer \<Rightarrow> binary_serializer" where
  "encode_chunk_element chunk s =
     (let s = begin_object (begin_nullable True s);
          s = encode_data_chunk_wrapper chunk s
      in end_nullable True (end_object s))"

definition decode_chunk_element :: "data_chunk decoder" where
  "decode_chunk_element =
     dbind read_nullable_present (\<lambda>present.
     if \<not> present then dfail NullDataChunkWrapper
     else
       dbind decode_data_chunk_wrapper (\<lambda>chunk.
       dbind expect_object_end (\<lambda>_.
       dreturn chunk)))"

section \<open>Message types and header\<close>

fun message_type_code :: "message_type \<Rightarrow> u8" where
  "message_type_code MtInvalid = 0"
| "message_type_code MtConnectionRequest = 1"
| "message_type_code MtConnectionResponse = 2"
| "message_type_code MtPrepareRequest = 3"
| "message_type_code MtPrepareResponse = 4"
| "message_type_code MtFetchRequest = 7"
| "message_type_code MtFetchResponse = 8"
| "message_type_code MtAppendRequest = 9"
| "message_type_code MtSuccessResponse = 10"
| "message_type_code MtDisconnectMessage = 11"
| "message_type_code MtErrorResponse = 100"

definition message_type_from_u8 :: "u8 \<Rightarrow> message_type wire_result" where
  "message_type_from_u8 value =
     (if value = 0 then Ok MtInvalid
      else if value = 1 then Ok MtConnectionRequest
      else if value = 2 then Ok MtConnectionResponse
      else if value = 3 then Ok MtPrepareRequest
      else if value = 4 then Ok MtPrepareResponse
      else if value = 7 then Ok MtFetchRequest
      else if value = 8 then Ok MtFetchResponse
      else if value = 9 then Ok MtAppendRequest
      else if value = 10 then Ok MtSuccessResponse
      else if value = 11 then Ok MtDisconnectMessage
      else if value = 100 then Ok MtErrorResponse
      else Err (UnknownMessageType value))"

definition HEADER_FIELD_TYPE :: u16 where
  "HEADER_FIELD_TYPE = 1"

definition HEADER_FIELD_CONNECTION_ID :: u16 where
  "HEADER_FIELD_CONNECTION_ID = 2"

definition HEADER_FIELD_CLIENT_QUERY_ID :: u16 where
  "HEADER_FIELD_CLIENT_QUERY_ID = 3"

definition OPTIONAL_IDX_INVALID :: u64 where
  "OPTIONAL_IDX_INVALID = - 1"

definition optional_idx_encode :: "u64 option \<Rightarrow> u64" where
  "optional_idx_encode idx = (case idx of None \<Rightarrow> OPTIONAL_IDX_INVALID | Some v \<Rightarrow> v)"

definition optional_idx_decode :: "u64 \<Rightarrow> u64 option" where
  "optional_idx_decode raw = (if raw = OPTIONAL_IDX_INVALID then None else Some raw)"

record message_header =
  msg_type :: message_type
  connection_id :: "u8 list"
  client_query_id :: "u64 option"

definition message_header_encode :: "message_header \<Rightarrow> binary_serializer \<Rightarrow> binary_serializer" where
  "message_header_encode h s =
     (let s = end_property (write_u8 (message_type_code (msg_type h)) (begin_property HEADER_FIELD_TYPE s));
          present = (connection_id h \<noteq> []);
          s = begin_optional_property HEADER_FIELD_CONNECTION_ID present s;
          s = (if present then write_string (connection_id h) s else s);
          s = end_optional_property present s
      in end_property (write_u64 (optional_idx_encode (client_query_id h))
           (begin_property HEADER_FIELD_CLIENT_QUERY_ID s)))"

definition message_header_decode :: "message_header decoder" where
  "message_header_decode =
     dbind (expect_field HEADER_FIELD_TYPE) (\<lambda>_.
     dbind read_u8 (\<lambda>type_tag.
     dbind (dlift (message_type_from_u8 type_tag)) (\<lambda>ty.
     dbind (read_optional HEADER_FIELD_CONNECTION_ID) (\<lambda>has_connection_id.
     dbind (if has_connection_id then read_string else dreturn []) (\<lambda>cid.
     dbind (expect_field HEADER_FIELD_CLIENT_QUERY_ID) (\<lambda>_.
     dbind read_u64 (\<lambda>raw.
     dreturn \<lparr>msg_type = ty, connection_id = cid, client_query_id = optional_idx_decode raw\<rparr>)))))))"

section \<open>Bodies\<close>

record connection_request =
  auth_string :: "u8 list"
  client_duckdb_version :: "u8 list"
  client_platform :: "u8 list"
  min_supported_quack_version :: u64
  max_supported_quack_version :: u64

definition connection_request_encode :: "connection_request \<Rightarrow> binary_serializer \<Rightarrow> binary_serializer" where
  "connection_request_encode b s =
     (let s = end_property (write_string (auth_string b) (begin_property 1 s));
          s = end_property (write_string (client_duckdb_version b) (begin_property 2 s));
          s = end_property (write_string (client_platform b) (begin_property 3 s));
          s = end_property (write_u64 (min_supported_quack_version b) (begin_property 4 s))
      in end_property (write_u64 (max_supported_quack_version b) (begin_property 5 s)))"

definition connection_request_decode :: "connection_request decoder" where
  "connection_request_decode =
     dbind (expect_field 1) (\<lambda>_. dbind read_string (\<lambda>auth.
     dbind (expect_field 2) (\<lambda>_. dbind read_string (\<lambda>version.
     dbind (expect_field 3) (\<lambda>_. dbind read_string (\<lambda>platform.
     dbind (expect_field 4) (\<lambda>_. dbind read_u64 (\<lambda>minv.
     dbind (expect_field 5) (\<lambda>_. dbind read_u64 (\<lambda>maxv.
     dreturn \<lparr>auth_string = auth, client_duckdb_version = version, client_platform = platform,
       min_supported_quack_version = minv, max_supported_quack_version = maxv\<rparr>))))))))))"

record connection_response =
  server_duckdb_version :: "u8 list"
  server_platform :: "u8 list"
  quack_version :: u64

definition connection_response_encode :: "connection_response \<Rightarrow> binary_serializer \<Rightarrow> binary_serializer" where
  "connection_response_encode b s =
     (let s = end_property (write_string (server_duckdb_version b) (begin_property 1 s));
          s = end_property (write_string (server_platform b) (begin_property 2 s))
      in end_property (write_u64 (quack_version b) (begin_property 3 s)))"

definition connection_response_decode :: "connection_response decoder" where
  "connection_response_decode =
     dbind (expect_field 1) (\<lambda>_. dbind read_string (\<lambda>version.
     dbind (expect_field 2) (\<lambda>_. dbind read_string (\<lambda>platform.
     dbind (expect_field 3) (\<lambda>_. dbind read_u64 (\<lambda>quack.
     dreturn \<lparr>server_duckdb_version = version, server_platform = platform, quack_version = quack\<rparr>))))))"

record prepare_request =
  sql_query :: "u8 list"

definition prepare_request_encode :: "prepare_request \<Rightarrow> binary_serializer \<Rightarrow> binary_serializer" where
  "prepare_request_encode b s = end_property (write_string (sql_query b) (begin_property 1 s))"

definition prepare_request_decode :: "prepare_request decoder" where
  "prepare_request_decode =
     dbind (expect_field 1) (\<lambda>_. dbind read_string (\<lambda>sql. dreturn \<lparr>sql_query = sql\<rparr>))"

record fetch_request =
  fetch_uuid :: i128

definition fetch_request_encode :: "fetch_request \<Rightarrow> binary_serializer \<Rightarrow> binary_serializer" where
  "fetch_request_encode b s = end_property (write_hugeint (fetch_uuid b) (begin_property 1 s))"

definition fetch_request_decode :: "fetch_request decoder" where
  "fetch_request_decode =
     dbind (expect_field 1) (\<lambda>_. dbind read_hugeint (\<lambda>uuid. dreturn \<lparr>fetch_uuid = uuid\<rparr>))"

record error_response =
  error_message :: "u8 list"

definition error_response_encode :: "error_response \<Rightarrow> binary_serializer \<Rightarrow> binary_serializer" where
  "error_response_encode b s = end_property (write_string (error_message b) (begin_property 1 s))"

definition error_response_decode :: "error_response decoder" where
  "error_response_decode =
     dbind (expect_field 1) (\<lambda>_. dbind read_string (\<lambda>msg. dreturn \<lparr>error_message = msg\<rparr>))"

text \<open>\<open>SuccessResponse\<close> and \<open>DisconnectMessage\<close> have an empty body.\<close>

definition success_response_encode :: "binary_serializer \<Rightarrow> binary_serializer" where
  "success_response_encode s = s"

definition success_response_decode :: "unit decoder" where
  "success_response_decode = dreturn ()"

definition disconnect_message_encode :: "binary_serializer \<Rightarrow> binary_serializer" where
  "disconnect_message_encode s = s"

definition disconnect_message_decode :: "unit decoder" where
  "disconnect_message_decode = dreturn ()"

record prepare_response =
  result_types :: "logical_type list"
  result_names :: "u8 list list"
  needs_more_fetch :: bool
  prepare_results :: "data_chunk list"
  result_uuid :: i128

definition prepare_response_encode :: "prepare_response \<Rightarrow> binary_serializer \<Rightarrow> binary_serializer" where
  "prepare_response_encode b s =
     (let s = begin_list (of_nat (length (result_types b))) (begin_property 1 s);
          s = fold (\<lambda>t s. end_object (logical_type_encode t (begin_object s))) (result_types b) s;
          s = end_property (end_list s);
          s = begin_list (of_nat (length (result_names b))) (begin_property 2 s);
          s = fold write_string (result_names b) s;
          s = end_property (end_list s);
          fetch_present = needs_more_fetch b;
          s = begin_optional_property 3 fetch_present s;
          s = (if fetch_present then write_bool (needs_more_fetch b) s else s);
          s = end_optional_property fetch_present s;
          results_present = (prepare_results b \<noteq> []);
          s = begin_optional_property 4 results_present s;
          s = (if results_present then
                 end_list (fold encode_chunk_element (prepare_results b)
                   (begin_list (of_nat (length (prepare_results b))) s))
               else s);
          s = end_optional_property results_present s
      in end_property (write_hugeint (result_uuid b) (begin_property 5 s)))"

definition prepare_response_decode :: "prepare_response decoder" where
  "prepare_response_decode =
     dbind (expect_field 1) (\<lambda>_.
     dbind read_bounded_count (\<lambda>type_count.
     dbind (decode_many type_count
       (dbind logical_type_decode (\<lambda>t. dbind expect_object_end (\<lambda>_. dreturn t)))) (\<lambda>types.
     dbind (expect_field 2) (\<lambda>_.
     dbind read_bounded_count (\<lambda>name_count.
     dbind (decode_many name_count read_string) (\<lambda>names.
     dbind (read_optional 3) (\<lambda>has_fetch.
     dbind (if has_fetch then read_bool else dreturn False) (\<lambda>fetch.
     dbind (read_optional 4) (\<lambda>has_results.
     dbind (if has_results
            then dbind read_bounded_count (\<lambda>results_count. decode_many results_count decode_chunk_element)
            else dreturn []) (\<lambda>results.
     dbind (expect_field 5) (\<lambda>_.
     dbind read_hugeint (\<lambda>uuid.
     dreturn \<lparr>result_types = types, result_names = names, needs_more_fetch = fetch,
       prepare_results = results, result_uuid = uuid\<rparr>))))))))))))"

record fetch_response =
  fetch_results :: "data_chunk list"
  batch_index :: "u64 option"

definition fetch_response_encode :: "fetch_response \<Rightarrow> binary_serializer \<Rightarrow> binary_serializer" where
  "fetch_response_encode b s =
     (let results_present = (fetch_results b \<noteq> []);
          s = begin_optional_property 1 results_present s;
          s = (if results_present then
                 end_list (fold encode_chunk_element (fetch_results b)
                   (begin_list (of_nat (length (fetch_results b))) s))
               else s);
          s = end_optional_property results_present s
      in end_property (write_u64 (optional_idx_encode (batch_index b)) (begin_property 2 s)))"

definition fetch_response_decode :: "fetch_response decoder" where
  "fetch_response_decode =
     dbind (read_optional 1) (\<lambda>has_results.
     dbind (if has_results
            then dbind read_bounded_count (\<lambda>count. decode_many count decode_chunk_element)
            else dreturn []) (\<lambda>results.
     dbind (expect_field 2) (\<lambda>_.
     dbind read_u64 (\<lambda>raw.
     dreturn \<lparr>fetch_results = results, batch_index = optional_idx_decode raw\<rparr>))))"

section \<open>The envelope\<close>

datatype quack_message =
    ConnectionRequest connection_request
  | ConnectionResponse connection_response
  | PrepareRequest prepare_request
  | PrepareResponse prepare_response
  | FetchRequest fetch_request
  | FetchResponse fetch_response
  | SuccessResponse
  | DisconnectMessage
  | ErrorResponse error_response

fun message_type_of :: "quack_message \<Rightarrow> message_type" where
  "message_type_of (ConnectionRequest _) = MtConnectionRequest"
| "message_type_of (ConnectionResponse _) = MtConnectionResponse"
| "message_type_of (PrepareRequest _) = MtPrepareRequest"
| "message_type_of (PrepareResponse _) = MtPrepareResponse"
| "message_type_of (FetchRequest _) = MtFetchRequest"
| "message_type_of (FetchResponse _) = MtFetchResponse"
| "message_type_of SuccessResponse = MtSuccessResponse"
| "message_type_of DisconnectMessage = MtDisconnectMessage"
| "message_type_of (ErrorResponse _) = MtErrorResponse"

fun body_encode :: "quack_message \<Rightarrow> binary_serializer \<Rightarrow> binary_serializer" where
  "body_encode (ConnectionRequest b) = connection_request_encode b"
| "body_encode (ConnectionResponse b) = connection_response_encode b"
| "body_encode (PrepareRequest b) = prepare_request_encode b"
| "body_encode (PrepareResponse b) = prepare_response_encode b"
| "body_encode (FetchRequest b) = fetch_request_encode b"
| "body_encode (FetchResponse b) = fetch_response_encode b"
| "body_encode SuccessResponse = success_response_encode"
| "body_encode DisconnectMessage = disconnect_message_encode"
| "body_encode (ErrorResponse b) = error_response_encode b"

definition encode_message :: "message_header \<Rightarrow> quack_message \<Rightarrow> u8 list" where
  "encode_message header body =
     (let s = begin_object serializer_new;
          s = message_header_encode header s;
          s = end_object s;
          s = begin_object s;
          s = body_encode body s;
          s = end_object s
      in into_bytes s)"

fun body_decode :: "message_type \<Rightarrow> quack_message decoder" where
  "body_decode MtConnectionRequest = dbind connection_request_decode (\<lambda>b. dreturn (ConnectionRequest b))"
| "body_decode MtConnectionResponse = dbind connection_response_decode (\<lambda>b. dreturn (ConnectionResponse b))"
| "body_decode MtPrepareRequest = dbind prepare_request_decode (\<lambda>b. dreturn (PrepareRequest b))"
| "body_decode MtPrepareResponse = dbind prepare_response_decode (\<lambda>b. dreturn (PrepareResponse b))"
| "body_decode MtFetchRequest = dbind fetch_request_decode (\<lambda>b. dreturn (FetchRequest b))"
| "body_decode MtFetchResponse = dbind fetch_response_decode (\<lambda>b. dreturn (FetchResponse b))"
| "body_decode MtAppendRequest = dfail (UnknownMessageType 9)"
| "body_decode MtSuccessResponse = dbind success_response_decode (\<lambda>_. dreturn SuccessResponse)"
| "body_decode MtDisconnectMessage = dbind disconnect_message_decode (\<lambda>_. dreturn DisconnectMessage)"
| "body_decode MtErrorResponse = dbind error_response_decode (\<lambda>b. dreturn (ErrorResponse b))"
| "body_decode other = dfail (UnsupportedMessageType other)"

definition envelope_decode :: "(message_header \<times> quack_message) decoder" where
  "envelope_decode =
     dbind message_header_decode (\<lambda>header.
     dbind expect_object_end (\<lambda>_.
     dbind (body_decode (msg_type header)) (\<lambda>body.
     dbind expect_object_end (\<lambda>_.
     dreturn (header, body)))))"

definition decode_message :: "u8 list \<Rightarrow> (message_header \<times> quack_message) wire_result" where
  "decode_message bytes = obind (envelope_decode (deserializer_new bytes)) (\<lambda>(r, d). Ok r)"

section \<open>The formats\<close>

lemma message_type_from_code [simp]: "message_type_from_u8 (message_type_code t) = Ok t"
  by (cases t) (simp_all add: message_type_from_u8_def)

lemma message_type_code_from: "message_type_from_u8 value = Ok t \<Longrightarrow> message_type_code t = value"
  by (auto simp: message_type_from_u8_def split: if_splits)

lemma message_type_from_u8_total: "message_type_from_u8 value \<noteq> Panic"
  by (simp add: message_type_from_u8_def)

text \<open>The index \<open>u64::MAX\<close> is the wire's absent value, so it is the one index that does not survive.\<close>

lemma optional_idx_roundtrip:
  "optional_idx_decode (optional_idx_encode idx) = (if idx = Some OPTIONAL_IDX_INVALID then None else idx)"
  by (auto simp: optional_idx_decode_def optional_idx_encode_def split: option.splits)

definition type_object_encode :: "logical_type \<Rightarrow> binary_serializer \<Rightarrow> binary_serializer" where
  "type_object_encode t s = end_object (logical_type_encode t (begin_object s))"

abbreviation type_object_decode :: "logical_type decoder" where
  "type_object_decode \<equiv> dbind logical_type_decode (\<lambda>t. dbind expect_object_end (\<lambda>_. dreturn t))"

definition wire_type :: "logical_type \<Rightarrow> bool" where
  "wire_type t \<longleftrightarrow> rust_type t \<and> type_depth t \<le> MAX_DECODE_DEPTH"

lemma type_object_parses:
  "wire_type t \<Longrightarrow> parses type_object_decode (type_bytes t @ object_end @ rest) t rest"
  unfolding wire_type_def logical_type_decode_def
  by (elim conjE) (rule parses_intros parses_type(1) | assumption)+

interpretation type_object: codec type_object_encode type_object_decode wire_type
  by unfold_locales
    (simp_all add: type_object_encode_def writes type_object_parses)

lemma chunk_element_writes [writes]:
  "out (encode_chunk_element chunk s) =
     out s @ 1 # field DATA_CHUNK_WRAPPER_FIELD @ chunk_bytes chunk @ object_end @ object_end"
  by (simp add: encode_chunk_element_def encode_data_chunk_wrapper_def Let_def writes)

lemma chunk_element_parses:
  "wire_chunk chunk \<Longrightarrow> parses decode_chunk_element
     (1 # field DATA_CHUNK_WRAPPER_FIELD @ chunk_bytes chunk @ object_end @ object_end @ rest) chunk rest"
  unfolding decode_chunk_element_def decode_data_chunk_wrapper_def
  by (rule parses_intros parses_chunk | assumption | simp)+

interpretation chunk_element: codec encode_chunk_element decode_chunk_element wire_chunk
  by unfold_locales (simp_all add: writes chunk_element_parses)

definition wire_header :: "message_header \<Rightarrow> bool" where
  "wire_header h \<longleftrightarrow> rust_string (connection_id h) \<and> client_query_id h \<noteq> Some OPTIONAL_IDX_INVALID"

text \<open>The field ids read as optional are told apart from the field that follows.\<close>

lemmas header_fields =
  HEADER_FIELD_TYPE_def HEADER_FIELD_CONNECTION_ID_def HEADER_FIELD_CLIENT_QUERY_ID_def

interpretation header_format: wire_format message_header_encode message_header_decode wire_header
proof
  show "out (message_header_encode h s) = out s @ out (message_header_encode h serializer_new)" for h s
    by (simp add: message_header_encode_def Let_def writes)
  show "parses message_header_decode (out (message_header_encode h serializer_new) @ rest) h rest"
    if "wire_header h" for h rest
    using that unfolding wire_header_def message_header_decode_def
    by (cases h; cases "connection_id h = []"; simp add: message_header_encode_def Let_def writes)
      (rule parses_intros parses_return_eq | simp add: header_fields optional_idx_roundtrip)+
qed

definition wire_connection_request :: "connection_request \<Rightarrow> bool" where
  "wire_connection_request b \<longleftrightarrow> rust_string (auth_string b) \<and>
     rust_string (client_duckdb_version b) \<and> rust_string (client_platform b)"

interpretation connection_request_format:
  wire_format connection_request_encode connection_request_decode wire_connection_request
proof
  show "out (connection_request_encode b s) = out s @ out (connection_request_encode b serializer_new)" for b s
    by (simp add: connection_request_encode_def Let_def writes)
  show "parses connection_request_decode (out (connection_request_encode b serializer_new) @ rest) b rest"
    if "wire_connection_request b" for b rest
    using that unfolding wire_connection_request_def connection_request_decode_def
    by (simp add: connection_request_encode_def Let_def writes)
      (rule parses_intros parses_return_eq | simp)+
qed

definition wire_connection_response :: "connection_response \<Rightarrow> bool" where
  "wire_connection_response b \<longleftrightarrow> rust_string (server_duckdb_version b) \<and> rust_string (server_platform b)"

interpretation connection_response_format:
  wire_format connection_response_encode connection_response_decode wire_connection_response
proof
  show "out (connection_response_encode b s) = out s @ out (connection_response_encode b serializer_new)" for b s
    by (simp add: connection_response_encode_def Let_def writes)
  show "parses connection_response_decode (out (connection_response_encode b serializer_new) @ rest) b rest"
    if "wire_connection_response b" for b rest
    using that unfolding wire_connection_response_def connection_response_decode_def
    by (simp add: connection_response_encode_def Let_def writes)
      (rule parses_intros parses_return_eq | simp)+
qed

interpretation prepare_request_format:
  wire_format prepare_request_encode prepare_request_decode "\<lambda>b. rust_string (sql_query b)"
proof
  show "parses prepare_request_decode (out (prepare_request_encode b serializer_new) @ rest) b rest"
    if "rust_string (sql_query b)" for b rest
    using that unfolding prepare_request_decode_def
    by (simp add: prepare_request_encode_def writes) (rule parses_intros parses_return_eq | simp)+
qed (simp add: prepare_request_encode_def writes)

interpretation fetch_request_format:
  wire_format fetch_request_encode fetch_request_decode "\<lambda>b. True"
proof
  show "parses fetch_request_decode (out (fetch_request_encode b serializer_new) @ rest) b rest" for b rest
    unfolding fetch_request_decode_def
    by (simp add: fetch_request_encode_def writes) (rule parses_intros parses_return_eq | simp)+
qed (simp add: fetch_request_encode_def writes)

interpretation error_response_format:
  wire_format error_response_encode error_response_decode "\<lambda>b. rust_string (error_message b)"
proof
  show "parses error_response_decode (out (error_response_encode b serializer_new) @ rest) b rest"
    if "rust_string (error_message b)" for b rest
    using that unfolding error_response_decode_def
    by (simp add: error_response_encode_def writes) (rule parses_intros parses_return_eq | simp)+
qed (simp add: error_response_encode_def writes)

definition wire_chunks :: "data_chunk list \<Rightarrow> bool" where
  "wire_chunks chunks \<longleftrightarrow> list_all wire_chunk chunks \<and> length chunks \<le> usize_MAX"

definition wire_prepare_response :: "prepare_response \<Rightarrow> bool" where
  "wire_prepare_response b \<longleftrightarrow>
     list_all wire_type (result_types b) \<and> length (result_types b) \<le> usize_MAX \<and>
     list_all rust_string (result_names b) \<and> length (result_names b) \<le> usize_MAX \<and>
     wire_chunks (prepare_results b)"

definition wire_fetch_response :: "fetch_response \<Rightarrow> bool" where
  "wire_fetch_response b \<longleftrightarrow>
     wire_chunks (fetch_results b) \<and> batch_index b \<noteq> Some OPTIONAL_IDX_INVALID"

text \<open>The lists of the responses, in the form the encoders leave them.\<close>

lemma list_writes:
  "out (fold (\<lambda>t s. end_object (logical_type_encode t (begin_object s))) ts s) =
     out s @ concat (map (\<lambda>t. type_bytes t @ object_end) ts)"
  "out (fold write_string names s) = out s @ concat (map string_bytes names)"
  "out (fold encode_chunk_element chunks s) = out s @ concat (map (\<lambda>c.
     1 # field DATA_CHUNK_WRAPPER_FIELD @ chunk_bytes c @ object_end @ object_end) chunks)"
  using type_object.fold_appends [of ts s] string_codec.fold_appends [of names s]
    chunk_element.fold_appends [of chunks s]
  by (simp_all add: writes type_object_encode_def [abs_def])

lemma chunks_parses:
  "wire_chunks chunks \<Longrightarrow>
   parses (dbind read_bounded_count (\<lambda>n. decode_many n decode_chunk_element))
     (varint (of_nat (length chunks)) @ concat (map (\<lambda>c.
        1 # field DATA_CHUNK_WRAPPER_FIELD @ chunk_bytes c @ object_end @ object_end) chunks) @ rest)
     chunks rest"
  using chunk_element.counted_roundtrip [of chunks rest] by (simp add: wire_chunks_def writes)

interpretation fetch_response_format:
  wire_format fetch_response_encode fetch_response_decode wire_fetch_response
proof
  show "out (fetch_response_encode b s) = out s @ out (fetch_response_encode b serializer_new)" for b s
    by (simp add: fetch_response_encode_def Let_def list_writes writes)
  show "parses fetch_response_decode (out (fetch_response_encode b serializer_new) @ rest) b rest"
    if "wire_fetch_response b" for b rest
    using that unfolding wire_fetch_response_def fetch_response_decode_def
    by (cases b; cases "fetch_results b = []";
        simp add: fetch_response_encode_def Let_def list_writes writes)
      (rule chunks_parses parses_intros parses_return_eq | simp add: optional_idx_roundtrip)+
qed

interpretation prepare_response_format:
  wire_format prepare_response_encode prepare_response_decode wire_prepare_response
proof
  show "out (prepare_response_encode b s) = out s @ out (prepare_response_encode b serializer_new)" for b s
    by (simp add: prepare_response_encode_def Let_def list_writes writes)
  fix b rest
  assume b: "wire_prepare_response b"
  have types: "parses (decode_many (length (result_types b)) type_object_decode)
      (concat (map (\<lambda>t. type_bytes t @ object_end) (result_types b)) @ r) (result_types b) r" for r
    using type_object.many_roundtrip [of "result_types b" r] b
    by (simp add: wire_prepare_response_def type_object_encode_def writes)
  have names: "parses (decode_many (length (result_names b)) read_string)
      (concat (map string_bytes (result_names b)) @ r) (result_names b) r" for r
    using string_codec.many_roundtrip [of "result_names b" r] b
    by (simp add: wire_prepare_response_def writes)
  have "length (result_types b) \<le> length (concat (map (\<lambda>t. type_bytes t @ object_end) (result_types b)))"
    "length (result_names b) \<le> length (concat (map string_bytes (result_names b)))"
    by (rule concat_length_ge; simp)+
  with b show "parses prepare_response_decode (out (prepare_response_encode b serializer_new) @ rest) b rest"
    unfolding wire_prepare_response_def prepare_response_decode_def
    by (cases "prepare_results b = []"; cases "needs_more_fetch b";
        simp add: prepare_response_encode_def Let_def list_writes writes)
      (rule chunks_parses types names parses_intros parses_return_eq | simp)+
qed

fun wire_body :: "quack_message \<Rightarrow> bool" where
  "wire_body (ConnectionRequest b) = wire_connection_request b"
| "wire_body (ConnectionResponse b) = wire_connection_response b"
| "wire_body (PrepareRequest b) = rust_string (sql_query b)"
| "wire_body (PrepareResponse b) = wire_prepare_response b"
| "wire_body (FetchRequest b) = True"
| "wire_body (FetchResponse b) = wire_fetch_response b"
| "wire_body SuccessResponse = True"
| "wire_body DisconnectMessage = True"
| "wire_body (ErrorResponse b) = rust_string (error_message b)"

lemma body_decode_encode:
  assumes "wire_body b"
  shows "parses (body_decode (message_type_of b)) (out (body_encode b serializer_new) @ rest) b rest"
  using assms
  by (cases b)
    (simp_all add: success_response_encode_def success_response_decode_def disconnect_message_encode_def
      disconnect_message_decode_def writes,
     (rule parses_return_eq connection_request_format.dec_enc connection_response_format.dec_enc
        prepare_request_format.dec_enc prepare_response_format.dec_enc fetch_request_format.dec_enc
        fetch_response_format.dec_enc error_response_format.dec_enc parses_intros | simp)+)

lemma body_encode_appends: "out (body_encode b s) = out s @ out (body_encode b serializer_new)"
proof (cases b)
  case (ConnectionRequest c)
  then show ?thesis by (simp add: connection_request_format.enc_appends [of c s])
next
  case (ConnectionResponse c)
  then show ?thesis by (simp add: connection_response_format.enc_appends [of c s])
next
  case (PrepareRequest c)
  then show ?thesis by (simp add: prepare_request_format.enc_appends [of c s])
next
  case (PrepareResponse c)
  then show ?thesis by (simp add: prepare_response_format.enc_appends [of c s])
next
  case (FetchRequest c)
  then show ?thesis by (simp add: fetch_request_format.enc_appends [of c s])
next
  case (FetchResponse c)
  then show ?thesis by (simp add: fetch_response_format.enc_appends [of c s])
next
  case (ErrorResponse c)
  then show ?thesis by (simp add: error_response_format.enc_appends [of c s])
qed (simp_all add: success_response_encode_def disconnect_message_encode_def writes)

interpretation body_format:
  wire_format body_encode "body_decode ty" "\<lambda>b. wire_body b \<and> message_type_of b = ty" for ty
proof
  show "out (body_encode b s) = out s @ out (body_encode b serializer_new)" for b s
    by (rule body_encode_appends)
qed (auto intro: body_decode_encode)

lemma encode_message_bytes:
  "encode_message h b =
     out (message_header_encode h serializer_new) @ object_end @ out (body_encode b serializer_new) @ object_end"
  using header_format.enc_appends [of h "begin_object serializer_new"]
    body_encode_appends [of b "begin_object (end_object (message_header_encode h (begin_object serializer_new)))"]
  by (simp add: encode_message_def Let_def into_bytes_def structure_writes serializer_new_writes)

lemma parses_envelope:
  assumes "wire_header h" "wire_body b" "msg_type h = message_type_of b"
  shows "parses envelope_decode (encode_message h b @ rest) (h, b) rest"
  unfolding envelope_decode_def encode_message_bytes append_assoc
  by (rule header_format.dec_enc body_format.dec_enc parses_intros assms | simp add: assms)+

section \<open>Decoding arbitrary bytes\<close>

lemma safe_message_type_from_u8 [safe_intros]: "safe (dlift (message_type_from_u8 v)) (\<lambda>_. True)"
  by (rule safe_lift) (simp_all add: message_type_from_u8_total)

fun message_backed :: "quack_message \<Rightarrow> bool" where
  "message_backed (PrepareResponse b) = list_all chunk_backed (prepare_results b)"
| "message_backed (FetchResponse b) = list_all chunk_backed (fetch_results b)"
| "message_backed _ = True"

lemma safe_header: "safe message_header_decode (\<lambda>_. True)"
  unfolding message_header_decode_def by (rule safe_intros | simp)+

lemma safe_data_chunk_wrapper [safe_intros]: "safe decode_data_chunk_wrapper chunk_backed"
  unfolding decode_data_chunk_wrapper_def by (rule safe_intros | simp)+

lemma safe_chunk_element: "safe decode_chunk_element chunk_backed"
  unfolding decode_chunk_element_def by (rule safe_intros | simp)+

lemma safe_simple_bodies [safe_intros]:
  "safe connection_request_decode (\<lambda>_. True)" "safe connection_response_decode (\<lambda>_. True)"
  "safe prepare_request_decode (\<lambda>_. True)" "safe fetch_request_decode (\<lambda>_. True)"
  "safe success_response_decode (\<lambda>_. True)" "safe disconnect_message_decode (\<lambda>_. True)"
  "safe error_response_decode (\<lambda>_. True)"
  unfolding connection_request_decode_def connection_response_decode_def prepare_request_decode_def
    fetch_request_decode_def success_response_decode_def disconnect_message_decode_def
    error_response_decode_def
  by (rule safe_intros | simp)+

lemma safe_fetch_response [safe_intros]:
  "safe fetch_response_decode (\<lambda>b. list_all chunk_backed (fetch_results b))"
  unfolding fetch_response_decode_def
  by (rule safe_intros safe_weaken [OF safe_decode_many [OF safe_chunk_element], of _ "list_all chunk_backed"] | simp)+

lemma safe_type_object: "safe type_object_decode wire_type"
  unfolding logical_type_decode_def wire_type_def by (rule safe_intros safe_type(1) | simp)+

lemma safe_prepare_response [safe_intros]:
  "safe prepare_response_decode (\<lambda>b. list_all chunk_backed (prepare_results b))"
proof -
  have types: "safe (decode_many n type_object_decode) (\<lambda>_. True)" for n
    by (rule safe_weaken [OF safe_decode_many [OF safe_type_object]]) simp
  have names: "safe (decode_many n read_string) (\<lambda>_. True)" for n
    by (rule safe_weaken [OF safe_decode_many [OF safe_read_string]]) simp
  show ?thesis
    unfolding prepare_response_decode_def
    by (rule types names safe_intros safe_weaken [OF safe_decode_many [OF safe_chunk_element], of _ "list_all chunk_backed"] | simp)+
qed

lemma safe_body: "safe (body_decode ty) (\<lambda>b. message_type_of b = ty \<and> message_backed b)"
  by (cases ty) (simp_all, (rule safe_intros | simp)+)

lemma safe_envelope:
  "safe envelope_decode (\<lambda>(h, b). msg_type h = message_type_of b \<and> message_backed b)"
  unfolding envelope_decode_def by (rule safe_intros safe_header safe_body | simp)+

section \<open>Properties\<close>

lemma decode_message_encoded:
  assumes "wire_header h" "wire_body b" "msg_type h = message_type_of b"
  shows "decode_message (encode_message h b @ rest) = Ok (h, b)"
  using parses_new [OF parses_envelope [OF assms]] by (simp add: decode_message_def)

text \<open>
  C14: every message is decoded from its encoding: for a header whose type is the body's and values the
  Rust types can hold, \<open>decode_message\<close> on the bytes of \<open>encode_message\<close> returns that header and that
  body, for each of the nine message kinds and whatever bytes follow.
\<close>

theorem decode_encode_message:
  assumes "wire_header header" "wire_body body" "msg_type header = message_type_of body"
  shows "decode_message (encode_message header body @ rest) = Ok (header, body)"
  by (rule decode_message_encoded [OF assms])

abbreviation example_header :: message_header where
  "example_header \<equiv> \<lparr>msg_type = MtFetchResponse, connection_id = [99, 49], client_query_id = Some 7\<rparr>"

abbreviation example_body :: quack_message where
  "example_body \<equiv> FetchResponse \<lparr>fetch_results = [\<lparr>row_count = 1, columns =
     [Vector (LogicalType Varchar None) None (Strings [Some [104, 105]])]\<rparr>], batch_index = Some 3\<rparr>"

theorem decode_encode_message_witness:
  "decode_message (encode_message example_header example_body @ [1, 2]) = Ok (example_header, example_body)"
proof (rule decode_encode_message)
  show "wire_header example_header"
    by (simp add: wire_header_def rust_string_def OPTIONAL_IDX_INVALID_def)
  show "wire_body example_body"
    by (simp add: wire_fetch_response_def wire_chunks_def wire_chunk_def wire_vector_def exact_rows_def
        unwrap_or_empty_def MAX_DECODE_DEPTH_def rust_string_def OPTIONAL_IDX_INVALID_def)
qed simp

text \<open>
  C15: no bytes a peer can send make \<open>decode_message\<close> panic, and a message it accepts has the body its
  header announces, with every column of its result chunks backing all the rows the chunk promises.
\<close>

theorem decode_message_safe:
  "case decode_message bytes of
     Ok (header, body) \<Rightarrow> msg_type header = message_type_of body \<and> message_backed body
   | Err e \<Rightarrow> True
   | Panic \<Rightarrow> False"
proof -
  have ok: "deser_ok (deserializer_new bytes)" by simp
  show ?thesis
    using safeD [OF safe_envelope ok]
    by (cases "envelope_decode (deserializer_new bytes)") (auto simp: decode_message_def)
qed



text \<open>
  SQE refuses writes over Quack: whatever its body, a message whose header announces
  \<open>AppendRequest\<close> is refused as unknown message type 9, and one that announces \<open>Invalid\<close> as unsupported.
\<close>

theorem decode_message_refuses_append:
  assumes "wire_header header"
  shows "(msg_type header = MtAppendRequest \<longrightarrow>
      decode_message (out (message_header_encode header serializer_new) @
        u16_to_le_bytes MESSAGE_TERMINATOR_FIELD_ID @ body_bytes) = Err (UnknownMessageType 9)) \<and>
    (msg_type header = MtInvalid \<longrightarrow>
      decode_message (out (message_header_encode header serializer_new) @
        u16_to_le_bytes MESSAGE_TERMINATOR_FIELD_ID @ body_bytes) = Err (UnsupportedMessageType MtInvalid))"
proof -
  have "refuses envelope_decode (out (message_header_encode header serializer_new) @ object_end @ body_bytes) e"
    if "body_decode (msg_type header) = dfail e" for e
    unfolding envelope_decode_def
    by (rule refuses_later, rule header_format.dec_enc [OF assms], rule refuses_later,
        rule parses_expect_object_end, rule refuses_here) (simp add: that refuses_fail)
  from refuses_new [OF this] show ?thesis
    by (simp add: decode_message_def)
qed

text \<open>
  the query id \<open>u64::MAX\<close> is the wire's absent value: a header that carries it is encoded exactly as
  one without a query id and is decoded as one, and it is the only id for which this happens.
\<close>

theorem client_query_id_sentinel:
  assumes "rust_string (connection_id header)" "wire_body body" "msg_type header = message_type_of body"
  shows "decode_message (encode_message header body) =
    Ok (if client_query_id header = Some OPTIONAL_IDX_INVALID
        then header\<lparr>client_query_id := None\<rparr> else header, body)"
proof (cases "client_query_id header = Some OPTIONAL_IDX_INVALID")
  case True
  then have "encode_message header body = encode_message (header\<lparr>client_query_id := None\<rparr>) body"
    by (simp add: encode_message_def message_header_encode_def optional_idx_encode_def Let_def)
  with True assms decode_message_encoded [of "header\<lparr>client_query_id := None\<rparr>" body "[]"] show ?thesis
    by (simp add: wire_header_def)
next
  case False
  with assms decode_message_encoded [of header body "[]"] show ?thesis by (simp add: wire_header_def)
qed

end
