(* ===== verification/Spill_Pool.thy ===== *)
theory Spill_Pool
  imports Prelude
begin

text \<open>
  \<open>ResizableFairSpillPool\<close> (\<open>crates/sqe-spill/src/resizable_pool.rs\<close>) and the sizing arithmetic of
  \<open>MemoryGovernor\<close> and \<open>split_read_headroom\<close> (\<open>governor.rs\<close>, \<open>budget.rs\<close>).

  Each method runs under the pool's mutex, so it is an atomic function on the pool; \<open>poisoned\<close> is the
  state of the mutex and selects the branch the code takes when the lock fails. A DataFusion
  \<open>MemoryReservation\<close> enters a method through what the method reads of it: whether its consumer can
  spill and its current size.

  \<open>pool_step\<close> interleaves the calls of any number of reservations; a reservation's size is what its own
  successful calls sum up to.
\<close>

section \<open>Read headroom\<close>

definition DEFAULT_READ_HEADROOM_NUM :: usize where
  "DEFAULT_READ_HEADROOM_NUM = 1"

definition DEFAULT_READ_HEADROOM_DEN :: usize where
  "DEFAULT_READ_HEADROOM_DEN = 4"

definition split_read_headroom :: "usize \<Rightarrow> usize \<Rightarrow> usize \<Rightarrow> usize \<times> usize" where
  "split_read_headroom capacity headroom_num headroom_den =
     (if capacity = 0 then (0, 0)
      else
        let den = max headroom_den 1;
            num = min headroom_num den;
            headroom = saturating_mul capacity num div den;
            headroom = (if headroom = 0 \<and> num > 0 then 1 else headroom);
            headroom = (if headroom \<ge> capacity then saturating_sub capacity 1 else headroom);
            writer = saturating_sub capacity headroom
        in (max writer 1, min (max headroom 1) (saturating_sub capacity writer)))"

definition split_default_read_headroom :: "usize \<Rightarrow> usize \<times> usize" where
  "split_default_read_headroom capacity =
     split_read_headroom capacity DEFAULT_READ_HEADROOM_NUM DEFAULT_READ_HEADROOM_DEN"

section \<open>MemoryGovernor\<close>

record memory_governor =
  pool_bytes :: usize
  headroom_bytes :: usize
  distributable :: usize

definition governor_new :: "usize \<Rightarrow> memory_governor" where
  "governor_new bytes =
     (let bytes = max bytes 1;
          (distrib, headroom) = split_default_read_headroom bytes
      in \<lparr>pool_bytes = bytes, headroom_bytes = headroom, distributable = distrib\<rparr>)"

definition try_resize_pool :: "memory_governor \<Rightarrow> usize \<Rightarrow> memory_governor" where
  "try_resize_pool g new_pool_bytes =
     (let new_pool = max new_pool_bytes 1;
          (distrib, headroom) = split_default_read_headroom new_pool;
          g = g\<lparr>pool_bytes := new_pool\<rparr>;
          g = g\<lparr>headroom_bytes := headroom\<rparr>
      in g\<lparr>distributable := distrib\<rparr>)"

section \<open>ResizableFairSpillPool\<close>

record resizable_fair_spill_pool =
  pool_size :: usize
  num_spill :: usize
  spillable :: usize
  unspillable :: usize
  poisoned :: bool

datatype pool_error =
    InsufficientCapacity usize usize
  | LockPoisoned

record shrink_below_use =
  requested_bytes :: usize
  reserved_bytes :: usize
  current_limit_bytes :: usize

definition pool_new :: "usize \<Rightarrow> resizable_fair_spill_pool" where
  "pool_new size_bytes =
     \<lparr>pool_size = max size_bytes 1, num_spill = 0, spillable = 0, unspillable = 0, poisoned = False\<rparr>"

definition set_pool_size :: "resizable_fair_spill_pool \<Rightarrow> usize \<Rightarrow> resizable_fair_spill_pool" where
  "set_pool_size p n = p\<lparr>pool_size := max n 1\<rparr>"

definition reserved :: "resizable_fair_spill_pool \<Rightarrow> usize" where
  "reserved p = (if poisoned p then 0 else wrapping_add (spillable p) (unspillable p))"

definition try_set_pool_size ::
    "resizable_fair_spill_pool \<Rightarrow> usize \<Rightarrow>
     resizable_fair_spill_pool \<times> (shrink_below_use + usize)" where
  "try_set_pool_size p n =
     (let n = max n 1;
          res = reserved p;
          previous = pool_size p
      in if n < previous \<and> n < res
         then (p, Inl \<lparr>requested_bytes = n, reserved_bytes = res, current_limit_bytes = previous\<rparr>)
         else (set_pool_size p n, Inr previous))"

definition register_consumer :: "bool \<Rightarrow> resizable_fair_spill_pool \<Rightarrow> resizable_fair_spill_pool" where
  "register_consumer can_spill p =
     (if can_spill \<and> \<not> poisoned p then p\<lparr>num_spill := wrapping_add (num_spill p) 1\<rparr> else p)"

definition unregister_consumer :: "bool \<Rightarrow> resizable_fair_spill_pool \<Rightarrow> resizable_fair_spill_pool" where
  "unregister_consumer can_spill p =
     (if can_spill \<and> \<not> poisoned p then p\<lparr>num_spill := saturating_sub (num_spill p) 1\<rparr> else p)"

definition pool_grow :: "bool \<Rightarrow> usize \<Rightarrow> resizable_fair_spill_pool \<Rightarrow> resizable_fair_spill_pool" where
  "pool_grow can_spill additional p =
     (if poisoned p then p
      else if can_spill then p\<lparr>spillable := saturating_add (spillable p) additional\<rparr>
      else p\<lparr>unspillable := saturating_add (unspillable p) additional\<rparr>)"

definition pool_shrink :: "bool \<Rightarrow> usize \<Rightarrow> resizable_fair_spill_pool \<Rightarrow> resizable_fair_spill_pool" where
  "pool_shrink can_spill amount p =
     (if poisoned p then p
      else if can_spill then p\<lparr>spillable := saturating_sub (spillable p) amount\<rparr>
      else p\<lparr>unspillable := saturating_sub (unspillable p) amount\<rparr>)"

definition spill_share :: "resizable_fair_spill_pool \<Rightarrow> usize" where
  "spill_share p =
     (let spill_available = saturating_sub (pool_size p) (unspillable p)
      in if num_spill p = 0 then spill_available else spill_available div num_spill p)"

definition pool_try_grow ::
    "bool \<Rightarrow> usize \<Rightarrow> usize \<Rightarrow> resizable_fair_spill_pool \<Rightarrow>
     resizable_fair_spill_pool \<times> (pool_error + unit)" where
  "pool_try_grow can_spill res_size additional p =
     (if poisoned p then (p, Inl LockPoisoned)
      else if can_spill then
        (let avail = spill_share p
         in if wrapping_add res_size additional > avail
            then (p, Inl (InsufficientCapacity additional avail))
            else (p\<lparr>spillable := saturating_add (spillable p) additional\<rparr>, Inr ()))
      else
        (let avail = saturating_sub (pool_size p) (wrapping_add (unspillable p) (spillable p))
         in if avail < additional
            then (p, Inl (InsufficientCapacity additional avail))
            else (p\<lparr>unspillable := saturating_add (unspillable p) additional\<rparr>, Inr ())))"

definition memory_limit :: "resizable_fair_spill_pool \<Rightarrow> usize" where
  "memory_limit p = pool_size p"

section \<open>Headroom arithmetic\<close>

text \<open>The headroom before the final clamps: the requested fraction, at least one byte, never everything.\<close>

definition headroom_of :: "usize \<Rightarrow> usize \<Rightarrow> usize \<Rightarrow> usize" where
  "headroom_of capacity num den =
     (let h = min (capacity * num) usize_MAX div den
      in min (if h = 0 \<and> num > 0 then 1 else h) (capacity - 1))"

lemma split_read_headroom_eq:
  assumes "0 < capacity"
  shows "split_read_headroom capacity num den =
    (capacity - headroom_of capacity (min num (max den 1)) (max den 1),
     headroom_of capacity (min num (max den 1)) (max den 1))"
proof -
  define h where "h = headroom_of capacity (min num (max den 1)) (max den 1)"
  have "h < capacity"
    using assms unfolding h_def headroom_of_def Let_def by (simp add: min_less_iff_disj)
  then have clamps: "max (capacity - h) 1 = capacity - h" "min (max h 1) (capacity - (capacity - h)) = h"
    by auto
  have "(if y \<ge> capacity then capacity - 1 else y) = min y (capacity - 1)" for y
    using assms by auto
  then have "split_read_headroom capacity num den =
      (max (capacity - h) 1, min (max h 1) (capacity - (capacity - h)))"
    using assms unfolding h_def headroom_of_def split_read_headroom_def Let_def saturating_mul_def
      saturating_sub_def
    by (simp only: if_False less_imp_neq [symmetric])
  then show ?thesis by (simp only: clamps h_def [symmetric])
qed

lemma headroom_of_bounds:
  assumes "0 < capacity" "0 < den"
  shows "headroom_of capacity num den < capacity"
    and "headroom_of capacity num den = 0 \<longleftrightarrow> num = 0 \<or> capacity = 1"
proof -
  show "headroom_of capacity num den < capacity"
    using assms unfolding headroom_of_def Let_def by (simp add: min_less_iff_disj)
  have "capacity - 1 = 0 \<longleftrightarrow> capacity = 1" using assms(1) by auto
  then show "headroom_of capacity num den = 0 \<longleftrightarrow> num = 0 \<or> capacity = 1"
    unfolding headroom_of_def Let_def by (cases "num = 0") (auto simp: min_def)
qed

lemma split_read_headroom_sum:
  assumes "0 < capacity" "split_read_headroom capacity num den = (w, h)"
  shows "w + h = capacity" "1 \<le> w" "h = 0 \<longleftrightarrow> num = 0 \<or> capacity = 1"
proof -
  let ?h = "headroom_of capacity (min num (max den 1)) (max den 1)"
  have wh: "w = capacity - ?h" "h = ?h"
    using assms by (auto simp add: split_read_headroom_eq)
  have "?h < capacity" "?h = 0 \<longleftrightarrow> min num (max den 1) = 0 \<or> capacity = 1"
    using headroom_of_bounds [OF assms(1), of "max den 1"] by simp_all
  then show "w + h = capacity" "1 \<le> w" "h = 0 \<longleftrightarrow> num = 0 \<or> capacity = 1"
    by (auto simp: wh)
qed

section \<open>Reservations over the pool\<close>

text \<open>
  A reservation is whether its consumer spills and its size. The steps are the calls DataFusion makes
  on behalf of live reservations; a fallible growth that fails and a refused resize change nothing. The
  infallible \<open>grow\<close> is bounded by the address space, which real allocations are.
\<close>

type_synonym reservation = "bool \<times> usize"
type_synonym reservations = "nat \<Rightarrow> reservation option"

definition live_bytes :: "bool \<Rightarrow> reservations \<Rightarrow> usize" where
  "live_bytes spill rs = map_sum (\<lambda>(s, n). if s = spill then n else 0) rs"

definition live_count :: "reservations \<Rightarrow> nat" where
  "live_count rs = map_sum (\<lambda>(s, n). if s then 1 else 0) rs"

definition fits :: "reservations \<Rightarrow> usize \<Rightarrow> bool" where
  "fits rs additional \<longleftrightarrow> live_bytes True rs + live_bytes False rs + additional \<le> usize_MAX"

inductive pool_step ::
    "resizable_fair_spill_pool \<times> reservations \<Rightarrow> resizable_fair_spill_pool \<times> reservations \<Rightarrow> bool" where
  register: "rs i = None \<Longrightarrow> live_count rs < usize_MAX \<Longrightarrow>
    pool_step (p, rs) (register_consumer spill p, rs(i \<mapsto> (spill, 0)))"
| try_grow_ok: "rs i = Some (spill, n) \<Longrightarrow> fits rs additional \<Longrightarrow>
    pool_try_grow spill n additional p = (p', Inr ()) \<Longrightarrow>
    pool_step (p, rs) (p', rs(i \<mapsto> (spill, n + additional)))"
| try_grow_err: "rs i = Some (spill, n) \<Longrightarrow>
    pool_try_grow spill n additional p = (p', Inl e) \<Longrightarrow> pool_step (p, rs) (p', rs)"
| grow: "rs i = Some (spill, n) \<Longrightarrow> fits rs additional \<Longrightarrow>
    pool_step (p, rs) (pool_grow spill additional p, rs(i \<mapsto> (spill, n + additional)))"
| shrink: "rs i = Some (spill, n) \<Longrightarrow> amount \<le> n \<Longrightarrow>
    pool_step (p, rs) (pool_shrink spill amount p, rs(i \<mapsto> (spill, n - amount)))"
| unregister: "rs i = Some (spill, 0) \<Longrightarrow>
    pool_step (p, rs) (unregister_consumer spill p, rs(i := None))"
| resize: "pool_step (p, rs) (fst (try_set_pool_size p n), rs)"
| force_resize: "pool_step (p, rs) (set_pool_size p n, rs)"

inductive pool_reachable :: "usize \<Rightarrow> resizable_fair_spill_pool \<times> reservations \<Rightarrow> bool" for n0 where
  start: "pool_reachable n0 (pool_new n0, Map.empty)"
| step: "pool_reachable n0 c \<Longrightarrow> pool_step c c' \<Longrightarrow> pool_reachable n0 c'"

text \<open>The pool's counters are exactly the live reservations.\<close>

definition pool_accounts :: "resizable_fair_spill_pool \<times> reservations \<Rightarrow> bool" where
  "pool_accounts = (\<lambda>(p, rs).
     finite (dom rs) \<and> \<not> poisoned p \<and> 1 \<le> pool_size p \<and>
     spillable p = live_bytes True rs \<and> unspillable p = live_bytes False rs \<and>
     num_spill p = live_count rs \<and>
     live_bytes True rs + live_bytes False rs \<le> usize_MAX \<and> live_count rs \<le> usize_MAX)"

lemma live_update:
  assumes "finite (dom rs)" "rs i = Some (spill, n)"
  shows "live_bytes spill (rs(i \<mapsto> (spill, m))) + n = live_bytes spill rs + m"
    and "live_bytes (\<not> spill) (rs(i \<mapsto> (spill, m))) = live_bytes (\<not> spill) rs"
    and "live_count (rs(i \<mapsto> (spill, m))) = live_count rs"
  using map_sum_update [OF assms, of "\<lambda>(s, n). if s = spill then n else 0" "(spill, m)"]
    map_sum_update [OF assms, of "\<lambda>(s, n). if s = (\<not> spill) then n else 0" "(spill, m)"]
    map_sum_update [OF assms, of "\<lambda>(s, n). if s then 1 else 0" "(spill, m)"]
  by (auto simp: live_bytes_def live_count_def)

lemma live_member:
  assumes "finite (dom rs)" "rs i = Some (spill, n)"
  shows "n \<le> live_bytes spill rs"
  using map_sum_member [OF assms, of "\<lambda>(s, n). if s = spill then n else 0"]
  by (simp add: live_bytes_def)

lemma live_insert:
  assumes "finite (dom rs)" "rs i = None"
  shows "live_bytes b (rs(i \<mapsto> (spill, 0))) = live_bytes b rs"
    and "live_count (rs(i \<mapsto> (spill, 0))) = live_count rs + (if spill then 1 else 0)"
  using assms by (simp_all add: live_bytes_def live_count_def map_sum_insert)

lemma live_delete:
  assumes "finite (dom rs)" "rs i = Some (spill, 0)"
  shows "live_bytes b (rs(i := None)) = live_bytes b rs"
    and "live_count (rs(i := None)) + (if spill then 1 else 0) = live_count rs"
  using map_sum_delete [OF assms, of "\<lambda>(s, n). if s = b then n else 0"]
    map_sum_delete [OF assms, of "\<lambda>(s, n). if s then 1 else 0"]
  by (simp_all add: live_bytes_def live_count_def)

lemma pool_accounts_step: "pool_step c c' \<Longrightarrow> pool_accounts c \<Longrightarrow> pool_accounts c'"
proof (induction rule: pool_step.induct)
  case (register rs i p spill)
  then show ?case
    by (auto simp: pool_accounts_def register_consumer_def live_insert wrapping_add_def)
next
  case (try_grow_ok rs i spill n additional p p')
  then show ?case
    using live_update [of rs i spill n "n + additional"]
    by (cases spill) (auto simp: pool_accounts_def fits_def pool_try_grow_def Let_def saturating_add_def split: if_splits)
next
  case (try_grow_err rs i spill n additional p p' e)
  then show ?case by (auto simp: pool_accounts_def pool_try_grow_def Let_def split: if_splits)
next
  case (grow rs i spill n additional p)
  then show ?case
    using live_update [of rs i spill n "n + additional"]
    by (cases spill) (auto simp: pool_accounts_def fits_def pool_grow_def saturating_add_def)
next
  case (shrink rs i spill n amount p)
  then show ?case
    using live_update [of rs i spill n "n - amount"]
    by (cases spill) (auto simp: pool_accounts_def pool_shrink_def saturating_sub_def)
next
  case (unregister rs i spill p)
  then show ?case
    using live_delete [of rs i spill]
    by (auto simp: pool_accounts_def unregister_consumer_def saturating_sub_def)
qed (auto simp: pool_accounts_def try_set_pool_size_def set_pool_size_def Let_def)

lemma pool_accounts_reachable: "pool_reachable n0 c \<Longrightarrow> pool_accounts c"
proof (induction rule: pool_reachable.induct)
  case start
  show ?case by (simp add: pool_accounts_def pool_new_def live_bytes_def live_count_def)
qed (rule pool_accounts_step)

lemma try_grow_spill_iff:
  assumes "\<not> poisoned p" "n + additional \<le> usize_MAX"
  shows "snd (pool_try_grow True n additional p) = Inr () \<longleftrightarrow> n + additional \<le> spill_share p"
  using assms by (auto simp: pool_try_grow_def Let_def wrapping_add_def)

lemma try_grow_unspill_iff:
  assumes "\<not> poisoned p" "unspillable p + spillable p \<le> usize_MAX"
  shows "snd (pool_try_grow False n additional p) = Inr () \<longleftrightarrow>
    additional \<le> pool_size p - (unspillable p + spillable p)"
  using assms by (auto simp: pool_try_grow_def Let_def wrapping_add_def saturating_sub_def)

lemma try_grow_failed: "snd (pool_try_grow spill n additional p) \<noteq> Inr () \<Longrightarrow> fst (pool_try_grow spill n additional p) = p"
  by (auto simp: pool_try_grow_def Let_def)

lemma spill_share_fair: "spill_share p * num_spill p \<le> pool_size p - unspillable p"
  by (simp add: spill_share_def Let_def saturating_sub_def)

lemma one_consumer_reachable:
  "pool_reachable 10 (register_consumer True (pool_new 10), [0 \<mapsto> (True, 0)])"
  by (rule pool_reachable.step [OF pool_reachable.start], rule pool_step.register)
    (simp_all add: live_count_def)

section \<open>Properties\<close>

text \<open>
  C24: in every interleaving of registrations, growths, shrinks, releases and resizes by any number of
  reservations, the pool's counters are exactly the live reservations: what \<open>reserved\<close> reports is the sum
  of their sizes and \<open>num_spill\<close> is the number of live spilling consumers. Nothing leaks or is counted
  twice.
\<close>

theorem pool_accounting:
  assumes "pool_reachable n0 (p, rs)"
  shows "reserved p = live_bytes True rs + live_bytes False rs \<and>
    spillable p = live_bytes True rs \<and> num_spill p = live_count rs \<and> 1 \<le> pool_size p"
  using pool_accounts_reachable [OF assms]
  by (auto simp: pool_accounts_def reserved_def wrapping_add_def)

theorem pool_accounting_witness:
  "reserved (fst (pool_try_grow True 0 4 (register_consumer True (pool_new 10)))) =
     live_bytes True [0 \<mapsto> (True, 4)] + live_bytes False [0 \<mapsto> (True, 4)]"
proof -
  have grown: "pool_try_grow True 0 4 (register_consumer True (pool_new 10)) =
      (fst (pool_try_grow True 0 4 (register_consumer True (pool_new 10))), Inr ())"
    by (simp add: pool_try_grow_def register_consumer_def pool_new_def spill_share_def usize_simps)
  have "pool_step (register_consumer True (pool_new 10), [0 \<mapsto> (True, 0)])
      (fst (pool_try_grow True 0 4 (register_consumer True (pool_new 10))),
       [0 \<mapsto> (True, 0)](0 \<mapsto> (True, 0 + 4)))"
    by (rule pool_step.try_grow_ok [OF _ _ grown]) (simp_all add: fits_def live_bytes_def map_sum_def)
  from pool_accounting [OF pool_reachable.step [OF one_consumer_reachable this]] show ?thesis by simp
qed

text \<open>
  a fallible growth is admitted exactly when it is fair. A spilling reservation may grow while its
  size stays within an equal share of what unspillable reservations leave; an unspillable one while
  the whole pool stays within its limit. A refused growth changes nothing.
\<close>

theorem pool_try_grow_fair:
  assumes "pool_reachable n0 (p, rs)" "rs i = Some (spill, n)" "fits rs additional"
  shows "(snd (pool_try_grow spill n additional p) = Inr () \<longleftrightarrow>
      (if spill then (n + additional) * num_spill p \<le> pool_size p - unspillable p
       else reserved p + additional \<le> pool_size p \<or> additional = 0)) \<and>
    (snd (pool_try_grow spill n additional p) \<noteq> Inr () \<longrightarrow>
      fst (pool_try_grow spill n additional p) = p)"
proof -
  have acc: "pool_accounts (p, rs)" by (rule pool_accounts_reachable [OF assms(1)])
  have n: "n \<le> live_bytes spill rs" "finite (dom rs)"
    using acc live_member [of rs i spill n] assms(2) by (auto simp: pool_accounts_def)
  have "n + additional \<le> usize_MAX" using n(1) assms(3) by (cases spill) (auto simp: fits_def)
  moreover have "0 < num_spill p" if spill
    using map_sum_member [OF n(2) assms(2), of "\<lambda>(s, n). if s then 1 else 0"] acc that
    by (simp add: pool_accounts_def live_count_def)
  moreover have "k \<le> spill_share p \<longleftrightarrow> k * num_spill p \<le> pool_size p - unspillable p" if "0 < num_spill p" for k
    using that by (simp add: spill_share_def Let_def saturating_sub_def less_eq_div_iff_mult_less_eq)
  ultimately show ?thesis
    using acc try_grow_spill_iff [of p n additional] try_grow_unspill_iff [of p n additional] try_grow_failed
    by (cases spill) (auto simp: pool_accounts_def reserved_def wrapping_add_def)
qed



text \<open>
  the growth check of a spilling reservation adds without an overflow check: a one-byte reservation
  that asks for \<open>usize::MAX\<close> more bytes wraps around to zero and is admitted.
\<close>

theorem pool_try_grow_wraps:
  "snd (pool_try_grow True 1 usize_MAX (register_consumer True (pool_new 10))) = Inr () \<and>
   spillable (fst (pool_try_grow True 1 usize_MAX (register_consumer True (pool_new 10)))) = usize_MAX"
  by (simp add: pool_try_grow_def register_consumer_def pool_new_def usize_simps)

text \<open>
  C27: the governor splits its pool exactly: after construction and after every resize, distributable
  bytes and read headroom add up to the pool, operators always get at least one byte, and there is
  headroom for spill reads in every pool of more than one byte.
\<close>

theorem governor_splits_pool:
  assumes "g = governor_new n \<or> g = try_resize_pool g0 n"
  shows "distributable g + headroom_bytes g = pool_bytes g \<and> pool_bytes g = max n 1 \<and>
    1 \<le> distributable g \<and> (headroom_bytes g = 0 \<longleftrightarrow> pool_bytes g = 1)"
proof -
  obtain w h where wh: "split_default_read_headroom (max n 1) = (w, h)" by fastforce
  from split_read_headroom_sum [of "max n 1", OF _ wh [unfolded split_default_read_headroom_def]]
  have "w + h = max n 1" "1 \<le> w" "h = 0 \<longleftrightarrow> max n 1 = 1"
    by (simp_all add: DEFAULT_READ_HEADROOM_NUM_def)
  with assms wh show ?thesis by (auto simp: governor_new_def try_resize_pool_def Let_def)
qed

theorem governor_splits_pool_witness:
  "distributable (try_resize_pool (governor_new 8) 100) + headroom_bytes (try_resize_pool (governor_new 8) 100) = 100"
  using governor_splits_pool [of "try_resize_pool (governor_new 8) 100" 100 "governor_new 8"] by simp

end
