(* ===== verification/Spill_Budget.thy ===== *)
theory Spill_Budget
  imports Spill_Pool
begin

text \<open>
  \<open>ByteBudget\<close> and \<open>BytePermit\<close> (\<open>crates/sqe-spill/src/budget.rs\<close>): a byte budget charged in units.

  The tokio \<open>Semaphore\<close> and the DataFusion \<open>MemoryReservation\<close> are code of other packages. The
  operations take them as the parameter \<open>env\<close>: how a semaphore is created, acquired from and released
  to, and how a reservation of a given size is registered and grown over the pool, and dropped. The
  locale \<open>budget_env_laws\<close> states the documented behaviour the budget relies on; it is interpreted with a
  counting semaphore and the reservations of \<open>ResizableFairSpillPool\<close>.
\<close>

section \<open>The environment of a budget\<close>

record ('s, 'r, 'p) budget_env =
  sem_new :: "usize \<Rightarrow> 's"
  sem_try_acquire :: "'s \<Rightarrow> u32 \<Rightarrow> 's option"
  sem_release :: "'s \<Rightarrow> u32 \<Rightarrow> 's"
  res_new :: "'p \<Rightarrow> usize \<Rightarrow> 'r option \<times> 'p"
  res_drop :: "'r \<Rightarrow> 'p \<Rightarrow> 'p"

section \<open>ByteBudget\<close>

definition DEFAULT_BUDGET_GRANULARITY :: usize where
  "DEFAULT_BUDGET_GRANULARITY = 64 * 1024"

datatype budget_error =
    ItemTooLarge string usize usize
  | InsufficientBudget string usize usize usize
  | PoolExhausted string

record ('s, 'p) byte_budget =
  budget_name :: string
  capacity_bytes :: usize
  unit_bytes :: usize
  capacity_units :: u32
  sem :: 's
  used_units :: usize
  budget_pool :: "'p option"

record 'r byte_permit =
  charged_bytes :: usize
  permit_units :: u32
  reservation :: "'r option"

definition units_for :: "usize \<Rightarrow> usize \<Rightarrow> usize" where
  "units_for bytes unit = max (div_ceil bytes unit) 1"

definition rounded_bytes :: "usize \<Rightarrow> usize \<Rightarrow> usize" where
  "rounded_bytes bytes unit = wrapping_mul (units_for bytes unit) unit"

definition with_granularity ::
    "('s, 'r, 'p) budget_env \<Rightarrow> string \<Rightarrow> usize \<Rightarrow> usize \<Rightarrow> 'p option \<Rightarrow> (unit, ('s, 'p) byte_budget) outcome" where
  "with_granularity env name capacity unit pool =
     (if unit = 0 then Panic
      else
        let cap_units = (if capacity = 0 then 0 else of_nat (max (units_for capacity unit) 1)) :: u32;
            aligned_capacity = wrapping_mul (unat cap_units) unit
        in Ok \<lparr>budget_name = name, capacity_bytes = aligned_capacity, unit_bytes = unit, capacity_units = cap_units,
               sem = sem_new env (unat cap_units), used_units = 0, budget_pool = pool\<rparr>)"

definition budget_new ::
    "('s, 'r, 'p) budget_env \<Rightarrow> string \<Rightarrow> usize \<Rightarrow> 'p option \<Rightarrow> (unit, ('s, 'p) byte_budget) outcome" where
  "budget_new env name capacity pool = with_granularity env name capacity DEFAULT_BUDGET_GRANULARITY pool"

definition used_bytes :: "('s, 'p) byte_budget \<Rightarrow> usize" where
  "used_bytes b = wrapping_mul (used_units b) (unit_bytes b)"

definition free_bytes :: "('s, 'p) byte_budget \<Rightarrow> usize" where
  "free_bytes b = saturating_sub (capacity_bytes b) (used_bytes b)"

definition units_required :: "('s, 'p) byte_budget \<Rightarrow> usize \<Rightarrow> budget_error + u32" where
  "units_required b bytes =
     (if bytes = 0 then
        if capacity_units b = 0 then Inl (ItemTooLarge (budget_name b) 0 0) else Inr 1
      else
        let units = of_nat (units_for bytes (unit_bytes b)) :: u32
        in if units > capacity_units b then Inl (ItemTooLarge (budget_name b) bytes (capacity_bytes b)) else Inr units)"

text \<open>
  \<open>finish_acquire\<close> runs with the semaphore units already taken (\<open>s'\<close> is the semaphore after the
  acquisition). On pool failure the reservation and the semaphore permit are dropped.
\<close>

definition finish_acquire ::
    "('s, 'r, 'p) budget_env \<Rightarrow> ('s, 'p) byte_budget \<Rightarrow> u32 \<Rightarrow> 's \<Rightarrow>
     ('s, 'p) byte_budget \<times> (budget_error + 'r byte_permit)" where
  "finish_acquire env b units s' =
     (let charged = wrapping_mul (unat units) (unit_bytes b)
      in case budget_pool b of
           Some pool \<Rightarrow>
             (case res_new env pool charged of
                (None, pool') \<Rightarrow>
                  (b\<lparr>sem := sem_release env s' units, budget_pool := Some pool'\<rparr>, Inl (PoolExhausted (budget_name b)))
              | (Some r, pool') \<Rightarrow>
                  (b\<lparr>sem := s', budget_pool := Some pool',
                     used_units := wrapping_add (used_units b) (unat units)\<rparr>,
                   Inr \<lparr>charged_bytes = charged, permit_units = units, reservation = Some r\<rparr>))
         | None \<Rightarrow>
             (b\<lparr>sem := s', used_units := wrapping_add (used_units b) (unat units)\<rparr>,
              Inr \<lparr>charged_bytes = charged, permit_units = units, reservation = None\<rparr>))"

definition try_acquire ::
    "('s, 'r, 'p) budget_env \<Rightarrow> ('s, 'p) byte_budget \<Rightarrow> usize \<Rightarrow>
     ('s, 'p) byte_budget \<times> (budget_error + 'r byte_permit)" where
  "try_acquire env b bytes =
     (case units_required b bytes of
        Inl e \<Rightarrow> (b, Inl e)
      | Inr units \<Rightarrow>
          (case sem_try_acquire env (sem b) units of
             None \<Rightarrow>
               (b, Inl (InsufficientBudget (budget_name b) (rounded_bytes bytes (unit_bytes b)) (capacity_bytes b) (used_bytes b)))
           | Some s' \<Rightarrow> finish_acquire env b units s'))"

text \<open>
  \<open>acquire\<close> awaits the semaphore: one poll of the future either leaves it pending or completes it. The
  semaphore is never closed, so the \<open>Cancelled\<close> error does not arise.
\<close>

datatype 'a poll = Pending | Ready 'a

definition acquire ::
    "('s, 'r, 'p) budget_env \<Rightarrow> ('s, 'p) byte_budget \<Rightarrow> usize \<Rightarrow>
     ('s, 'p) byte_budget \<times> (budget_error + 'r byte_permit) poll" where
  "acquire env b bytes =
     (case units_required b bytes of
        Inl e \<Rightarrow> (b, Ready (Inl e))
      | Inr units \<Rightarrow>
          (case sem_try_acquire env (sem b) units of
             None \<Rightarrow> (b, Pending)
           | Some s' \<Rightarrow> apsnd Ready (finish_acquire env b units s')))"

definition drop_permit ::
    "('s, 'r, 'p) budget_env \<Rightarrow> 'r byte_permit \<Rightarrow> ('s, 'p) byte_budget \<Rightarrow> ('s, 'p) byte_budget" where
  "drop_permit env permit b =
     (let b = b\<lparr>used_units := wrapping_sub (used_units b) (unat (permit_units permit))\<rparr>;
          b = (case (reservation permit, budget_pool b) of
                 (Some r, Some pool) \<Rightarrow> b\<lparr>budget_pool := Some (res_drop env r pool)\<rparr>
               | _ \<Rightarrow> b)
      in b\<lparr>sem := sem_release env (sem b) (permit_units permit)\<rparr>)"

section \<open>Interleaved use of a budget\<close>

text \<open>
  Any number of tasks acquire and drop permits of one budget; other users of the shared pool may change
  it at any time.
\<close>

type_synonym ('s, 'r, 'p) budget_config = "('s, 'p) byte_budget \<times> (nat \<rightharpoonup> 'r byte_permit)"

inductive budget_step ::
    "('s, 'r, 'p) budget_env \<Rightarrow> ('s, 'r, 'p) budget_config \<Rightarrow> ('s, 'r, 'p) budget_config \<Rightarrow> bool"
  for env where
  try_acquire_ok: "ps i = None \<Longrightarrow> try_acquire env b bytes = (b', Inr permit) \<Longrightarrow>
    budget_step env (b, ps) (b', ps(i \<mapsto> permit))"
| try_acquire_err: "try_acquire env b bytes = (b', Inl e) \<Longrightarrow> budget_step env (b, ps) (b', ps)"
| acquire_ok: "ps i = None \<Longrightarrow> acquire env b bytes = (b', Ready (Inr permit)) \<Longrightarrow>
    budget_step env (b, ps) (b', ps(i \<mapsto> permit))"
| acquire_err: "acquire env b bytes = (b', Ready (Inl e)) \<Longrightarrow> budget_step env (b, ps) (b', ps)"
| acquire_pending: "acquire env b bytes = (b', Pending) \<Longrightarrow> budget_step env (b, ps) (b', ps)"
| drop: "ps i = Some permit \<Longrightarrow> budget_step env (b, ps) (drop_permit env permit b, ps(i := None))"
| pool_change: "budget_pool b = Some p \<Longrightarrow> budget_step env (b, ps) (b\<lparr>budget_pool := Some p'\<rparr>, ps)"

inductive budget_reachable ::
    "('s, 'r, 'p) budget_env \<Rightarrow> ('s, 'p) byte_budget \<Rightarrow> ('s, 'r, 'p) budget_config \<Rightarrow> bool"
  for env b0 where
  start: "budget_reachable env b0 (b0, Map.empty)"
| step: "budget_reachable env b0 c \<Longrightarrow> budget_step env c c' \<Longrightarrow> budget_reachable env b0 c'"

text \<open>Both ways of acquiring either fail without effect or finish on acquired units.\<close>

lemma try_acquire_cases:
  assumes "try_acquire env b bytes = (b', r)"
  obtains (failed) e where "r = Inl e" "b' = b"
  | (finished) units s' where "sem_try_acquire env (sem b) units = Some s'"
      "finish_acquire env b units s' = (b', r)"
  using assms by (auto simp: try_acquire_def split: sum.splits option.splits)

lemma acquire_cases:
  assumes "acquire env b bytes = (b', r)"
  obtains (failed) e where "r = Ready (Inl e)" "b' = b"
  | (pending) "r = Pending" "b' = b"
  | (finished) units s' r' where "sem_try_acquire env (sem b) units = Some s'"
      "finish_acquire env b units s' = (b', r')" "r = Ready r'"
proof (cases "units_required b bytes")
  case (Inl e)
  with assms that(1) show thesis by (auto simp: acquire_def)
next
  case (Inr units)
  show thesis
  proof (cases "sem_try_acquire env (sem b) units")
    case None
    with Inr assms that(2) show thesis by (auto simp: acquire_def)
  next
    case (Some s')
    with Inr assms that(3) show thesis
      by (cases "finish_acquire env b units s'") (auto simp: acquire_def)
  qed
qed

section \<open>The documented behaviour of the environment\<close>

locale budget_env_laws =
  fixes env :: "('s, 'r, 'p) budget_env"
    and available :: "'s \<Rightarrow> nat"
    and pool_inv :: "'p \<Rightarrow> bool"
    and pool_used :: "'p \<Rightarrow> nat"
    and res_bytes :: "'r \<Rightarrow> nat"
  assumes available_new: "available (sem_new env n) = n"
    and acquired: "sem_try_acquire env s u = Some s' \<Longrightarrow>
      unat u \<le> available s \<and> available s' = available s - unat u"
    and not_acquired: "sem_try_acquire env s u = None \<longleftrightarrow> available s < unat u"
    and released: "available (sem_release env s u) = available s + unat u"
    and reserved_new: "pool_inv p \<Longrightarrow> res_new env p n = (Some r, p') \<Longrightarrow>
      pool_inv p' \<and> res_bytes r = n \<and> pool_used p' = pool_used p + n"
    and refused_new: "pool_inv p \<Longrightarrow> res_new env p n = (None, p') \<Longrightarrow>
      pool_inv p' \<and> pool_used p' = pool_used p"
    and dropped: "pool_inv p \<Longrightarrow> res_bytes r \<le> pool_used p \<Longrightarrow>
      pool_inv (res_drop env r p) \<and> pool_used (res_drop env r p) = pool_used p - res_bytes r"
begin

text \<open>Units are conserved: the semaphore holds the capacity that no live permit holds.\<close>

definition units_conserved :: "('s, 'r, 'p) budget_config \<Rightarrow> bool" where
  "units_conserved = (\<lambda>(b, ps).
     finite (dom ps) \<and>
     used_units b = map_sum (\<lambda>permit. unat (permit_units permit)) ps \<and>
     available (sem b) + used_units b = unat (capacity_units b))"

lemma used_le_capacity: "units_conserved (b, ps) \<Longrightarrow> used_units b \<le> unat (capacity_units b)"
  by (auto simp: units_conserved_def)

lemma finish_acquire_conserves:
  assumes "units_conserved (b, ps)" "ps i = None"
    and "sem_try_acquire env (sem b) units = Some s'"
    and "finish_acquire env b units s' = (b', r)"
  shows "case r of
      Inr permit \<Rightarrow> units_conserved (b', ps(i \<mapsto> permit))
    | Inl e \<Rightarrow> units_conserved (b', ps)"
proof -
  have s: "unat units \<le> available (sem b)" "available s' = available (sem b) - unat units"
    using acquired [OF assms(3)] by simp_all
  have "used_units b + unat units < 2 ^ 64"
    using assms(1) s unsigned_less [of "capacity_units b", where ?'a = nat]
    by (auto simp: units_conserved_def)
  then have "wrapping_add (used_units b) (unat units) = used_units b + unat units"
    by (simp add: wrapping_add_def)
  with assms s show ?thesis
    by (auto simp: finish_acquire_def Let_def units_conserved_def released map_sum_insert
        split: option.splits prod.splits)
qed

lemma drop_permit_conserves:
  assumes "units_conserved (b, ps)" "ps i = Some permit"
  shows "units_conserved (drop_permit env permit b, ps(i := None))"
proof -
  have sum: "used_units b = map_sum (\<lambda>permit. unat (permit_units permit)) (ps(i := None)) + unat (permit_units permit)"
    using assms map_sum_delete [of ps i permit "\<lambda>permit. unat (permit_units permit)"]
    by (simp add: units_conserved_def)
  have "used_units b < 2 ^ 64"
    using used_le_capacity [OF assms(1)] unsigned_less [of "capacity_units b", where ?'a = nat] by simp
  then have "wrapping_sub (used_units b) (unat (permit_units permit)) = used_units b - unat (permit_units permit)"
    using sum by (simp add: wrapping_sub_def)
  with assms sum show ?thesis
    by (auto simp: drop_permit_def Let_def units_conserved_def released split: option.splits)
qed

lemma fresh_permit: "units_conserved (b, ps) \<Longrightarrow> \<exists>i. ps i = None"
  using ex_new_if_finite [OF infinite_UNIV_nat, of "dom ps"] by (auto simp: units_conserved_def domIff)

lemma finish_acquire_conserves_err:
  assumes "units_conserved (b, ps)" "sem_try_acquire env (sem b) units = Some s'"
    and "finish_acquire env b units s' = (b', Inl e)"
  shows "units_conserved (b', ps)"
proof -
  obtain i where "ps i = None" using fresh_permit [OF assms(1)] ..
  from finish_acquire_conserves [OF assms(1) this assms(2,3)] show ?thesis by simp
qed

lemma finish_acquire_conserves_ok:
  assumes "units_conserved (b, ps)" "ps i = None" "sem_try_acquire env (sem b) units = Some s'"
    and "finish_acquire env b units s' = (b', Inr permit)"
  shows "units_conserved (b', ps(i \<mapsto> permit))"
  using finish_acquire_conserves [OF assms] by simp

lemma budget_step_conserves: "budget_step env c c' \<Longrightarrow> units_conserved c \<Longrightarrow> units_conserved c'"
proof (induction rule: budget_step.induct)
  case (try_acquire_ok ps i b bytes b' permit)
  from try_acquire_ok(2) show ?case
    by (cases rule: try_acquire_cases) (use try_acquire_ok finish_acquire_conserves_ok in auto)
next
  case (try_acquire_err b bytes b' e ps)
  from try_acquire_err(1) show ?case
    by (cases rule: try_acquire_cases) (use try_acquire_err finish_acquire_conserves_err in auto)
next
  case (acquire_ok ps i b bytes b' permit)
  from acquire_ok(2) show ?case
    by (cases rule: acquire_cases) (use acquire_ok finish_acquire_conserves_ok in auto)
next
  case (acquire_err b bytes b' e ps)
  from acquire_err(1) show ?case
    by (cases rule: acquire_cases) (use acquire_err finish_acquire_conserves_err in auto)
next
  case (acquire_pending b bytes b' ps)
  from acquire_pending(1) show ?case
    by (cases rule: acquire_cases) (use acquire_pending in auto)
next
  case (drop ps i permit b)
  then show ?case by (rule drop_permit_conserves [rotated])
next
  case (pool_change b p ps p')
  then show ?case by (simp add: units_conserved_def)
qed

lemma budget_reachable_conserves:
  assumes "with_granularity env name capacity unit pool = Ok b0" "budget_reachable env b0 c"
  shows "units_conserved c"
  using assms(2)
proof (induction rule: budget_reachable.induct)
  case start
  show ?case using assms(1)
    by (auto simp: with_granularity_def units_conserved_def available_new Let_def split: if_splits)
qed (rule budget_step_conserves)

text \<open>Charging and releasing a permit, and failing to charge one, over the pool.\<close>

lemma try_acquire_effect:
  assumes "try_acquire env b bytes = (b', r)" "units_conserved (b, ps)"
    and "budget_pool b = Some p" "pool_inv p"
  shows "case r of
      Inr permit \<Rightarrow> (\<exists>p'. budget_pool b' = Some p' \<and> pool_inv p' \<and>
        pool_used p' = pool_used p + charged_bytes permit \<and>
        used_units b' = used_units b + unat (permit_units permit) \<and>
        available (sem b') + unat (permit_units permit) = available (sem b) \<and>
        (\<exists>q. reservation permit = Some q \<and> res_bytes q = charged_bytes permit))
    | Inl e \<Rightarrow> (\<exists>p'. budget_pool b' = Some p' \<and> pool_inv p' \<and> pool_used p' = pool_used p) \<and>
        used_units b' = used_units b \<and> available (sem b') = available (sem b)"
  using assms(1)
proof (cases rule: try_acquire_cases)
  case (failed e)
  with assms show ?thesis by simp
next
  case (finished units s')
  have s: "unat units \<le> available (sem b)" "available s' = available (sem b) - unat units"
    using acquired [OF finished(1)] by simp_all
  have "used_units b + unat units < 2 ^ 64"
    using assms(2) s unsigned_less [of "capacity_units b", where ?'a = nat]
    by (auto simp: units_conserved_def)
  then have add: "wrapping_add (used_units b) (unat units) = used_units b + unat units"
    by (simp add: wrapping_add_def)
  obtain res p' where new: "res_new env p (wrapping_mul (unat units) (unit_bytes b)) = (res, p')"
    by (cases "res_new env p (wrapping_mul (unat units) (unit_bytes b))")
  show ?thesis
  proof (cases res)
    case None
    with new refused_new [OF assms(4)] finished(2) assms(3) s show ?thesis
      by (auto simp: finish_acquire_def Let_def released)
  next
    case (Some q)
    with new reserved_new [OF assms(4)] finished(2) assms(3) s add show ?thesis
      by (auto simp: finish_acquire_def Let_def)
  qed
qed

lemma drop_restores:
  assumes "try_acquire env b bytes = (b', Inr permit)" "units_conserved (b, ps)"
    and "budget_pool b = Some p" "pool_inv p"
  shows "used_units (drop_permit env permit b') = used_units b \<and>
    available (sem (drop_permit env permit b')) = available (sem b) \<and>
    (\<exists>p''. budget_pool (drop_permit env permit b') = Some p'' \<and> pool_inv p'' \<and> pool_used p'' = pool_used p)"
proof -
  from try_acquire_effect [OF assms] obtain p' q where e: "budget_pool b' = Some p'" "pool_inv p'"
      "pool_used p' = pool_used p + charged_bytes permit"
      "used_units b' = used_units b + unat (permit_units permit)"
      "available (sem b') + unat (permit_units permit) = available (sem b)"
      "reservation permit = Some q" "res_bytes q = charged_bytes permit"
    by auto
  have "used_units b + unat (permit_units permit) < 2 ^ 64"
    using assms(2) e(5) unsigned_less [of "capacity_units b", where ?'a = nat]
    by (auto simp: units_conserved_def)
  with e dropped [OF e(2), of q] show ?thesis
    by (simp add: drop_permit_def released wrapping_sub_def)
qed

end

section \<open>The budget over the worker's pool\<close>

text \<open>
  A counting semaphore, and the reservations a DataFusion consumer that cannot spill takes from
  \<open>ResizableFairSpillPool\<close>: register, then grow by the charge or unregister again; on drop, shrink to
  zero and unregister.
\<close>

definition fair_env :: "(nat, usize, resizable_fair_spill_pool) budget_env" where
  "fair_env = \<lparr>
     sem_new = (\<lambda>n. n),
     sem_try_acquire = (\<lambda>s u. if unat u \<le> s then Some (s - unat u) else None),
     sem_release = (\<lambda>s u. s + unat u),
     res_new = (\<lambda>p n.
       case pool_try_grow False 0 n (register_consumer False p) of
         (p', Inr _) \<Rightarrow> (Some n, p')
       | (p', Inl _) \<Rightarrow> (None, unregister_consumer False p')),
     res_drop = (\<lambda>n p. unregister_consumer False (pool_shrink False n p))\<rparr>"

definition pool_sound :: "resizable_fair_spill_pool \<Rightarrow> bool" where
  "pool_sound p \<longleftrightarrow> \<not> poisoned p \<and> pool_size p \<le> usize_MAX \<and> unspillable p + spillable p \<le> usize_MAX"

interpretation fair: budget_env_laws fair_env "\<lambda>s. s" pool_sound unspillable "\<lambda>n. n"
proof
  show "sem_try_acquire fair_env s u = Some s' \<Longrightarrow> unat u \<le> s \<and> s' = s - unat u" for s s' u
    by (auto simp: fair_env_def split: if_splits)
  show "sem_try_acquire fair_env s u = None \<longleftrightarrow> s < unat u" for s u
    by (auto simp: fair_env_def)
  show "pool_sound p \<Longrightarrow> res_new fair_env p n = (Some r, p') \<Longrightarrow>
      pool_sound p' \<and> r = n \<and> unspillable p' = unspillable p + n" for p n r p'
    by (auto simp: fair_env_def pool_sound_def pool_try_grow_def register_consumer_def Let_def
        usize_simps split: if_splits)
  show "pool_sound p \<Longrightarrow> res_new fair_env p n = (None, p') \<Longrightarrow>
      pool_sound p' \<and> unspillable p' = unspillable p" for p n p'
    by (auto simp: fair_env_def pool_sound_def pool_try_grow_def register_consumer_def
        unregister_consumer_def Let_def usize_simps split: if_splits)
  show "pool_sound p \<Longrightarrow> r \<le> unspillable p \<Longrightarrow> pool_sound (res_drop fair_env r p) \<and>
      unspillable (res_drop fair_env r p) = unspillable p - r" for p r
    by (auto simp: fair_env_def pool_sound_def pool_shrink_def unregister_consumer_def saturating_sub_def)
qed (simp_all add: fair_env_def)

section \<open>Capacity\<close>

definition same_limits :: "('s, 'p) byte_budget \<Rightarrow> ('s, 'p) byte_budget \<Rightarrow> bool" where
  "same_limits b b' \<longleftrightarrow> capacity_bytes b' = capacity_bytes b \<and> unit_bytes b' = unit_bytes b \<and>
     capacity_units b' = capacity_units b"

lemma finish_acquire_limits: "finish_acquire env b units s' = (b', r) \<Longrightarrow> same_limits b b'"
  by (auto simp: finish_acquire_def same_limits_def Let_def split: option.splits prod.splits)

lemma try_acquire_limits: "try_acquire env b bytes = (b', r) \<Longrightarrow> same_limits b b'"
  by (elim try_acquire_cases) (simp_all add: finish_acquire_limits, simp add: same_limits_def)

lemma acquire_limits: "acquire env b bytes = (b', r) \<Longrightarrow> same_limits b b'"
  by (elim acquire_cases) (simp_all add: finish_acquire_limits, simp_all add: same_limits_def)

lemma drop_permit_limits: "same_limits b (drop_permit env permit b)"
  by (simp add: drop_permit_def same_limits_def Let_def split: option.splits)

lemma budget_step_limits: "budget_step env c c' \<Longrightarrow> same_limits (fst c) (fst c')"
  by (induction rule: budget_step.induct)
    (auto intro: try_acquire_limits acquire_limits drop_permit_limits, simp add: same_limits_def)

lemma budget_reachable_limits: "budget_reachable env b0 c \<Longrightarrow> same_limits b0 (fst c)"
proof (induction rule: budget_reachable.induct)
  case start
  show ?case by (simp add: same_limits_def)
next
  case (step c c')
  with budget_step_limits [of env c c'] show ?case by (simp add: same_limits_def)
qed

lemma units_for_bounds:
  assumes "0 < unit"
  shows "bytes \<le> units_for bytes unit * unit" and "units_for bytes unit * unit < bytes + unit + (if bytes = 0 then 1 else 0)"
proof -
  have "0 < bytes \<Longrightarrow> units_for bytes unit = div_ceil bytes unit"
    using div_ceil_pos [of bytes unit] assms by (simp add: units_for_def)
  moreover have "units_for 0 unit = 1" by (simp add: units_for_def div_ceil_def)
  ultimately show "bytes \<le> units_for bytes unit * unit"
    and "units_for bytes unit * unit < bytes + unit + (if bytes = 0 then 1 else 0)"
    using div_ceil_bounds [OF assms, of bytes] by (cases "bytes = 0"; simp)+
qed

lemma unat_of_nat_le: "unat (of_nat n :: u32) \<le> n"
  by (simp add: unat_of_nat take_bit_nat_less_eq_self)

lemma capacity_exact:
  assumes "with_granularity env name capacity unit pool = Ok b0" "capacity + unit \<le> usize_MAX"
  shows "capacity_bytes b0 = unat (capacity_units b0) * unit_bytes b0" "capacity_bytes b0 \<le> usize_MAX"
proof -
  have unit: "0 < unit" and b0: "unit_bytes b0 = unit"
      "capacity_units b0 = (if capacity = 0 then 0 else of_nat (units_for capacity unit))"
      "capacity_bytes b0 = wrapping_mul (unat (capacity_units b0)) unit"
    using assms(1) by (auto simp: with_granularity_def units_for_def max_def Let_def split: if_splits)
  have "unat (capacity_units b0) \<le> units_for capacity unit"
    unfolding b0 by (simp add: unat_of_nat_le)
  then have le: "unat (capacity_units b0) * unit \<le> units_for capacity unit * unit"
    by (rule mult_le_mono1)
  have "unat (capacity_units b0) * unit \<le> usize_MAX"
  proof (cases "capacity = 0")
    case True
    then show ?thesis by (simp add: b0(2))
  next
    case False
    with units_for_bounds(2) [OF unit, of capacity]
    have "units_for capacity unit * unit < capacity + unit" by simp
    with assms(2) have "units_for capacity unit * unit \<le> usize_MAX" by linarith
    with le show ?thesis by (rule le_trans)
  qed
  then show "capacity_bytes b0 = unat (capacity_units b0) * unit_bytes b0" "capacity_bytes b0 \<le> usize_MAX"
    unfolding b0 by (simp_all add: wrapping_mul_def)
qed

section \<open>Properties\<close>

text \<open>
  C23: a budget is never overdrawn. In every interleaving of blocking and non-blocking acquisitions and
  permit drops by any number of tasks, with other users changing the shared pool at any time, the bytes
  in use are exactly the units of the live permits and never exceed the capacity of the budget.
\<close>

theorem budget_never_overdrawn:
  assumes "budget_env_laws env available pool_inv pool_used res_bytes"
    and "with_granularity env name capacity unit pool = Ok b0" "capacity + unit \<le> usize_MAX"
    and "budget_reachable env b0 (b, permits)"
  shows "used_units b = map_sum (\<lambda>permit. unat (permit_units permit)) permits \<and>
    used_bytes b = used_units b * unit_bytes b \<and> used_bytes b \<le> capacity_bytes b \<and>
    capacity_bytes b = capacity_bytes b0"
proof -
  note c = budget_env_laws.budget_reachable_conserves [OF assms(1,2,4)]
  have used: "used_units b \<le> unat (capacity_units b)"
    by (rule budget_env_laws.used_le_capacity [OF assms(1) c])
  have lim: "capacity_bytes b = capacity_bytes b0" "unit_bytes b = unit_bytes b0" "capacity_units b = capacity_units b0"
    using budget_reachable_limits [OF assms(4)] by (simp_all add: same_limits_def)
  have "used_units b * unit_bytes b \<le> unat (capacity_units b0) * unit_bytes b0"
    using used lim by simp
  with capacity_exact [OF assms(2,3)] have "used_units b * unit_bytes b \<le> capacity_bytes b0" "used_units b * unit_bytes b < 2 ^ 64"
    by auto
  with c lim show ?thesis
    by (simp add: used_bytes_def wrapping_mul_def budget_env_laws.units_conserved_def [OF assms(1)])
qed

text \<open>A budget of two 10-byte units over a 100-byte pool, with one permit out.\<close>

definition small_budget :: "(nat, resizable_fair_spill_pool) byte_budget" where
  "small_budget =
     \<lparr>budget_name = ''scan'', capacity_bytes = 20, unit_bytes = 10, capacity_units = 2, sem = 2,
      used_units = 0, budget_pool = Some (pool_new 100)\<rparr>"

lemma small_budget_new: "with_granularity fair_env ''scan'' 15 10 (Some (pool_new 100)) = Ok small_budget"
  by (simp add: with_granularity_def small_budget_def units_for_def div_ceil_def fair_env_def wrapping_mul_def)

lemma small_budget_acquire:
  "try_acquire fair_env small_budget 3 =
     (small_budget\<lparr>sem := 1, used_units := 1, budget_pool := Some ((pool_new 100)\<lparr>unspillable := 10\<rparr>)\<rparr>,
      Inr \<lparr>charged_bytes = 10, permit_units = 1, reservation = Some 10\<rparr>)"
  by (simp add: try_acquire_def finish_acquire_def units_required_def units_for_def div_ceil_def
      small_budget_def fair_env_def pool_new_def register_consumer_def pool_try_grow_def usize_simps)

lemma small_budget_reachable:
  "budget_reachable fair_env small_budget
     (small_budget\<lparr>sem := 1, used_units := 1, budget_pool := Some ((pool_new 100)\<lparr>unspillable := 10\<rparr>)\<rparr>,
      [0 \<mapsto> \<lparr>charged_bytes = 10, permit_units = 1, reservation = Some 10\<rparr>])"
  by (rule budget_reachable.step [OF budget_reachable.start],
      rule budget_step.try_acquire_ok [OF _ small_budget_acquire]) simp

theorem budget_never_overdrawn_witness:
  "used_bytes (small_budget\<lparr>sem := 1, used_units := 1, budget_pool := Some ((pool_new 100)\<lparr>unspillable := 10\<rparr>)\<rparr>)
     \<le> capacity_bytes small_budget"
proof -
  have "15 + 10 \<le> usize_MAX" by simp
  from budget_never_overdrawn [OF fair.budget_env_laws_axioms small_budget_new this small_budget_reachable]
  show ?thesis by (elim conjE) linarith
qed



text \<open>
  acquiring and dropping is neutral, and failing is free. Dropping a permit right after a successful
  acquisition restores the units in use, the free units and the bytes used in the pool; a failed
  acquisition (too large, no capacity, or refused by the pool after units were taken) leaves all three
  as they were.
\<close>

theorem permit_drop_restores:
  assumes "budget_env_laws env available pool_inv pool_used res_bytes"
    and "with_granularity env name capacity unit pool = Ok b0" "budget_reachable env b0 (b, permits)"
    and "budget_pool b = Some p" "pool_inv p" "try_acquire env b bytes = (b', r)"
  shows "(let b'' = (case r of Inr permit \<Rightarrow> drop_permit env permit b' | Inl e \<Rightarrow> b')
    in used_units b'' = used_units b \<and> available (sem b'') = available (sem b) \<and>
       (\<exists>p'. budget_pool b'' = Some p' \<and> pool_inv p' \<and> pool_used p' = pool_used p))"
proof -
  note c = budget_env_laws.budget_reachable_conserves [OF assms(1,2,3)]
  show ?thesis
  proof (cases r)
    case (Inl e)
    with budget_env_laws.try_acquire_effect [OF assms(1,6) c assms(4,5)] show ?thesis by simp
  next
    case (Inr permit)
    with budget_env_laws.drop_restores [OF assms(1) _ c assms(4,5), of bytes b' permit] assms(6)
    show ?thesis by simp
  qed
qed

text \<open>
  unit counts are truncated to 32 bits before the capacity check. A request of \<open>2 ^ 32 + 1\<close> units
  (here \<open>2 ^ 48 + 1\<close> bytes at the default granularity) on a budget of a single unit is not refused as too
  large: it is granted for the charge of one unit.
\<close>

theorem oversized_request_truncated:
  "\<exists>b b' permit. with_granularity fair_env ''scan'' 65536 DEFAULT_BUDGET_GRANULARITY None = Ok b \<and>
     try_acquire fair_env b (2 ^ 48 + 1) = (b', Inr permit) \<and> charged_bytes permit = 65536"
  by (simp add: with_granularity_def DEFAULT_BUDGET_GRANULARITY_def units_for_def div_ceil_def fair_env_def
      try_acquire_def finish_acquire_def units_required_def usize_simps)

end
