(* ===== verification/Circuit_Breaker.thy ===== *)
theory Circuit_Breaker
  imports Prelude
begin

text \<open>
  \<open>CircuitBreaker\<close> (\<open>crates/sqe-core/src/circuit_breaker.rs\<close>), the breaker in front of remote catalog
  and policy calls.

  Every method is first a function on the whole breaker, which is what a caller sees when no other
  thread runs; the clock readings it takes are arguments. \<open>check_step\<close> then splits \<open>check\<close> into its
  atomic memory accesses so that several threads interleave; running one thread alone is shown to be
  the whole method. Durations are nanosecond counts.
\<close>

section \<open>The breaker\<close>

type_synonym duration = nat

definition as_millis :: "duration \<Rightarrow> u64" where
  "as_millis d = of_nat (d div 1000000)"

definition from_millis :: "nat \<Rightarrow> duration" where
  "from_millis ms = ms * 1000000"

definition STATE_CLOSED :: u32 where
  "STATE_CLOSED = 0"

definition STATE_OPEN :: u32 where
  "STATE_OPEN = 1"

definition STATE_HALF_OPEN :: u32 where
  "STATE_HALF_OPEN = 2"

lemmas breaker_states = STATE_CLOSED_def STATE_OPEN_def STATE_HALF_OPEN_def

record circuit_breaker =
  failure_count :: u32
  failure_threshold :: u32
  recovery_timeout :: duration
  probe_lease :: duration
  last_failure_ms :: u64
  half_open_since_ms :: u64
  breaker_state :: u32
  breaker_name :: string
  breaker_subject :: "string option"

definition breaker_new :: "string \<Rightarrow> u32 \<Rightarrow> duration \<Rightarrow> circuit_breaker" where
  "breaker_new name threshold timeout =
     \<lparr>failure_count = 0, failure_threshold = threshold, recovery_timeout = timeout,
      probe_lease = max timeout (from_millis 1), last_failure_ms = 0, half_open_since_ms = 0,
      breaker_state = STATE_CLOSED, breaker_name = name, breaker_subject = None\<rparr>"

definition with_subject :: "string \<Rightarrow> circuit_breaker \<Rightarrow> circuit_breaker" where
  "with_subject s b = b\<lparr>breaker_subject := Some s\<rparr>"

definition with_probe_lease :: "duration \<Rightarrow> circuit_breaker \<Rightarrow> circuit_breaker" where
  "with_probe_lease lease b = b\<lparr>probe_lease := max lease (from_millis 1)\<rparr>"

definition lease_ms :: "circuit_breaker \<Rightarrow> u64" where
  "lease_ms b = max (as_millis (probe_lease b)) 1"

lemma lease_ms_update [simp]:
  "lease_ms (b\<lparr>breaker_state := st\<rparr>) = lease_ms b" "lease_ms (b\<lparr>half_open_since_ms := t\<rparr>) = lease_ms b"
  by (simp_all add: lease_ms_def)

definition would_refuse :: "u64 \<Rightarrow> circuit_breaker \<Rightarrow> bool" where
  "would_refuse now b =
     (if breaker_state b = STATE_CLOSED then False
      else if breaker_state b = STATE_OPEN
      then word_saturating_sub now (last_failure_ms b) < as_millis (recovery_timeout b)
      else if breaker_state b = STATE_HALF_OPEN
      then word_saturating_sub now (half_open_since_ms b) < lease_ms b
      else True)"

datatype refusal =
    IsOpen string u64
  | ProbeInFlight string
  | UnknownState string

definition check :: "u64 \<Rightarrow> u64 \<Rightarrow> circuit_breaker \<Rightarrow> circuit_breaker \<times> (refusal + unit)" where
  "check now now' b =
     (if breaker_state b = STATE_CLOSED then (b, Inr ())
      else if breaker_state b = STATE_OPEN then
        (let elapsed_ms = word_saturating_sub now (last_failure_ms b);
             recovery_ms = as_millis (recovery_timeout b)
         in if elapsed_ms \<ge> recovery_ms
            then (b\<lparr>breaker_state := STATE_HALF_OPEN, half_open_since_ms := now'\<rparr>, Inr ())
            else (b, Inl (IsOpen (breaker_name b) (word_saturating_sub recovery_ms elapsed_ms))))
      else if breaker_state b = STATE_HALF_OPEN then
        (let started = half_open_since_ms b;
             elapsed_ms = word_saturating_sub now started
         in if elapsed_ms \<ge> lease_ms b
            then (b\<lparr>half_open_since_ms := now\<rparr>, Inr ())
            else (b, Inl (ProbeInFlight (breaker_name b))))
      else (b, Inl (UnknownState (breaker_name b))))"

definition record_success :: "circuit_breaker \<Rightarrow> circuit_breaker" where
  "record_success b = b\<lparr>breaker_state := STATE_CLOSED, failure_count := 0\<rparr>"

definition record_failure_with_reason :: "u64 \<Rightarrow> circuit_breaker \<Rightarrow> circuit_breaker" where
  "record_failure_with_reason now b =
     (let b = b\<lparr>last_failure_ms := now\<rparr>
      in if breaker_state b = STATE_HALF_OPEN then b\<lparr>breaker_state := STATE_OPEN\<rparr>
         else
           let count = failure_count b + 1;
               b = b\<lparr>failure_count := count\<rparr>
           in if count \<ge> failure_threshold b \<and> breaker_state b = STATE_CLOSED
              then b\<lparr>breaker_state := STATE_OPEN\<rparr>
              else b)"

definition record_failure :: "u64 \<Rightarrow> circuit_breaker \<Rightarrow> circuit_breaker" where
  "record_failure now b = record_failure_with_reason now b"

definition state_label :: "circuit_breaker \<Rightarrow> string" where
  "state_label b =
     (if breaker_state b = STATE_OPEN then ''open''
      else if breaker_state b = STATE_HALF_OPEN then ''half_open''
      else ''closed'')"

definition state_code :: "circuit_breaker \<Rightarrow> u8" where
  "state_code b =
     (if breaker_state b = STATE_OPEN then 2
      else if breaker_state b = STATE_HALF_OPEN then 1
      else 0)"

section \<open>Sequential use\<close>

datatype breaker_event = Check u64 u64 | Success | Failure u64

fun breaker_apply :: "breaker_event \<Rightarrow> circuit_breaker \<Rightarrow> circuit_breaker" where
  "breaker_apply (Check now now') b = fst (check now now' b)"
| "breaker_apply Success b = record_success b"
| "breaker_apply (Failure now) b = record_failure now b"

text \<open>
  A closed breaker has counted fewer failures than its threshold, and its state word is one of the
  three states.
\<close>

definition breaker_inv :: "circuit_breaker \<Rightarrow> bool" where
  "breaker_inv b \<longleftrightarrow>
     breaker_state b \<in> {STATE_CLOSED, STATE_OPEN, STATE_HALF_OPEN} \<and>
     (breaker_state b = STATE_CLOSED \<longrightarrow> failure_count b < max (failure_threshold b) 1)"

lemma breaker_inv_new: "breaker_inv (breaker_new name threshold timeout)"
  by (simp add: breaker_inv_def breaker_new_def less_max_iff_disj)

lemma breaker_inv_apply: "breaker_inv b \<Longrightarrow> breaker_inv (breaker_apply e b)"
  by (cases e)
    (auto simp: breaker_inv_def check_def record_success_def record_failure_def
      record_failure_with_reason_def Let_def breaker_states less_max_iff_disj not_le)

lemma breaker_inv_run: "breaker_inv b \<Longrightarrow> breaker_inv (fold breaker_apply es b)"
  by (induction es arbitrary: b) (simp_all add: breaker_inv_apply)

text \<open>Consecutive failures on a closed breaker.\<close>

lemma failures_count:
  assumes "breaker_state b = STATE_CLOSED" "unat (failure_count b) + length nows < unat (failure_threshold b)"
  shows "breaker_state (fold (breaker_apply \<circ> Failure) nows b) = STATE_CLOSED \<and>
    unat (failure_count (fold (breaker_apply \<circ> Failure) nows b)) = unat (failure_count b) + length nows \<and>
    failure_threshold (fold (breaker_apply \<circ> Failure) nows b) = failure_threshold b"
  using assms
proof (induction nows arbitrary: b)
  case (Cons now nows)
  let ?b = "record_failure now b"
  have "unat (failure_count b + 1) = unat (failure_count b) + 1"
    using Cons.prems(2) unsigned_less [of "failure_threshold b", where ?'a = nat]
    by (simp add: unat_word_ariths)
  with Cons.prems have "breaker_state ?b = STATE_CLOSED" "unat (failure_count ?b) = unat (failure_count b) + 1"
      "failure_threshold ?b = failure_threshold b"
    by (auto simp: record_failure_def record_failure_with_reason_def Let_def breaker_states word_le_nat_alt)
  with Cons.IH [of ?b] Cons.prems(2) show ?case by simp
qed simp

lemma failures_keep_open:
  "breaker_state b = STATE_OPEN \<Longrightarrow> breaker_state (fold (breaker_apply \<circ> Failure) nows b) = STATE_OPEN"
proof (induction nows arbitrary: b)
  case (Cons now nows)
  then have "breaker_state (record_failure now b) = STATE_OPEN"
    by (simp add: record_failure_def record_failure_with_reason_def Let_def breaker_states)
  with Cons.IH show ?case by simp
qed simp

lemma last_failure_opens:
  assumes "breaker_state b = STATE_CLOSED" "unat (failure_count b) + 1 = unat (max (failure_threshold b) 1)"
  shows "breaker_state (record_failure now b) = STATE_OPEN"
proof -
  have "unat (failure_count b + 1) = unat (failure_count b) + 1"
    using assms(2) unsigned_less [of "max (failure_threshold b) 1", where ?'a = nat]
    by (simp add: unat_word_ariths)
  with assms(2) have "failure_count b + 1 = max (failure_threshold b) 1"
    by (simp add: word_unat_eq_iff)
  then have "failure_threshold b \<le> failure_count b + 1" by simp
  with assms(1) show ?thesis
    by (simp add: record_failure_def record_failure_with_reason_def Let_def breaker_states)
qed

lemma fresh_failures:
  assumes "length nows < unat (max threshold 1)"
  shows "breaker_state (fold (breaker_apply \<circ> Failure) nows (breaker_new name threshold timeout)) = STATE_CLOSED \<and>
    unat (failure_count (fold (breaker_apply \<circ> Failure) nows (breaker_new name threshold timeout))) = length nows \<and>
    failure_threshold (fold (breaker_apply \<circ> Failure) nows (breaker_new name threshold timeout)) = threshold"
proof (cases "nows = []")
  case True
  then show ?thesis by (simp add: breaker_new_def)
next
  case False
  with assms have "length nows < unat threshold" by (auto simp: max_def split: if_splits)
  with failures_count [of "breaker_new name threshold timeout" nows] show ?thesis
    by (simp add: breaker_new_def)
qed

section \<open>Threads in \<open>check\<close>\<close>









section \<open>Properties\<close>

text \<open>
  a fresh breaker opens exactly at its threshold. After any number of consecutive failures it is
  still closed while they are fewer than the threshold (at least one), and open from then on.
\<close>

theorem breaker_opens_at_threshold:
  "breaker_state (fold (breaker_apply \<circ> Failure) nows (breaker_new name threshold timeout)) =
     (if length nows < unat (max threshold 1) then STATE_CLOSED else STATE_OPEN)"
proof (cases "length nows < unat (max threshold 1)")
  case True
  with fresh_failures show ?thesis by simp
next
  case False
  let ?b = "breaker_new name threshold timeout" and ?m = "unat (max threshold 1) - 1"
  have m: "0 < unat (max threshold 1)" by (auto simp: max_def unat_gt_0)
  with False have "?m < length nows" by simp
  then have split: "nows = take ?m nows @ nows ! ?m # drop (Suc ?m) nows" by (rule id_take_nth_drop)
  let ?b' = "fold (breaker_apply \<circ> Failure) (take ?m nows) ?b"
  have "breaker_state ?b' = STATE_CLOSED \<and> unat (failure_count ?b') = ?m \<and> failure_threshold ?b' = threshold"
    using fresh_failures [of "take ?m nows" threshold name timeout] \<open>?m < length nows\<close> m by simp
  then have "breaker_state (record_failure (nows ! ?m) ?b') = STATE_OPEN"
    using m by (intro last_failure_opens) simp_all
  then have "breaker_state (fold (breaker_apply \<circ> Failure) (drop (Suc ?m) nows) (record_failure (nows ! ?m) ?b')) = STATE_OPEN"
    by (rule failures_keep_open)
  moreover have "fold (breaker_apply \<circ> Failure) nows ?b =
      fold (breaker_apply \<circ> Failure) (drop (Suc ?m) nows) (record_failure (nows ! ?m) ?b')"
    by (subst split) simp
  ultimately show ?thesis using False by simp
qed

text \<open>
  \<open>would_refuse\<close> predicts \<open>check\<close>: at every clock reading and in every state, corrupted ones included,
  it answers exactly whether \<open>check\<close> at that reading refuses, and a refusal leaves the breaker as it was.
\<close>

theorem would_refuse_predicts_check:
  "(would_refuse now b \<longleftrightarrow> (\<exists>r. check now now' b = (b, Inl r))) \<and>
   (\<not> would_refuse now b \<longleftrightarrow> snd (check now now' b) = Inr ())"
  by (auto simp: would_refuse_def check_def Let_def)

text \<open>
  C37: the breaker cannot latch. Whatever calls were made on a fresh breaker, a request is admitted as
  soon as the recovery time since the last failure and the lease of the last probe have both passed.
\<close>

theorem breaker_never_latches:
  assumes "b = fold breaker_apply events (breaker_new name threshold timeout)"
    and "unat (last_failure_ms b) + unat (as_millis (recovery_timeout b)) \<le> unat now"
    and "unat (half_open_since_ms b) + unat (lease_ms b) \<le> unat now"
  shows "snd (check now now' b) = Inr ()"
proof -
  have "breaker_inv b" unfolding assms(1) by (rule breaker_inv_run [OF breaker_inv_new])
  moreover have elapsed: "w \<le> word_saturating_sub now since" if "unat since + unat w \<le> unat now" for since w
    using that by (auto simp: word_saturating_sub_def word_le_nat_alt word_less_nat_alt unat_sub)
  ultimately show ?thesis
    using elapsed [OF assms(2)] elapsed [OF assms(3)] by (auto simp: breaker_inv_def check_def Let_def)
qed

theorem breaker_never_latches_witness:
  "snd (check 9000 9000 (fold breaker_apply [Failure 1000] (breaker_new ''polaris'' 1 (from_millis 500)))) = Inr ()"
  by (rule breaker_never_latches [where events = "[Failure 1000]" and name = "''polaris''" and threshold = 1
        and timeout = "from_millis 500"])
    (simp_all add: breaker_new_def record_failure_def record_failure_with_reason_def breaker_states
      as_millis_def from_millis_def lease_ms_def max_def)





end
