(* ===== verification/Sqe_Error.thy ===== *)
theory Sqe_Error
  imports Prelude "HOL-Library.Sublist"
begin

text \<open>
  The engine's error type (\<open>crates/sqe-core/src/error.rs\<close>): the variants of \<open>SqeError\<close>, the structured
  codes every protocol maps them to, the classifiers that read a code out of an error text, and the
  message a client is shown.

  Texts are lists of ASCII characters. An underlying cause is the list of the links of its source
  chain, outermost first: the kind of I/O error a link is, if it is one, and its text. The errors of
  DataFusion appear as the variants that the code tells apart, and their texts and causes are arguments.
\<close>

section \<open>Strings\<close>

definition ascii_upper :: "char \<Rightarrow> bool" where
  "ascii_upper c = (65 \<le> (of_char c :: nat) \<and> of_char c \<le> (90 :: nat))"

definition ascii_alphanumeric :: "char \<Rightarrow> bool" where
  "ascii_alphanumeric c = (let n = (of_char c :: nat)
     in (48 \<le> n \<and> n \<le> 57) \<or> (65 \<le> n \<and> n \<le> 90) \<or> (97 \<le> n \<and> n \<le> 122))"

definition ascii_whitespace :: "char \<Rightarrow> bool" where
  "ascii_whitespace c = (let n = (of_char c :: nat) in n = 32 \<or> (9 \<le> n \<and> n \<le> 13))"

definition to_lowercase :: "string \<Rightarrow> string" where
  "to_lowercase = map (\<lambda>c. if ascii_upper c then char_of (of_char c + 32 :: nat) else c)"

definition trim :: "string \<Rightarrow> string" where
  "trim s = rev (dropWhile ascii_whitespace (rev (dropWhile ascii_whitespace s)))"

abbreviation contains :: "string \<Rightarrow> string \<Rightarrow> bool" where
  "contains s p \<equiv> sublist p s"

abbreviation starts_with :: "string \<Rightarrow> string \<Rightarrow> bool" where
  "starts_with s p \<equiv> prefix p s"

definition strip_prefix :: "string \<Rightarrow> string \<Rightarrow> string option" where
  "strip_prefix s p = (if starts_with s p then Some (drop (length p) s) else None)"

text \<open>\<open>str::find\<close>: the position of the first occurrence.\<close>

fun find_str :: "string \<Rightarrow> string \<Rightarrow> nat option" where
  "find_str p s = (if starts_with s p then Some 0
     else case s of [] \<Rightarrow> None | c # s' \<Rightarrow> map_option Suc (find_str p s'))"

declare find_str.simps [simp del]

text \<open>\<open>[String]::join\<close>.\<close>

fun join :: "string \<Rightarrow> string list \<Rightarrow> string" where
  "join sep [] = []"
| "join sep [x] = x"
| "join sep (x # y # xs) = x @ sep @ join sep (y # xs)"

section \<open>Errors and their codes\<close>

datatype catalog_op =
    LoadTable | CreateTable | DropTable | RenameTable | ListTables | ListNamespaces
  | CreateNamespace | DropNamespace | LoadView | CreateView | DropView | CommitOp | OtherOp

fun catalog_op_name :: "catalog_op \<Rightarrow> string" where
  "catalog_op_name LoadTable = ''load_table''"
| "catalog_op_name CreateTable = ''create_table''"
| "catalog_op_name DropTable = ''drop_table''"
| "catalog_op_name RenameTable = ''rename_table''"
| "catalog_op_name ListTables = ''list_tables''"
| "catalog_op_name ListNamespaces = ''list_namespaces''"
| "catalog_op_name CreateNamespace = ''create_namespace''"
| "catalog_op_name DropNamespace = ''drop_namespace''"
| "catalog_op_name LoadView = ''load_view''"
| "catalog_op_name CreateView = ''create_view''"
| "catalog_op_name DropView = ''drop_view''"
| "catalog_op_name CommitOp = ''commit''"
| "catalog_op_name OtherOp = ''other''"

datatype sqe_error_code =
    SyntaxError | ParseError | SemanticError | TypeMismatch
  | TableNotFound | ColumnNotFound | SchemaNotFound | CatalogNotFound | ViewNotFound
  | FunctionNotFound | InvalidArguments | DuplicateTable | DuplicateColumn
  | DivisionByZero | InvalidCast
  | AuthenticationFailed | AccessDenied | SessionExpired
  | ExecutionFailed | QueryTimeout | QueryCancelled | ResourceExhausted
  | CatalogError | CatalogUnavailable | CircuitBreakerOpen | StorageError
  | StorageCredentialsUnavailable | CommitConflict | AutocommitWriteConflict
  | TransactionConflict | NotSupported | InternalError

fun is_user_error :: "sqe_error_code \<Rightarrow> bool" where
  "is_user_error c = (c \<in> {SyntaxError, ParseError, SemanticError, TypeMismatch, TableNotFound,
     ColumnNotFound, SchemaNotFound, CatalogNotFound, ViewNotFound, FunctionNotFound,
     InvalidArguments, DuplicateTable, DuplicateColumn, DivisionByZero, InvalidCast,
     AuthenticationFailed, AccessDenied, SessionExpired, NotSupported, AutocommitWriteConflict,
     TransactionConflict, QueryCancelled})"

fun error_code_name :: "sqe_error_code \<Rightarrow> string" where
  "error_code_name SyntaxError = ''SYNTAX_ERROR''"
| "error_code_name ParseError = ''PARSE_ERROR''"
| "error_code_name SemanticError = ''SEMANTIC_ERROR''"
| "error_code_name TypeMismatch = ''TYPE_MISMATCH''"
| "error_code_name TableNotFound = ''TABLE_NOT_FOUND''"
| "error_code_name ColumnNotFound = ''COLUMN_NOT_FOUND''"
| "error_code_name SchemaNotFound = ''SCHEMA_NOT_FOUND''"
| "error_code_name CatalogNotFound = ''CATALOG_NOT_FOUND''"
| "error_code_name ViewNotFound = ''VIEW_NOT_FOUND''"
| "error_code_name FunctionNotFound = ''FUNCTION_NOT_FOUND''"
| "error_code_name InvalidArguments = ''INVALID_ARGUMENTS''"
| "error_code_name DuplicateTable = ''DUPLICATE_TABLE''"
| "error_code_name DuplicateColumn = ''DUPLICATE_COLUMN''"
| "error_code_name DivisionByZero = ''DIVISION_BY_ZERO''"
| "error_code_name InvalidCast = ''INVALID_CAST''"
| "error_code_name AuthenticationFailed = ''AUTHENTICATION_FAILED''"
| "error_code_name AccessDenied = ''ACCESS_DENIED''"
| "error_code_name SessionExpired = ''SESSION_EXPIRED''"
| "error_code_name ExecutionFailed = ''EXECUTION_FAILED''"
| "error_code_name QueryTimeout = ''QUERY_TIMEOUT''"
| "error_code_name QueryCancelled = ''QUERY_CANCELLED''"
| "error_code_name ResourceExhausted = ''RESOURCE_EXHAUSTED''"
| "error_code_name CatalogError = ''CATALOG_ERROR''"
| "error_code_name CatalogUnavailable = ''CATALOG_UNAVAILABLE''"
| "error_code_name CircuitBreakerOpen = ''CIRCUIT_BREAKER_OPEN''"
| "error_code_name StorageError = ''STORAGE_ERROR''"
| "error_code_name StorageCredentialsUnavailable = ''STORAGE_CREDENTIALS_UNAVAILABLE''"
| "error_code_name CommitConflict = ''COMMIT_CONFLICT''"
| "error_code_name AutocommitWriteConflict = ''AUTOCOMMIT_WRITE_CONFLICT''"
| "error_code_name TransactionConflict = ''TRANSACTION_CONFLICT''"
| "error_code_name NotSupported = ''NOT_SUPPORTED''"
| "error_code_name InternalError = ''GENERIC_INTERNAL_ERROR''"

fun trino_error_code :: "sqe_error_code \<Rightarrow> int" where
  "trino_error_code SyntaxError = 1"
| "trino_error_code ParseError = 2"
| "trino_error_code SemanticError = 4"
| "trino_error_code TypeMismatch = 7"
| "trino_error_code TableNotFound = 11"
| "trino_error_code ColumnNotFound = 12"
| "trino_error_code SchemaNotFound = 13"
| "trino_error_code CatalogNotFound = 14"
| "trino_error_code ViewNotFound = 15"
| "trino_error_code FunctionNotFound = 20"
| "trino_error_code InvalidArguments = 21"
| "trino_error_code DuplicateTable = 30"
| "trino_error_code DuplicateColumn = 31"
| "trino_error_code DivisionByZero = 40"
| "trino_error_code InvalidCast = 41"
| "trino_error_code AuthenticationFailed = 131"
| "trino_error_code AccessDenied = 132"
| "trino_error_code SessionExpired = 133"
| "trino_error_code ExecutionFailed = 65536"
| "trino_error_code QueryTimeout = 65540"
| "trino_error_code QueryCancelled = 65542"
| "trino_error_code ResourceExhausted = 65537"
| "trino_error_code CatalogError = 65600"
| "trino_error_code CatalogUnavailable = 65603"
| "trino_error_code CircuitBreakerOpen = 65604"
| "trino_error_code StorageError = 65601"
| "trino_error_code StorageCredentialsUnavailable = 65605"
| "trino_error_code CommitConflict = 65602"
| "trino_error_code AutocommitWriteConflict = 25"
| "trino_error_code TransactionConflict = 17"
| "trino_error_code NotSupported = 100"
| "trino_error_code InternalError = 65540"

fun trino_error_type :: "sqe_error_code \<Rightarrow> string" where
  "trino_error_type c = (if is_user_error c then ''USER_ERROR''
     else if c \<in> {CatalogError, CatalogUnavailable, CircuitBreakerOpen, StorageError,
       StorageCredentialsUnavailable} then ''EXTERNAL''
     else ''INTERNAL_ERROR'')"

fun generic_message :: "sqe_error_code \<Rightarrow> string" where
  "generic_message ExecutionFailed = ''Query execution failed''"
| "generic_message CatalogError = ''Catalog operation failed''"
| "generic_message CatalogUnavailable = ''Catalog is unavailable (retry shortly)''"
| "generic_message CircuitBreakerOpen = ''Catalog circuit breaker is open (recent failures)''"
| "generic_message StorageError = ''Storage operation failed''"
| "generic_message StorageCredentialsUnavailable =
     ''Storage credentials expired or unavailable (renew the engine's AWS session)''"
| "generic_message CommitConflict = ''Commit conflict''"
| "generic_message ResourceExhausted = ''Resource exhausted''"
| "generic_message QueryTimeout = ''Query timed out''"
| "generic_message InternalError = ''Internal error''"
| "generic_message _ = ''Query failed''"

text \<open>Causes: the kinds of \<open>std::io::Error\<close> the code tells apart, and the chain of links.\<close>

datatype io_error_kind =
    TimedOut | ConnectionRefused | ConnectionReset | ConnectionAborted | NotConnected
  | BrokenPipe | UnexpectedEof | OtherIo

type_synonym error_chain = "(io_error_kind option \<times> string) list"

datatype sqe_error =
    Auth string
  | Catalog string
  | Execution string
  | Config string
  | NotImplemented string
  | CatalogHttp u16 catalog_op string
  | ExecutionAuth u16 string
  | IcebergCommitConflict string
  | S3Throttled string
  | Sourced sqe_error_code string error_chain
  | Internal string

definition with_code :: "sqe_error_code \<Rightarrow> string \<Rightarrow> sqe_error" where
  "with_code code message = Sourced code message [(None, ''typed'')]"

section \<open>Classification by text\<close>

text \<open>The loop of \<open>has_status_token\<close>: look for the next occurrence from position \<open>from\<close> on.\<close>

function has_status_token_from :: "string \<Rightarrow> string \<Rightarrow> nat \<Rightarrow> bool" where
  "has_status_token_from lower code from =
     (if length lower < from then False else
      case find_str code (drop from lower) of
        None \<Rightarrow> False
      | Some pos \<Rightarrow>
          (let start = from + pos; end_pos = start + length code;
               bounded_before = (start = 0 \<or> \<not> ascii_alphanumeric (lower ! (start - 1)));
               bounded_after = (end_pos = length lower \<or> \<not> ascii_alphanumeric (lower ! end_pos))
           in (bounded_before \<and> bounded_after) \<or> has_status_token_from lower code (start + 1)))"
  by pat_completeness auto
termination
  by (relation "measure (\<lambda>(lower, code, from). Suc (length lower) - from)") auto

declare has_status_token_from.simps [simp del]

definition has_status_token :: "string \<Rightarrow> string \<Rightarrow> bool" where
  "has_status_token lower code = has_status_token_from lower code 0"

definition source_chain_is_transport_failure :: "error_chain \<Rightarrow> bool" where
  "source_chain_is_transport_failure chain =
     list_ex (\<lambda>(io, text).
       (case io of None \<Rightarrow> False | Some k \<Rightarrow> k \<noteq> OtherIo) \<or>
       (let lower = to_lowercase text
        in contains lower ''timed out'' \<or> contains lower ''timeout'' \<or>
           contains lower ''connection refused'' \<or> contains lower ''connection reset'' \<or>
           contains lower ''dns error''))
     (take 17 chain)"

fun classify_catalog_status :: "u16 \<Rightarrow> sqe_error_code" where
  "classify_catalog_status status =
     (if status = 401 then AuthenticationFailed
      else if status = 403 then AccessDenied
      else if status = 404 then TableNotFound
      else if status = 409 then DuplicateTable
      else if status = 429 then ResourceExhausted
      else if status \<in> {500, 502, 503, 504} then CatalogUnavailable
      else CatalogError)"

definition classify_catalog_error :: "string \<Rightarrow> sqe_error_code" where
  "classify_catalog_error msg =
     (let lower = to_lowercase msg in
      if has_status_token lower ''401'' \<or> contains lower ''unauthorized'' \<or>
         contains lower ''www-authenticate'' then AuthenticationFailed
      else if has_status_token lower ''403'' \<or> contains lower ''forbidden'' then AccessDenied
      else if contains lower ''circuit breaker'' \<or> contains lower ''circuit open''
        then CircuitBreakerOpen
      else if has_status_token lower ''502'' \<or> contains lower ''bad gateway'' \<or>
         has_status_token lower ''503'' \<or> contains lower ''service unavailable'' \<or>
         has_status_token lower ''504'' \<or> contains lower ''gateway timeout'' \<or>
         contains lower ''500 internal server error'' then CatalogUnavailable
      else if contains lower ''connection refused'' \<or> contains lower ''connection reset'' \<or>
         contains lower ''connection closed'' \<or> contains lower ''dns'' \<or>
         contains lower ''no route to host'' \<or> contains lower ''network is unreachable'' \<or>
         contains lower ''network error'' then CatalogUnavailable
      else if contains lower ''timeout'' \<or> contains lower ''timed out'' then QueryTimeout
      else
        (let absent = (contains lower ''not found'' \<or> contains lower ''http 404'' \<or>
               contains lower ''does not exist'')
         in if absent \<and> contains lower ''view'' then ViewNotFound
            else if absent \<and> (contains lower ''schema'' \<or> contains lower ''namespace'') then SchemaNotFound
            else if absent then TableNotFound
            else if contains lower ''already exists'' then DuplicateTable
            else CatalogError))"

definition storage_refusal :: "string \<Rightarrow> sqe_error_code option" where
  "storage_refusal lower =
     (if contains lower ''storage credentials expired or unavailable'' \<or>
         contains lower ''error occurred while loading credentials'' \<or>
         contains lower ''expiredtoken'' \<or> contains lower ''invalidaccesskeyid'' \<or>
         contains lower ''invalidclienttokenid'' \<or>
         contains lower ''security token included in the request is invalid'' \<or>
         contains lower ''security token included in the request is expired''
      then Some StorageCredentialsUnavailable
      else if contains lower ''permissiondenied'' \<or> contains lower ''accessdenied''
      then Some AccessDenied
      else None)"

definition classify_execution_error :: "string \<Rightarrow> sqe_error_code" where
  "classify_execution_error msg =
     (let lower = to_lowercase msg in
      if storage_refusal lower = Some StorageCredentialsUnavailable then StorageCredentialsUnavailable
      else if contains lower ''401 unauthorized'' \<or> contains lower ''www-authenticate'' \<or>
         contains lower ''authentication failed'' then AuthenticationFailed
      else if contains lower ''403 forbidden'' \<or> contains lower ''access denied'' \<or>
         contains lower ''permission denied'' \<or> contains lower ''not authorized'' \<or>
         storage_refusal lower = Some AccessDenied then AccessDenied
      else if contains lower ''typesignatureclass'' \<or> contains lower ''type mismatch'' \<or>
         contains lower ''add explicit type casts'' \<or>
         contains lower ''too large to store in a decimal'' \<or>
         contains lower ''invalid comparison operation'' \<or>
         contains lower ''invalid argument error'' \<or> contains lower ''convert datum'' then TypeMismatch
      else if contains lower ''table'' \<and> contains lower ''not found'' then TableNotFound
      else if contains lower ''schema'' \<and> contains lower ''not found'' then SchemaNotFound
      else if (contains lower ''column'' \<and> contains lower ''not found'') \<or>
         contains lower ''no field named'' then ColumnNotFound
      else if contains lower ''invalid function'' \<or> contains lower ''no function matches''
        then FunctionNotFound
      else if contains lower ''not yet supported'' \<or> contains lower ''not implemented'' \<or>
         contains lower ''not supported'' then NotSupported
      else if contains lower ''division by zero'' then DivisionByZero
      else if contains lower ''cast'' \<and> (contains lower ''cannot'' \<or> contains lower ''invalid'')
        then InvalidCast
      else if contains lower ''timeout'' \<or> contains lower ''timed out'' then QueryTimeout
      else if contains lower ''cancel'' then QueryCancelled
      else if contains lower ''already referenced'' \<or> contains lower ''commit conflict''
        then CommitConflict
      else if contains lower ''rate limit'' \<or> contains lower ''resources exhausted'' \<or>
         contains lower ''failed to allocate'' then ResourceExhausted
      else ExecutionFailed)"

definition catalog_src :: "string \<Rightarrow> error_chain \<Rightarrow> sqe_error" where
  "catalog_src message source =
     (let code = classify_catalog_error message;
          code = (if code = CatalogError \<and> source_chain_is_transport_failure source
                  then CatalogUnavailable else code)
      in Sourced code message source)"

definition execution_src :: "string \<Rightarrow> error_chain \<Rightarrow> sqe_error" where
  "execution_src message source = Sourced (classify_execution_error message) message source"

definition auth_src :: "string \<Rightarrow> error_chain \<Rightarrow> sqe_error" where
  "auth_src message source = Sourced AuthenticationFailed message source"

definition config_src :: "string \<Rightarrow> error_chain \<Rightarrow> sqe_error" where
  "config_src message source = Sourced InternalError message source"

text \<open>The text of a boxed cause is that of its outermost link.\<close>

definition chain_text :: "error_chain \<Rightarrow> string" where
  "chain_text chain = (case chain of [] \<Rightarrow> [] | (io, text) # _ \<Rightarrow> text)"

fun error_code :: "sqe_error \<Rightarrow> sqe_error_code" where
  "error_code (Auth m) = AuthenticationFailed"
| "error_code (Config m) = InternalError"
| "error_code (NotImplemented m) = NotSupported"
| "error_code (Internal m) = InternalError"
| "error_code (CatalogHttp status op body) = classify_catalog_status status"
| "error_code (ExecutionAuth status body) =
     (if status = 403 then AccessDenied else AuthenticationFailed)"
| "error_code (IcebergCommitConflict m) = CommitConflict"
| "error_code (S3Throttled m) = ResourceExhausted"
| "error_code (Catalog m) = classify_catalog_error m"
| "error_code (Execution m) = classify_execution_error m"
| "error_code (Sourced code m source) =
     (if code = ExecutionFailed then
        (case storage_refusal (to_lowercase m) of
           Some c \<Rightarrow> c
         | None \<Rightarrow> (case storage_refusal (to_lowercase (chain_text source)) of
             Some c \<Rightarrow> c | None \<Rightarrow> ExecutionFailed))
      else code)"

fun is_not_found :: "sqe_error \<Rightarrow> bool" where
  "is_not_found (Catalog m) = contains m ''HTTP 404''"
| "is_not_found (CatalogHttp status op body) = (status = 404)"
| "is_not_found (Sourced code m source) = (code \<in> {TableNotFound, ViewNotFound, SchemaNotFound, CatalogNotFound})"
| "is_not_found _ = False"

section \<open>DataFusion errors\<close>

datatype datafusion_error =
    DfPlan | DfSchemaError | DfResourcesExhausted | DfNotImplemented | DfSQL | DfInternal
  | DfExecution | DfExternal external_error | DfOther
and external_error = ExtDataFusion datafusion_error | ExtSqe sqe_error | ExtOther

fun datafusion_error_code :: "datafusion_error \<Rightarrow> sqe_error_code" where
  "datafusion_error_code DfPlan = SemanticError"
| "datafusion_error_code DfSchemaError = SemanticError"
| "datafusion_error_code DfResourcesExhausted = ResourceExhausted"
| "datafusion_error_code DfNotImplemented = NotSupported"
| "datafusion_error_code DfSQL = ParseError"
| "datafusion_error_code DfInternal = InternalError"
| "datafusion_error_code DfExecution = ExecutionFailed"
| "datafusion_error_code (DfExternal (ExtDataFusion df)) = datafusion_error_code df"
| "datafusion_error_code (DfExternal (ExtSqe e)) = error_code e"
| "datafusion_error_code _ = ExecutionFailed"

text \<open>\<open>message\<close> is the text of the DataFusion error and \<open>source\<close> the error as a cause.\<close>

definition from_datafusion :: "datafusion_error \<Rightarrow> string \<Rightarrow> error_chain \<Rightarrow> sqe_error" where
  "from_datafusion e message source = Sourced (datafusion_error_code e) message source"

definition planning :: "datafusion_error \<Rightarrow> string \<Rightarrow> error_chain \<Rightarrow> sqe_error" where
  "planning e message source =
     (let typed = datafusion_error_code e;
          code = (if typed = SemanticError \<or> typed = ExecutionFailed
                  then (let specific = classify_execution_error message
                        in if specific = ExecutionFailed then typed else specific)
                  else typed)
      in Sourced code (''SQL planning failed: '' @ message) source)"

section \<open>What a client is shown\<close>

text \<open>Skip up to the bracket that closes depth \<open>depth\<close>.\<close>

fun skip_annotation :: "nat \<Rightarrow> string \<Rightarrow> string" where
  "skip_annotation depth [] = []"
| "skip_annotation depth (c # cs) =
     (if c = CHR ''['' then skip_annotation (depth + 1) cs
      else if c = CHR '']'' then (if depth - 1 = 0 then cs else skip_annotation (depth - 1) cs)
      else skip_annotation depth cs)"

lemma skip_annotation_length: "length (skip_annotation d cs) \<le> length cs"
  by (induction d cs rule: skip_annotation.induct) auto

function regex_strip_type_sig :: "string \<Rightarrow> string" where
  "regex_strip_type_sig [] = []"
| "regex_strip_type_sig (c # cs) =
     (if c = CHR ''['' \<and> starts_with (to_lowercase (take 20 cs)) ''typesignatureclass''
      then regex_strip_type_sig (skip_annotation 1 cs)
      else c # regex_strip_type_sig cs)"
  by pat_completeness auto
termination
  by (relation "measure length") (auto simp: le_imp_less_Suc skip_annotation_length)

definition message_prefixes :: "string list" where
  "message_prefixes =
    [''Query execution failed: '', ''Query execution error: '',
     ''SQL planning failed: Error during planning: '', ''SQL planning failed: '',
     ''Error during planning: '', ''DataFusion error: '',
     ''External error: External: External error: '', ''External error: External: '',
     ''External error: '', ''Arrow error: '', ''Invalid argument error: '', ''DataInvalid => '']"

definition clean_error_message :: "string \<Rightarrow> string" where
  "clean_error_message msg =
     (let cleaned = fold (\<lambda>p cleaned. case strip_prefix cleaned p of Some s \<Rightarrow> s | None \<Rightarrow> cleaned)
            message_prefixes msg
      in trim (regex_strip_type_sig cleaned))"

text \<open>Decimal digits of a status code.\<close>

fun show_nat :: "nat \<Rightarrow> string" where
  "show_nat n = (if n < 10 then [char_of (48 + n)] else show_nat (n div 10) @ [char_of (48 + n mod 10)])"

declare show_nat.simps [simp del]

fun client_message :: "sqe_error \<Rightarrow> string" where
  "client_message (Auth m) = clean_error_message m"
| "client_message (Catalog m) = clean_error_message m"
| "client_message (Execution m) = clean_error_message m"
| "client_message (NotImplemented m) = clean_error_message m"
| "client_message (IcebergCommitConflict m) = clean_error_message m"
| "client_message (S3Throttled m) = clean_error_message m"
| "client_message (CatalogHttp status op body) = clean_error_message
     (''HTTP '' @ show_nat (unat status) @ '' during '' @ catalog_op_name op @ '' ('' @ body @ '')'')"
| "client_message (ExecutionAuth status body) =
     clean_error_message (''HTTP '' @ show_nat (unat status) @ '': '' @ body)"
| "client_message (Config m) = generic_message (error_code (Config m))"
| "client_message (Internal m) = generic_message (error_code (Internal m))"
| "client_message (Sourced code m source) =
     (if code = InternalError then generic_message code else clean_error_message m)"

fun body_for_display :: "string \<Rightarrow> string" where
  "body_for_display body = (if body = [] then [] else '': '' @ body)"

fun display_error :: "sqe_error \<Rightarrow> string" where
  "display_error (Auth m) = ''Authentication failed: '' @ m"
| "display_error (Catalog m) = ''Catalog error: '' @ m"
| "display_error (Execution m) = ''Query execution error: '' @ m"
| "display_error (Config m) = ''Configuration error: '' @ m"
| "display_error (NotImplemented m) = ''Not implemented: '' @ m"
| "display_error (CatalogHttp status op body) = ''Catalog HTTP '' @ show_nat (unat status) @
     '' ('' @ catalog_op_name op @ ''): '' @ body"
| "display_error (ExecutionAuth status body) =
     ''Auth failure on execution: HTTP '' @ show_nat (unat status) @ body_for_display body"
| "display_error (IcebergCommitConflict m) = ''Iceberg commit conflict: '' @ m"
| "display_error (S3Throttled m) = ''S3 throttled: '' @ m"
| "display_error (Sourced code m source) = m"
| "display_error (Internal m) = m"

definition to_client_error :: "bool \<Rightarrow> sqe_error \<Rightarrow> string" where
  "to_client_error debug e = (if debug then display_error e else client_message e)"

section \<open>Facts on the classifiers\<close>

lemma classify_catalog_error_range:
  "classify_catalog_error m \<in> {AuthenticationFailed, AccessDenied, CircuitBreakerOpen, CatalogUnavailable,
     QueryTimeout, ViewNotFound, SchemaNotFound, TableNotFound, DuplicateTable, CatalogError}"
  by (simp add: classify_catalog_error_def Let_def)

lemma classify_catalog_status_range:
  "classify_catalog_status s \<in> {AuthenticationFailed, AccessDenied, TableNotFound, DuplicateTable,
     ResourceExhausted, CatalogUnavailable, CatalogError}"
  by simp

lemma storage_refusal_range: "storage_refusal l = Some c \<Longrightarrow> c = StorageCredentialsUnavailable \<or> c = AccessDenied"
  by (auto simp: storage_refusal_def split: if_splits)

lemma classify_execution_error_range:
  "classify_execution_error m \<in> {StorageCredentialsUnavailable, AuthenticationFailed, AccessDenied,
     TypeMismatch, TableNotFound, SchemaNotFound, ColumnNotFound, FunctionNotFound, NotSupported,
     DivisionByZero, InvalidCast, QueryTimeout, QueryCancelled, CommitConflict, ResourceExhausted,
     ExecutionFailed}"
  by (simp add: classify_execution_error_def Let_def)

text \<open>A catalog failure is never taken for a transaction conflict, whatever its message quotes.\<close>

lemma catalog_src_no_conflict [simp]: "error_code (catalog_src m source) \<noteq> TransactionConflict"
  using classify_catalog_error_range [of m] by (auto simp: catalog_src_def Let_def)

lemma error_code_with_code [simp]:
  "c \<noteq> ExecutionFailed \<Longrightarrow> error_code (with_code c m) = c"
  by (simp add: with_code_def)

lemma find_str_Nil [simp]: "find_str p [] = (if p = [] then Some 0 else None)"
  by (subst find_str.simps) simp

lemma find_str_Cons [simp]:
  "find_str p (c # s) = (if prefix p (c # s) then Some 0 else map_option Suc (find_str p s))"
  by (subst find_str.simps) simp

lemma find_str_Some:
  "find_str p s = Some i \<Longrightarrow> i \<le> length s \<and> prefix p (drop i s) \<and> (\<forall>j<i. \<not> prefix p (drop j s))"
proof (induction s arbitrary: i)
  case Nil
  then show ?case by (simp split: if_splits)
next
  case (Cons c s)
  show ?case
  proof (cases "prefix p (c # s)")
    case True
    with Cons.prems show ?thesis by simp
  next
    case False
    with Cons.prems obtain k where k: "find_str p s = Some k" "i = Suc k" by auto
    have "\<not> prefix p (drop j (c # s))" if "j < i" for j
      using that False Cons.IH [OF k(1)] k(2) by (cases j) simp_all
    with Cons.IH [OF k(1)] k(2) show ?thesis by simp
  qed
qed

lemma find_str_None: "find_str p s = None \<Longrightarrow> j \<le> length s \<Longrightarrow> \<not> prefix p (drop j s)"
proof (induction s arbitrary: j)
  case Nil
  then show ?case by (simp split: if_splits)
next
  case (Cons c s)
  then show ?case by (cases j) (simp_all split: if_splits)
qed

text \<open>An occurrence of \<open>code\<close> at position \<open>i\<close> with no letter or digit on either side.\<close>

definition bounded_at :: "string \<Rightarrow> string \<Rightarrow> nat \<Rightarrow> bool" where
  "bounded_at s code i \<longleftrightarrow> i \<le> length s \<and> prefix code (drop i s) \<and>
     (i = 0 \<or> \<not> ascii_alphanumeric (s ! (i - 1))) \<and>
     (i + length code = length s \<or> \<not> ascii_alphanumeric (s ! (i + length code)))"

lemma has_status_token_from_iff:
  assumes "code \<noteq> []"
  shows "has_status_token_from s code from \<longleftrightarrow> (\<exists>i\<ge>from. bounded_at s code i)"
proof (induction s code "from" rule: has_status_token_from.induct)
  case (1 s code "from")
  show ?case
  proof (cases "length s < from")
    case True
    then show ?thesis by (subst has_status_token_from.simps) (auto simp: bounded_at_def)
  next
    case inside: False
    show ?thesis
    proof (cases "find_str code (drop from s)")
      case None
      have "\<not> bounded_at s code i" if "from \<le> i" for i
        using find_str_None [OF None, of "i - from"] that by (auto simp: bounded_at_def intro: diff_le_mono)
      with None inside show ?thesis by (subst has_status_token_from.simps) auto
    next
      case (Some pos)
      note f = find_str_Some [OF Some]
      have IH: "has_status_token_from s code (from + pos + 1) \<longleftrightarrow> (\<exists>i\<ge>from + pos + 1. bounded_at s code i)"
        using 1 [OF inside Some] by simp
      have here: "bounded_at s code (from + pos) \<longleftrightarrow>
          ((from + pos = 0 \<or> \<not> ascii_alphanumeric (s ! (from + pos - 1))) \<and>
           (from + pos + length code = length s \<or> \<not> ascii_alphanumeric (s ! (from + pos + length code))))"
        using f inside by (auto simp: bounded_at_def add.commute)
      have skip: "\<not> bounded_at s code i" if "from \<le> i" "i < from + pos" for i
      proof -
        from that have "i - from < pos" "from + (i - from) = i" by simp_all
        with f have "\<not> prefix code (drop i s)" by (metis add.commute drop_drop)
        then show ?thesis by (simp add: bounded_at_def)
      qed
      have "(\<exists>i\<ge>from. bounded_at s code i) \<longleftrightarrow>
          bounded_at s code (from + pos) \<or> (\<exists>i\<ge>from + pos + 1. bounded_at s code i)"
        using skip by (metis Suc_eq_plus1 Suc_leI le_add1 le_neq_implies_less linorder_not_le order_trans)
      then show ?thesis
        using inside Some IH here by (subst has_status_token_from.simps) (simp add: Let_def)
    qed
  qed
qed

lemma error_code_name_inject: "error_code_name c = error_code_name d \<longleftrightarrow> c = d"
  by (cases c; cases d; simp)

lemma trino_error_code_eq:
  "trino_error_code c = trino_error_code d \<longleftrightarrow>
     c = d \<or> (c = QueryTimeout \<and> d = InternalError) \<or> (c = InternalError \<and> d = QueryTimeout)"
  by (cases c; cases d; simp)

section \<open>Properties\<close>

text \<open>
  C35: the scan for a status code in an error text is exact. \<open>has_status_token\<close> answers whether the code
  occurs with no letter or digit directly before or after it: no occurrence is skipped, and a port or a
  snapshot id that merely contains the digits never counts.
\<close>

theorem has_status_token_exact:
  assumes "code \<noteq> []"
  shows "has_status_token s code \<longleftrightarrow>
    (\<exists>before after. s = before @ code @ after \<and>
       (before = [] \<or> \<not> ascii_alphanumeric (last before)) \<and>
       (after = [] \<or> \<not> ascii_alphanumeric (hd after)))"
    (is "_ \<longleftrightarrow> (\<exists>b a. ?split b a)")
proof
  assume "has_status_token s code"
  then obtain i where i: "bounded_at s code i"
    using has_status_token_from_iff [OF assms] by (auto simp: has_status_token_def)
  then obtain a where a: "drop i s = code @ a" by (auto simp: bounded_at_def prefix_def)
  then have s: "s = take i s @ code @ a" by (metis append_take_drop_id)
  have len: "length (take i s) = i" using i by (simp add: bounded_at_def)
  have "s ! (i + length code) = hd a" if "a \<noteq> []"
    using that len by (subst s) (simp add: nth_append hd_conv_nth)
  moreover have "a = [] \<longleftrightarrow> i + length code = length s"
    using arg_cong [OF s, of length] len by auto
  moreover have "i = 0 \<or> s ! (i - 1) = last (take i s)"
    using i by (cases i) (auto simp: bounded_at_def take_Suc_conv_app_nth)
  ultimately show "\<exists>b a. ?split b a"
    using i s unfolding bounded_at_def by (intro exI [of _ "take i s"] exI [of _ a]) auto
next
  assume "\<exists>b a. ?split b a"
  then obtain b a where *: "s = b @ code @ a" "b = [] \<or> \<not> ascii_alphanumeric (last b)"
    "a = [] \<or> \<not> ascii_alphanumeric (hd a)" by blast
  then have "bounded_at s code (length b)"
    by (auto simp: bounded_at_def nth_append last_conv_nth hd_conv_nth)
  then show "has_status_token s code"
    using has_status_token_from_iff [OF assms] by (auto simp: has_status_token_def)
qed

theorem has_status_token_exact_witness:
  "has_status_token ''status: 401 unauthorized'' ''401'' \<and> \<not> has_status_token ''127.0.0.1:39401'' ''401''"
proof
  show "has_status_token ''status: 401 unauthorized'' ''401''"
    by (subst has_status_token_exact, simp,
        intro exI [of _ "''status: ''"] exI [of _ "'' unauthorized''"], simp add: ascii_alphanumeric_def)
  show "\<not> has_status_token ''127.0.0.1:39401'' ''401''"
    by (code_simp)
qed

text \<open>
  C36: a production client never sees the text of an internal error. Whatever variant carries it (a
  configuration error, a panic report, a sourced internal error, an internal error of DataFusion), an
  error that classifies as internal is shown as the same fixed sentence.
\<close>

theorem internal_error_hidden:
  assumes "error_code e = InternalError"
  shows "to_client_error False e = ''Internal error''"
proof (cases e)
  case (Catalog m)
  with assms classify_catalog_error_range [of m] show ?thesis by auto
next
  case (Execution m)
  with assms classify_execution_error_range [of m] show ?thesis by auto
next
  case (CatalogHttp s op b)
  with assms classify_catalog_status_range [of s] show ?thesis by (auto simp del: classify_catalog_status.simps)
next
  case (Sourced c m src)
  with assms show ?thesis
    by (auto simp: to_client_error_def split: if_splits option.splits dest: storage_refusal_range)
qed (use assms in \<open>auto simp: to_client_error_def split: if_splits\<close>)

theorem internal_error_hidden_witness:
  "error_code (from_datafusion DfInternal ''password=hunter2'' []) = InternalError \<and>
   to_client_error False (from_datafusion DfInternal ''password=hunter2'' []) = ''Internal error''"
  using internal_error_hidden [of "from_datafusion DfInternal ''password=hunter2'' []"]
  by (simp add: from_datafusion_def)

text \<open>
  the canonical name identifies an error code, but the Trino number does not: a query timeout and an
  internal error are both reported as 65540. No other two codes share a number.
\<close>

theorem trino_error_code_collision:
  "(error_code_name c = error_code_name d \<longleftrightarrow> c = d) \<and>
   (trino_error_code c = trino_error_code d \<longleftrightarrow>
      c = d \<or> (c = QueryTimeout \<and> d = InternalError) \<or> (c = InternalError \<and> d = QueryTimeout))"
  by (simp only: error_code_name_inject trino_error_code_eq)

end
