(* ===== verification/Iceberg_Refs.thy ===== *)
theory Iceberg_Refs
  imports Sqe_Error "HOL-Library.AList"
begin

text \<open>
  Named snapshot references of an Iceberg table, as the vendored \<open>iceberg-rust\<close> keeps them
  (\<open>vendor/iceberg-rust/crates/iceberg/src\<close>): the lookups and the metadata builder's updates of
  \<open>spec/table_metadata.rs\<close> and \<open>spec/table_metadata_builder.rs\<close>, the requirements and updates of a
  commit in \<open>catalog/mod.rs\<close>, the branch and tag actions of \<open>transaction/branch.rs\<close>, and the
  preparation of a commit in \<open>transaction/mod.rs\<close>.

  Of the table metadata the model keeps the part the references live in: the UUID, the snapshots with
  their parents and timestamps, the references and the current snapshot. Schemas, partition specs,
  sort orders, properties, sequence numbers, row ids and the history logs are left out, and with them
  the checks of the metadata builder that read only those: the code may refuse an update for such a
  reason where the model accepts it, as it may fail on storage. Hash maps are association lists.
\<close>

section \<open>Errors\<close>

datatype error_kind =
    PreconditionFailed | Unexpected | DataInvalid | NamespaceAlreadyExists | TableAlreadyExists
  | NamespaceNotFound | TableNotFoundKind | FeatureUnsupported | CatalogCommitConflicts

text \<open>
  The texts of an error and its causes matter for the classification of catalog failures; the errors
  that the vendored code builds itself have fixed texts, which are left out.
\<close>

record iceberg_error =
  kind :: error_kind
  retryable :: bool
  chain :: error_chain

definition ice_err :: "error_kind \<Rightarrow> iceberg_error" where
  "ice_err k = \<lparr>kind = k, retryable = False, chain = []\<rparr>"

definition conflict_err :: iceberg_error where
  "conflict_err = \<lparr>kind = CatalogCommitConflicts, retryable = True, chain = []\<rparr>"

lemmas ice_errors = ice_err_def conflict_err_def

type_synonym 'a ice_result = "(iceberg_error, 'a) outcome"

section \<open>Metadata\<close>

datatype table_ident = TableIdent (namespace: "string list") (ident_name: string)

type_synonym uuid = u128

record snapshot =
  snapshot_id :: i64
  parent_snapshot_id :: "i64 option"
  timestamp_ms :: i64

datatype snapshot_retention =
    Branch "u32 option" "i64 option" "i64 option"
  | Tag "i64 option"

record snapshot_reference =
  ref_snapshot_id :: i64
  ref_retention :: snapshot_retention

definition is_branch :: "snapshot_reference \<Rightarrow> bool" where
  "is_branch r = (case ref_retention r of Branch a b c \<Rightarrow> True | Tag a \<Rightarrow> False)"

record table_metadata =
  table_uuid :: uuid
  current_snapshot_id :: "i64 option"
  snapshots :: "(i64 \<times> snapshot) list"
  refs :: "(string \<times> snapshot_reference) list"

definition MAIN_BRANCH :: string where
  "MAIN_BRANCH = ''main''"

definition EMPTY_SNAPSHOT_ID :: i64 where
  "EMPTY_SNAPSHOT_ID = - 1"

definition default_retention :: snapshot_retention where
  "default_retention = Branch None None None"

definition snapshot_by_id :: "table_metadata \<Rightarrow> i64 \<Rightarrow> snapshot option" where
  "snapshot_by_id md i = map_of (snapshots md) i"

definition reference_by_name :: "table_metadata \<Rightarrow> string \<Rightarrow> snapshot_reference option" where
  "reference_by_name md name = map_of (refs md) name"

definition snapshot_for_ref :: "table_metadata \<Rightarrow> string \<Rightarrow> snapshot option ice_result" where
  "snapshot_for_ref md name = (case map_of (refs md) name of
     None \<Rightarrow> Ok None
   | Some r \<Rightarrow> (case snapshot_by_id md (ref_snapshot_id r) of
       None \<Rightarrow> Panic | Some s \<Rightarrow> Ok (Some s)))"

definition pinned_to_ref :: "table_metadata \<Rightarrow> string \<Rightarrow> table_metadata option" where
  "pinned_to_ref md name = (case map_of (refs md) name of
     None \<Rightarrow> None
   | Some r \<Rightarrow> Some (md\<lparr>current_snapshot_id := Some (ref_snapshot_id r),
       refs := AList.update MAIN_BRANCH
         \<lparr>ref_snapshot_id = ref_snapshot_id r,
          ref_retention = (case map_of (refs md) MAIN_BRANCH of
             Some m \<Rightarrow> ref_retention m | None \<Rightarrow> ref_retention r)\<rparr> (refs md)\<rparr>))"

section \<open>The metadata builder\<close>

definition add_snapshot :: "snapshot \<Rightarrow> table_metadata \<Rightarrow> table_metadata ice_result" where
  "add_snapshot s md =
     (if snapshot_by_id md (snapshot_id s) \<noteq> None then Err (ice_err DataInvalid)
      else Ok (md\<lparr>snapshots := AList.update (snapshot_id s) s (snapshots md)\<rparr>))"

definition set_ref :: "string \<Rightarrow> snapshot_reference \<Rightarrow> table_metadata \<Rightarrow> table_metadata ice_result" where
  "set_ref name r md =
     (if map_of (refs md) name = Some r then Ok md
      else case snapshot_by_id md (ref_snapshot_id r) of
        None \<Rightarrow> Err (ice_err DataInvalid)
      | Some s \<Rightarrow> Ok (md\<lparr>
          current_snapshot_id := (if name = MAIN_BRANCH then Some (snapshot_id s) else current_snapshot_id md),
          refs := AList.update name r (refs md)\<rparr>))"

definition remove_ref :: "string \<Rightarrow> table_metadata \<Rightarrow> table_metadata" where
  "remove_ref name md = md\<lparr>
     current_snapshot_id := (if name = MAIN_BRANCH then None else current_snapshot_id md),
     refs := AList.delete name (refs md)\<rparr>"

definition normalize_current_snapshot :: "table_metadata \<Rightarrow> table_metadata ice_result" where
  "normalize_current_snapshot md = (case current_snapshot_id md of
     None \<Rightarrow> Ok md
   | Some c \<Rightarrow> if c = EMPTY_SNAPSHOT_ID then Ok (md\<lparr>current_snapshot_id := None\<rparr>)
       else if snapshot_by_id md c = None then Err (ice_err DataInvalid)
       else Ok md)"

definition construct_refs :: "table_metadata \<Rightarrow> table_metadata" where
  "construct_refs md = (case current_snapshot_id md of
     None \<Rightarrow> md
   | Some c \<Rightarrow> if map_of (refs md) MAIN_BRANCH \<noteq> None then md
       else md\<lparr>refs := AList.update MAIN_BRANCH
         \<lparr>ref_snapshot_id = c, ref_retention = default_retention\<rparr> (refs md)\<rparr>)"

definition validate_refs :: "table_metadata \<Rightarrow> unit ice_result" where
  "validate_refs md =
     (if list_ex (\<lambda>(name, r). snapshot_by_id md (ref_snapshot_id r) = None) (refs md)
      then Err (ice_err DataInvalid)
      else case (current_snapshot_id md, map_of (refs md) MAIN_BRANCH) of
        (Some c, Some m) \<Rightarrow> if ref_snapshot_id m \<noteq> c then Err (ice_err DataInvalid) else Ok ()
      | (Some c, None) \<Rightarrow> Ok ()
      | (None, Some m) \<Rightarrow> Err (ice_err DataInvalid)
      | (None, None) \<Rightarrow> Ok ())"

definition build :: "table_metadata \<Rightarrow> table_metadata ice_result" where
  "build md = obind (normalize_current_snapshot md) (\<lambda>md.
     let md = construct_refs md in obind (validate_refs md) (\<lambda>_. Ok md))"

section \<open>Requirements and updates of a commit\<close>

datatype table_requirement =
    NotExist
  | UuidMatch uuid
  | RefSnapshotIdMatch string "i64 option"

datatype table_update =
    AddSnapshot snapshot
  | SetSnapshotRef string snapshot_reference
  | RemoveSnapshotRef string

record table_commit =
  commit_ident :: table_ident
  updates :: "table_update list"
  requirements :: "table_requirement list"

fun check_requirement :: "table_metadata \<Rightarrow> table_requirement \<Rightarrow> unit ice_result" where
  "check_requirement md NotExist = Err conflict_err"
| "check_requirement md (UuidMatch u) = (if table_uuid md \<noteq> u then Err conflict_err else Ok ())"
| "check_requirement md (RefSnapshotIdMatch name expected) =
     obind (snapshot_for_ref md name) (\<lambda>found.
       case expected of
         Some i \<Rightarrow> (case found of
             None \<Rightarrow> Err conflict_err
           | Some s \<Rightarrow> if snapshot_id s \<noteq> i then Err conflict_err else Ok ())
       | None \<Rightarrow> if found \<noteq> None then Err conflict_err else Ok ())"

fun check_requirements :: "table_metadata \<Rightarrow> table_requirement list \<Rightarrow> unit ice_result" where
  "check_requirements md [] = Ok ()"
| "check_requirements md (r # rs) = obind (check_requirement md r) (\<lambda>_. check_requirements md rs)"

fun apply_update :: "table_update \<Rightarrow> table_metadata \<Rightarrow> table_metadata ice_result" where
  "apply_update (AddSnapshot s) md = add_snapshot s md"
| "apply_update (SetSnapshotRef name r) md = set_ref name r md"
| "apply_update (RemoveSnapshotRef name) md = Ok (remove_ref name md)"

fun apply_updates :: "table_update list \<Rightarrow> table_metadata \<Rightarrow> table_metadata ice_result" where
  "apply_updates [] md = Ok md"
| "apply_updates (u # us) md = obind (apply_update u md) (apply_updates us)"

text \<open>\<open>Transaction::update_table_metadata\<close> and, with the requirements, \<open>TableCommit::apply\<close>.\<close>

definition update_table_metadata :: "table_update list \<Rightarrow> table_metadata \<Rightarrow> table_metadata ice_result" where
  "update_table_metadata us md = obind (apply_updates us md) build"

definition commit_apply :: "table_commit \<Rightarrow> table_metadata \<Rightarrow> table_metadata ice_result" where
  "commit_apply c md = obind (check_requirements md (requirements c)) (\<lambda>_.
     update_table_metadata (updates c) md)"

section \<open>Writes, branch and tag actions\<close>

text \<open>
  A data write adds a snapshot and moves its target branch to it; \<open>SnapshotAction\<close> is what all of them end
  in, with the id and the timestamp of the new snapshot. The manifests and their files are left out.
\<close>

datatype table_action =
    SnapshotAction (action_name: string) i64 i64
  | CreateBranchAction (action_name: string) "i64 option" "snapshot_retention option" bool
  | CreateTagAction (action_name: string) "i64 option" "i64 option" bool
  | RemoveRefAction (action_name: string) bool
  | PublishBranchAction (action_name: string) "i64 option"

type_synonym action_commit = "table_update list \<times> table_requirement list"

text \<open>The snapshot a new branch or tag points at.\<close>

definition resolve_snapshot :: "table_metadata \<Rightarrow> i64 option \<Rightarrow> i64 ice_result" where
  "resolve_snapshot md sid = (case sid of
     Some i \<Rightarrow> if snapshot_by_id md i = None then Err (ice_err PreconditionFailed) else Ok i
   | None \<Rightarrow> (case current_snapshot_id md of
       None \<Rightarrow> Err (ice_err PreconditionFailed) | Some i \<Rightarrow> Ok i))"

definition commit_prepared :: "string \<Rightarrow> i64 \<Rightarrow> i64 \<Rightarrow> table_metadata \<Rightarrow> action_commit ice_result" where
  "commit_prepared target_branch sid ts md =
     obind (snapshot_for_ref md target_branch) (\<lambda>parent.
       let parent_id = map_option snapshot_id parent
       in Ok ([AddSnapshot \<lparr>snapshot_id = sid, parent_snapshot_id = parent_id, timestamp_ms = ts\<rparr>,
               SetSnapshotRef target_branch \<lparr>ref_snapshot_id = sid, ref_retention = Branch None None None\<rparr>],
              [UuidMatch (table_uuid md), RefSnapshotIdMatch target_branch parent_id]))"

definition create_branch_commit ::
  "string \<Rightarrow> i64 option \<Rightarrow> snapshot_retention option \<Rightarrow> bool \<Rightarrow> table_metadata \<Rightarrow> action_commit ice_result" where
  "create_branch_commit name sid retention if_not_exists md =
     (case retention of
        Some (Tag a) \<Rightarrow> Err (ice_err PreconditionFailed)
      | _ \<Rightarrow>
        obind (if if_not_exists then snapshot_for_ref md name else Ok None) (\<lambda>existing.
          if if_not_exists \<and> existing \<noteq> None then Ok ([], [])
          else obind (resolve_snapshot md sid) (\<lambda>i.
            Ok ([SetSnapshotRef name \<lparr>ref_snapshot_id = i,
                   ref_retention = (case retention of Some r \<Rightarrow> r | None \<Rightarrow> default_retention)\<rparr>], []))))"

definition create_tag_commit ::
  "string \<Rightarrow> i64 option \<Rightarrow> i64 option \<Rightarrow> bool \<Rightarrow> table_metadata \<Rightarrow> action_commit ice_result" where
  "create_tag_commit name sid max_ref_age create_or_replace md =
     obind (snapshot_for_ref md name) (\<lambda>existing.
       if existing \<noteq> None \<and> \<not> create_or_replace then Err (ice_err PreconditionFailed)
       else obind (resolve_snapshot md sid) (\<lambda>i.
         Ok ([SetSnapshotRef name \<lparr>ref_snapshot_id = i, ref_retention = Tag max_ref_age\<rparr>], [])))"

definition remove_ref_commit :: "string \<Rightarrow> bool \<Rightarrow> table_metadata \<Rightarrow> action_commit ice_result" where
  "remove_ref_commit name if_exists md =
     (if name = MAIN_BRANCH then Err (ice_err PreconditionFailed)
      else obind (snapshot_for_ref md name) (\<lambda>found.
        if found = None then (if if_exists then Ok ([], []) else Err (ice_err PreconditionFailed))
        else Ok ([RemoveSnapshotRef name], [])))"

definition publish_branch_commit :: "string \<Rightarrow> i64 option \<Rightarrow> table_metadata \<Rightarrow> action_commit ice_result" where
  "publish_branch_commit branch expected_main md =
     (if branch = MAIN_BRANCH then Err (ice_err PreconditionFailed)
      else obind (snapshot_for_ref md branch) (\<lambda>found.
        case found of
          None \<Rightarrow> Err (ice_err PreconditionFailed)
        | Some s \<Rightarrow>
          obind (snapshot_for_ref md MAIN_BRANCH) (\<lambda>main_now.
            if map_option snapshot_id main_now \<noteq> expected_main then Err (ice_err PreconditionFailed)
            else Ok
             ([SetSnapshotRef MAIN_BRANCH \<lparr>ref_snapshot_id = snapshot_id s,
                 ref_retention = (case reference_by_name md MAIN_BRANCH of
                    Some r \<Rightarrow> ref_retention r | None \<Rightarrow> default_retention)\<rparr>,
               RemoveSnapshotRef branch],
              [UuidMatch (table_uuid md), RefSnapshotIdMatch MAIN_BRANCH expected_main,
               RefSnapshotIdMatch branch (Some (snapshot_id s))]))))"

text \<open>\<open>TransactionAction::commit\<close>, dispatched on the action.\<close>

fun action_commit :: "table_action \<Rightarrow> table_metadata \<Rightarrow> action_commit ice_result" where
  "action_commit (SnapshotAction branch sid ts) md = commit_prepared branch sid ts md"
| "action_commit (CreateBranchAction name sid retention if_not_exists) md =
     create_branch_commit name sid retention if_not_exists md"
| "action_commit (CreateTagAction name sid max_ref_age create_or_replace) md =
     create_tag_commit name sid max_ref_age create_or_replace md"
| "action_commit (RemoveRefAction name if_exists) md = remove_ref_commit name if_exists md"
| "action_commit (PublishBranchAction branch expected_main) md = publish_branch_commit branch expected_main md"

lemmas action_commits [simp] = commit_prepared_def create_branch_commit_def create_tag_commit_def remove_ref_commit_def publish_branch_commit_def

text \<open>
  \<open>prepare_commit\<close> runs the actions one after the other, each on the metadata the ones before it left
  (\<open>Transaction::apply\<close>), and collects their updates and requirements.
\<close>

fun run_actions :: "table_action list \<Rightarrow> table_metadata \<Rightarrow> action_commit \<Rightarrow> action_commit ice_result" where
  "run_actions [] md (us, rs) = Ok (us, rs)"
| "run_actions (a # as) md (us, rs) =
     obind (action_commit a md) (\<lambda>(us', rs').
       obind (check_requirements md rs') (\<lambda>_.
         obind (update_table_metadata us' md) (\<lambda>md'.
           run_actions as md' (us @ us', rs @ rs'))))"

definition prepare_commit :: "table_ident \<Rightarrow> table_action list \<Rightarrow> table_metadata \<Rightarrow> table_commit ice_result" where
  "prepare_commit ident actions md = obind (run_actions actions md ([], [])) (\<lambda>(us, rs).
     Ok \<lparr>commit_ident = ident, updates = us, requirements = rs\<rparr>)"

section \<open>Well-formed metadata\<close>

text \<open>
  What \<open>try_normalize\<close> establishes for the modelled part: every snapshot is stored under its id, every
  reference points at a stored snapshot, and \<open>main\<close> is the current snapshot. The head of a reference
  is then its snapshot id, and no lookup panics.
\<close>

definition head_of :: "table_metadata \<Rightarrow> string \<Rightarrow> i64 option" where
  "head_of md name = map_option ref_snapshot_id (map_of (refs md) name)"

definition metadata_wf :: "table_metadata \<Rightarrow> bool" where
  "metadata_wf md \<longleftrightarrow>
     distinct (map fst (refs md)) \<and>
     (\<forall>i s. snapshot_by_id md i = Some s \<longrightarrow> snapshot_id s = i) \<and>
     (\<forall>name i. head_of md name = Some i \<longrightarrow> snapshot_by_id md i \<noteq> None) \<and>
     current_snapshot_id md = head_of md MAIN_BRANCH"

lemma snapshot_for_ref_wf:
  assumes "metadata_wf md"
  obtains s where "snapshot_for_ref md name = Ok s" "head_of md name = map_option snapshot_id s"
proof (cases "map_of (refs md) name")
  case None
  then show ?thesis using that [of None] by (simp add: snapshot_for_ref_def head_of_def)
next
  case (Some r)
  with assms obtain s where "snapshot_by_id md (ref_snapshot_id r) = Some s" "snapshot_id s = ref_snapshot_id r"
    by (fastforce simp: metadata_wf_def head_of_def)
  with Some show ?thesis using that [of "Some s"] by (simp add: snapshot_for_ref_def head_of_def)
qed

lemma check_ref_requirement_wf [simp]:
  assumes "metadata_wf md"
  shows "check_requirement md (RefSnapshotIdMatch name e) = (if head_of md name = e then Ok () else Err conflict_err)"
proof -
  obtain found where "snapshot_for_ref md name = Ok found" "head_of md name = map_option snapshot_id found"
    by (rule snapshot_for_ref_wf [OF assms])
  then show ?thesis by (cases found; cases e) auto
qed

lemma head_of_set_ref:
  assumes "metadata_wf md" "set_ref name r md = Ok md'"
  shows "head_of md' n = (if n = name then Some (ref_snapshot_id r) else head_of md n)"
  using assms by (auto simp: set_ref_def head_of_def AList.update_conv' split: if_splits option.splits)

lemma head_of_remove_ref: "head_of (remove_ref name md) n = (if n = name then None else head_of md n)"
  by (simp add: remove_ref_def head_of_def AList.delete_conv')

lemma set_ref_keeps:
  "set_ref name r md = Ok md' \<Longrightarrow> snapshots md' = snapshots md \<and> table_uuid md' = table_uuid md"
  by (auto simp: set_ref_def split: if_splits option.splits)

lemma remove_ref_keeps [simp]:
  "snapshots (remove_ref name md) = snapshots md" "table_uuid (remove_ref name md) = table_uuid md"
  by (simp_all add: remove_ref_def)

lemma set_ref_wf:
  assumes wf: "metadata_wf md" and set: "set_ref name r md = Ok md'"
  shows "metadata_wf md'"
proof (cases "map_of (refs md) name = Some r")
  case True
  with assms show ?thesis by (simp add: set_ref_def)
next
  case False
  with set obtain s where s: "snapshot_by_id md (ref_snapshot_id r) = Some s"
    and md': "md' = md\<lparr>current_snapshot_id := (if name = MAIN_BRANCH then Some (snapshot_id s) else current_snapshot_id md),
      refs := AList.update name r (refs md)\<rparr>"
    by (auto simp: set_ref_def split: option.splits)
  have "snapshot_id s = ref_snapshot_id r" using s wf by (auto simp: metadata_wf_def)
  then have "current_snapshot_id md' = head_of md' MAIN_BRANCH"
    using wf head_of_set_ref [OF wf set, of MAIN_BRANCH] by (auto simp: metadata_wf_def md')
  moreover have "snapshot_by_id md' i \<noteq> None" if "head_of md' n = Some i" for n i
    using that wf s head_of_set_ref [OF wf set, of n]
    by (auto simp: metadata_wf_def md' snapshot_by_id_def split: if_splits)
  ultimately show ?thesis
    using wf by (auto simp: metadata_wf_def md' snapshot_by_id_def distinct_update)
qed

lemma remove_ref_wf: "metadata_wf md \<Longrightarrow> metadata_wf (remove_ref name md)"
  using AList.distinct_delete [of "refs md" name] head_of_remove_ref [of name md]
  by (auto simp: metadata_wf_def snapshot_by_id_def remove_ref_def split: if_splits)

lemma add_snapshot_wf:
  assumes "metadata_wf md" "add_snapshot s md = Ok md'"
  shows "metadata_wf md'" "head_of md' = head_of md" "table_uuid md' = table_uuid md"
proof -
  from assms(2) have md': "md' = md\<lparr>snapshots := AList.update (snapshot_id s) s (snapshots md)\<rparr>"
    by (auto simp: add_snapshot_def split: if_splits)
  then show h: "head_of md' = head_of md" and "table_uuid md' = table_uuid md"
    by (simp_all add: head_of_def fun_eq_iff)
  have "snapshot_by_id md' i = (if i = snapshot_id s then Some s else snapshot_by_id md i)" for i
    by (simp add: md' snapshot_by_id_def AList.update_conv')
  with assms(1) h show "metadata_wf md'" by (auto simp: metadata_wf_def md')
qed

text \<open>The builder refuses \<open>main\<close> at the id that stands for no snapshot, and keeps everything else as it is.\<close>

lemma build_wf [simp]:
  assumes "metadata_wf md"
  shows "build md = (if head_of md MAIN_BRANCH = Some EMPTY_SNAPSHOT_ID then Err (ice_err DataInvalid) else Ok md)"
proof -
  have "\<not> list_ex (\<lambda>(name, r). snapshot_by_id md (ref_snapshot_id r) = None) (refs md)"
    using assms by (fastforce simp: metadata_wf_def list_ex_iff head_of_def map_of_is_SomeI)
  moreover have "construct_refs (md\<lparr>current_snapshot_id := None\<rparr>) = md\<lparr>current_snapshot_id := None\<rparr>"
    by (simp add: construct_refs_def)
  moreover have "construct_refs md = md"
    using assms by (auto simp: construct_refs_def metadata_wf_def head_of_def split: option.splits)
  moreover have "snapshot_by_id md c \<noteq> None" if "current_snapshot_id md = Some c" for c
    using assms that unfolding metadata_wf_def by metis
  moreover have main: "head_of md MAIN_BRANCH = current_snapshot_id md"
    using assms by (simp add: metadata_wf_def)
  moreover have "map_of (refs md) MAIN_BRANCH = None \<longleftrightarrow> current_snapshot_id md = None"
    "\<And>m. map_of (refs md) MAIN_BRANCH = Some m \<Longrightarrow> current_snapshot_id md = Some (ref_snapshot_id m)"
    using main by (auto simp: head_of_def)
  ultimately show ?thesis
    by (cases "current_snapshot_id md")
       (auto simp: build_def normalize_current_snapshot_def validate_refs_def snapshot_by_id_def split: option.splits)
qed

lemma apply_update_wf: "metadata_wf md \<Longrightarrow> apply_update u md = Ok md' \<Longrightarrow> metadata_wf md'"
  by (cases u) (auto intro: set_ref_wf remove_ref_wf add_snapshot_wf(1))

lemma apply_updates_wf: "metadata_wf md \<Longrightarrow> apply_updates us md = Ok md' \<Longrightarrow> metadata_wf md'"
  by (induction us arbitrary: md) (auto simp: obind_eq_Ok_iff dest: apply_update_wf)

lemma update_table_metadata_wf:
  assumes "metadata_wf md" "update_table_metadata us md = Ok md'"
  shows "metadata_wf md'" "apply_updates us md = Ok md'"
proof -
  from assms obtain m where m: "apply_updates us md = Ok m" "build m = Ok md'"
    by (auto simp: update_table_metadata_def obind_eq_Ok_iff)
  from apply_updates_wf [OF assms(1) m(1)] m(2) have "md' = m" "metadata_wf m" by (simp_all split: if_splits)
  with m show "metadata_wf md'" "apply_updates us md = Ok md'" by simp_all
qed

lemma commit_apply_wf:
  assumes "metadata_wf md" "commit_apply c md = Ok md'"
  shows "metadata_wf md'" "check_requirements md (requirements c) = Ok ()" "apply_updates (updates c) md = Ok md'"
  using assms update_table_metadata_wf [OF assms(1)] by (auto simp: commit_apply_def obind_eq_Ok_iff)

text \<open>On well-formed metadata no lookup, requirement, update or action panics.\<close>

lemma check_requirement_no_panic: "metadata_wf md \<Longrightarrow> check_requirement md r \<noteq> Panic"
  by (cases r) (auto simp del: check_requirement.simps(3))

lemma check_requirements_no_panic: "metadata_wf md \<Longrightarrow> check_requirements md rs \<noteq> Panic"
  by (induction rs) (auto simp: obind_def check_requirement_no_panic split: outcome.split)

lemma apply_update_no_panic: "apply_update u md \<noteq> Panic"
  by (cases u) (auto simp: set_ref_def add_snapshot_def split: option.splits)

lemma update_table_metadata_no_panic:
  assumes "metadata_wf md"
  shows "update_table_metadata us md \<noteq> Panic"
proof -
  have "apply_updates us md \<noteq> Panic" for md
    by (induction us arbitrary: md) (auto simp: obind_def apply_update_no_panic split: outcome.split)
  then show ?thesis
    using apply_updates_wf [OF assms] by (auto simp: update_table_metadata_def obind_def split: outcome.split)
qed

lemma commit_apply_no_panic: "metadata_wf md \<Longrightarrow> commit_apply c md \<noteq> Panic"
  by (auto simp: commit_apply_def obind_def update_table_metadata_no_panic check_requirements_no_panic
      split: outcome.split)

lemma resolve_snapshot_no_panic: "resolve_snapshot md sid \<noteq> Panic"
  by (auto simp: resolve_snapshot_def split: option.splits)

lemma action_commit_no_panic:
  assumes "metadata_wf md"
  shows "action_commit a md \<noteq> Panic"
proof -
  obtain s where s: "snapshot_for_ref md (action_name a) = Ok s"
    by (rule snapshot_for_ref_wf [OF assms])
  obtain m where "snapshot_for_ref md MAIN_BRANCH = Ok m"
    by (rule snapshot_for_ref_wf [OF assms])
  with s show ?thesis
    by (cases a) (auto simp: obind_def Let_def resolve_snapshot_no_panic split: outcome.splits option.splits snapshot_retention.splits)
qed

lemma run_actions_no_panic: "metadata_wf md \<Longrightarrow> run_actions as md acc \<noteq> Panic"
proof (induction as md acc rule: run_actions.induct)
  case (2 a as md us rs)
  show ?case
  proof
    assume "run_actions (a # as) md (us, rs) = Panic"
    then obtain us' rs' md' where *: "action_commit a md = Ok (us', rs')" "check_requirements md rs' = Ok ()"
      "update_table_metadata us' md = Ok md'" "run_actions as md' (us @ us', rs @ rs') = Panic"
      using action_commit_no_panic [OF 2(2)] check_requirements_no_panic [OF 2(2)]
        update_table_metadata_no_panic [OF 2(2)]
      by (auto simp: obind_def split: outcome.splits)
    then show False using 2 update_table_metadata_wf(1) [OF 2(2) *(3)] by blast
  qed
qed simp

lemma prepare_commit_no_panic: "metadata_wf md \<Longrightarrow> prepare_commit i as md \<noteq> Panic"
  by (auto simp: prepare_commit_def obind_def run_actions_no_panic split: outcome.split)

lemma prepare_commit_ident: "prepare_commit i as md = Ok c \<Longrightarrow> commit_ident c = i"
  by (auto simp: prepare_commit_def obind_eq_Ok_iff)

lemma prepare_single:
  assumes "prepare_commit i [a] md = Ok c"
  obtains us rs where "action_commit a md = Ok (us, rs)"
    "c = \<lparr>commit_ident = i, updates = us, requirements = rs\<rparr>"
  using assms by (auto simp: prepare_commit_def obind_eq_Ok_iff)

section \<open>What the actions do to the heads\<close>

lemma publish_branch_effect:
  assumes "metadata_wf m0" "prepare_commit i [PublishBranchAction branch expected] m0 = Ok c"
    and "metadata_wf m" "commit_apply c m = Ok m'"
  obtains h where "head_of m0 branch = Some h" "head_of m0 MAIN_BRANCH = expected" "branch \<noteq> MAIN_BRANCH"
    "head_of m branch = Some h" "head_of m MAIN_BRANCH = expected" "table_uuid m = table_uuid m0"
    "\<And>n. head_of m' n = (if n = MAIN_BRANCH then Some h else if n = branch then None else head_of m n)"
    "snapshots m' = snapshots m"
proof -
  obtain found where f: "snapshot_for_ref m0 branch = Ok found" "head_of m0 branch = map_option snapshot_id found"
    by (rule snapshot_for_ref_wf [OF assms(1)])
  obtain main where mn: "snapshot_for_ref m0 MAIN_BRANCH = Ok main" "head_of m0 MAIN_BRANCH = map_option snapshot_id main"
    by (rule snapshot_for_ref_wf [OF assms(1)])
  from assms(2) obtain us rs where "action_commit (PublishBranchAction branch expected) m0 = Ok (us, rs)"
    "c = \<lparr>commit_ident = i, updates = us, requirements = rs\<rparr>" by (rule prepare_single)
  with f(1) mn(1) obtain s ret where
    s: "found = Some s" "map_option snapshot_id main = expected" "branch \<noteq> MAIN_BRANCH"
    and c: "updates c = [SetSnapshotRef MAIN_BRANCH \<lparr>ref_snapshot_id = snapshot_id s, ref_retention = ret\<rparr>,
        RemoveSnapshotRef branch]"
      "requirements c = [UuidMatch (table_uuid m0), RefSnapshotIdMatch MAIN_BRANCH expected,
        RefSnapshotIdMatch branch (Some (snapshot_id s))]"
    by (auto split: if_splits option.splits)
  from commit_apply_wf [OF assms(3,4)] c assms(3)
  obtain m1 where m1: "set_ref MAIN_BRANCH \<lparr>ref_snapshot_id = snapshot_id s, ref_retention = ret\<rparr> m = Ok m1" "m' = remove_ref branch m1"
    and req: "table_uuid m = table_uuid m0" "head_of m MAIN_BRANCH = expected" "head_of m branch = Some (snapshot_id s)"
    by (auto simp: obind_eq_Ok_iff simp del: check_requirement.simps(3) split: if_splits)
  from m1 s(3) head_of_set_ref [OF assms(3) m1(1)] set_ref_keeps [OF m1(1)]
  have "head_of m' n = (if n = MAIN_BRANCH then Some (snapshot_id s) else if n = branch then None else head_of m n)"
    and "snapshots m' = snapshots m" for n
    by (auto simp: head_of_remove_ref)
  with that [of "snapshot_id s"] f(2) mn(2) s req show thesis by simp
qed

lemma remove_ref_effect:
  assumes "metadata_wf m0" "prepare_commit i [RemoveRefAction name if_exists] m0 = Ok c"
    and "metadata_wf m" "commit_apply c m = Ok m'"
  shows "name \<noteq> MAIN_BRANCH" "head_of m' n = (if n = name \<and> head_of m0 name \<noteq> None then None else head_of m n)"
    "snapshots m' = snapshots m"
proof -
  obtain found where f: "snapshot_for_ref m0 name = Ok found" "head_of m0 name = map_option snapshot_id found"
    by (rule snapshot_for_ref_wf [OF assms(1)])
  from assms(2) obtain us rs where "action_commit (RemoveRefAction name if_exists) m0 = Ok (us, rs)"
    "c = \<lparr>commit_ident = i, updates = us, requirements = rs\<rparr>" by (rule prepare_single)
  with f(1) have *: "name \<noteq> MAIN_BRANCH" "updates c = (if found = None then [] else [RemoveSnapshotRef name])"
    by (auto split: if_splits)
  with f(2) commit_apply_wf(3) [OF assms(3,4)]
  show "name \<noteq> MAIN_BRANCH" "head_of m' n = (if n = name \<and> head_of m0 name \<noteq> None then None else head_of m n)"
    "snapshots m' = snapshots m"
    by (auto simp: head_of_remove_ref split: if_splits)
qed

lemma create_branch_effect:
  assumes "prepare_commit i [CreateBranchAction name (Some base) None False] m0 = Ok c"
    and "metadata_wf m" "commit_apply c m = Ok m'"
  shows "head_of m' n = (if n = name then Some base else head_of m n)" "snapshots m' = snapshots m"
proof -
  from assms(1) obtain us rs where "action_commit (CreateBranchAction name (Some base) None False) m0 = Ok (us, rs)"
    "c = \<lparr>commit_ident = i, updates = us, requirements = rs\<rparr>" by (rule prepare_single)
  then obtain r where "updates c = [SetSnapshotRef name r]" "ref_snapshot_id r = base"
    by (auto simp: resolve_snapshot_def split: if_splits)
  with commit_apply_wf(3) [OF assms(2,3)] head_of_set_ref [OF assms(2)] set_ref_keeps
  show "head_of m' n = (if n = name then Some base else head_of m n)" "snapshots m' = snapshots m"
    by (auto simp: obind_eq_Ok_iff)
qed

end
