(* ===== verification/Iceberg_Catalog.thy ===== *)
theory Iceberg_Catalog
  imports Iceberg_Refs
begin

text \<open>
  Commits through a catalog: the \<open>Catalog\<close> trait of the vendored \<open>iceberg-rust\<close> as an interface, and the
  commit of a transaction with its reload and retry loop (\<open>transaction/mod.rs\<close>).

  A catalog is a record of operations on a world \<open>'w\<close>, which stands for the catalog's store together
  with everybody else who writes to it. The locale \<open>catalog_laws\<close> states what the trait promises: a load
  returns some well-formed metadata of the table, which may be a cached copy; a commit that succeeds was applied in one step, every
  requirement checked, to what was committed just before; a commit that fails was not applied. Between
  any two accesses other clients may act (\<open>ev\<close>), while the commit itself is a step of the store alone (\<open>cm\<close>). A catalog may accept certain commits of a single
  table only (\<open>ok\<close>).
\<close>

section \<open>Tables and the catalog interface\<close>

type_synonym location = nat

record table =
  tbl_ident :: table_ident
  tbl_metadata :: table_metadata
  tbl_location :: location

record 'w catalog =
  load_table :: "table_ident \<Rightarrow> 'w \<Rightarrow> 'w \<times> table ice_result"
  update_table :: "table_commit \<Rightarrow> 'w \<Rightarrow> 'w \<times> table ice_result"
  commit_transaction :: "table_commit list \<Rightarrow> 'w \<Rightarrow> 'w \<times> unit ice_result"
  supports_commit_transaction :: bool

text \<open>\<open>Table::pinned_to_ref\<close>: the table read through a reference.\<close>

definition table_pinned_to_ref :: "table \<Rightarrow> string \<Rightarrow> table option" where
  "table_pinned_to_ref t name =
     map_option (\<lambda>md. t\<lparr>tbl_metadata := md\<rparr>) (pinned_to_ref (tbl_metadata t) name)"

section \<open>Committing a transaction\<close>

record transaction =
  tx_table :: table
  tx_actions :: "table_action list"

definition transaction_new :: "table \<Rightarrow> transaction" where
  "transaction_new t = \<lparr>tx_table = t, tx_actions = []\<rparr>"

definition add_action :: "table_action \<Rightarrow> transaction \<Rightarrow> transaction" where
  "add_action a tx = tx\<lparr>tx_actions := tx_actions tx @ [a]\<rparr>"

text \<open>A stale base is replaced by the refreshed table before the actions run.\<close>

definition refresh :: "table \<Rightarrow> transaction \<Rightarrow> transaction" where
  "refresh refreshed tx =
     (if tbl_metadata (tx_table tx) \<noteq> tbl_metadata refreshed \<or>
         tbl_location (tx_table tx) \<noteq> tbl_location refreshed
      then tx\<lparr>tx_table := refreshed\<rparr> else tx)"

definition do_commit :: "'w catalog \<Rightarrow> transaction \<Rightarrow> 'w \<Rightarrow> 'w \<times> transaction \<times> table ice_result" where
  "do_commit cat tx w = (case load_table cat (tbl_ident (tx_table tx)) w of
     (w1, Err e) \<Rightarrow> (w1, tx, Err e)
   | (w1, Panic) \<Rightarrow> (w1, tx, Panic)
   | (w1, Ok refreshed) \<Rightarrow>
       let tx' = refresh refreshed tx
       in (case prepare_commit (tbl_ident (tx_table tx')) (tx_actions tx') (tbl_metadata (tx_table tx')) of
             Ok c \<Rightarrow> (let (w2, r) = update_table cat c w1 in (w2, tx', r))
           | Err e \<Rightarrow> (w1, tx', Err e)
           | Panic \<Rightarrow> (w1, tx', Panic)))"

lemma refresh_simps:
  assumes "tbl_ident t = tbl_ident (tx_table tx)"
  shows "tbl_metadata (tx_table (refresh t tx)) = tbl_metadata t"
    "tbl_ident (tx_table (refresh t tx)) = tbl_ident (tx_table tx)"
    "tx_actions (refresh t tx) = tx_actions tx"
  using assms by (simp_all add: refresh_def)

text \<open>
  \<open>Transaction::commit\<close>. The number of retries the back-off allows (a table property, four by default)
  is the argument \<open>n\<close>; waiting times are left out.
\<close>

fun commit_retry :: "'w catalog \<Rightarrow> nat \<Rightarrow> transaction \<Rightarrow> 'w \<Rightarrow> 'w \<times> table ice_result" where
  "commit_retry cat n tx w = (case do_commit cat tx w of
     (w', tx', Err e) \<Rightarrow>
       (if retryable e then (case n of 0 \<Rightarrow> (w', Err e) | Suc m \<Rightarrow> commit_retry cat m tx' w')
        else (w', Err e))
   | (w', tx', r) \<Rightarrow> (w', r))"

declare commit_retry.simps [simp del]

definition tx_commit :: "'w catalog \<Rightarrow> nat \<Rightarrow> transaction \<Rightarrow> 'w \<Rightarrow> 'w \<times> table ice_result" where
  "tx_commit cat n tx w = (if tx_actions tx = [] then (w, Ok (tx_table tx)) else commit_retry cat n tx w)"

section \<open>What the trait promises\<close>

type_synonym tables = "table_ident \<Rightarrow> table_metadata option"

text \<open>The atomic effect of a list of commits on the committed metadata.\<close>

fun apply_commits :: "table_commit list \<Rightarrow> tables \<Rightarrow> tables ice_result" where
  "apply_commits [] T = Ok T"
| "apply_commits (c # cs) T = (case T (commit_ident c) of
     None \<Rightarrow> Err (ice_err Unexpected)
   | Some md \<Rightarrow> obind (commit_apply c md) (\<lambda>md'. apply_commits cs (T(commit_ident c \<mapsto> md'))))"

definition main_of :: "tables \<Rightarrow> table_ident \<Rightarrow> i64 option option" where
  "main_of T i = map_option (\<lambda>md. head_of md MAIN_BRANCH) (T i)"

text \<open>
  A commit of \<open>actions\<close> to table \<open>i\<close>: prepared against what was loaded, applied at \<open>w1\<close>.
\<close>

definition own_commit ::
  "('w \<Rightarrow> 'w \<Rightarrow> bool) \<Rightarrow> (table_commit list \<Rightarrow> 'w \<Rightarrow> 'w \<Rightarrow> bool) \<Rightarrow> (table_commit \<Rightarrow> bool) \<Rightarrow>
     table_ident \<Rightarrow> table_action list \<Rightarrow> 'w \<Rightarrow> 'w \<Rightarrow> bool" where
  "own_commit ev cm ok i actions w w' \<longleftrightarrow> (\<exists>m0 c w1.
     metadata_wf m0 \<and> prepare_commit i actions m0 = Ok c \<and> ok c \<and> ev w w1 \<and> cm [c] w1 w')"

text \<open>
  A stretch of time in which \<open>main\<close> of a table is moved by other clients only: their steps, and commits
  of our own that leave every \<open>main\<close> where it was.
\<close>

inductive quiet ::
  "('w \<Rightarrow> tables) \<Rightarrow> ('w \<Rightarrow> 'w \<Rightarrow> bool) \<Rightarrow> (table_commit list \<Rightarrow> 'w \<Rightarrow> 'w \<Rightarrow> bool) \<Rightarrow> 'w \<Rightarrow> 'w \<Rightarrow> bool"
  for T ev cm where
  quiet_refl: "quiet T ev cm w w"
| quiet_env: "quiet T ev cm w w1 \<Longrightarrow> ev w1 w2 \<Longrightarrow> quiet T ev cm w w2"
| quiet_own: "quiet T ev cm w w1 \<Longrightarrow> cm cs w1 w2 \<Longrightarrow>
    main_of (T w2) = main_of (T w1) \<Longrightarrow> quiet T ev cm w w2"

lemma quiet_trans: "quiet T ev cm w1 w2 \<Longrightarrow> quiet T ev cm w0 w1 \<Longrightarrow> quiet T ev cm w0 w2"
  by (induction rule: quiet.induct) (auto intro: quiet.intros)

locale catalog_laws =
  fixes cat :: "'w catalog"
    and T :: "'w \<Rightarrow> tables"
    and ev :: "'w \<Rightarrow> 'w \<Rightarrow> bool"
    and cm :: "table_commit list \<Rightarrow> 'w \<Rightarrow> 'w \<Rightarrow> bool"
    and inv :: "'w \<Rightarrow> bool"
    and ok :: "table_commit \<Rightarrow> bool"
  assumes ev_refl: "ev w w"
    and ev_trans: "ev w w1 \<Longrightarrow> ev w1 w2 \<Longrightarrow> ev w w2"
    and ev_inv: "inv w \<Longrightarrow> ev w w' \<Longrightarrow> inv w'"
    and cm_tables: "cm cs w w' \<Longrightarrow> apply_commits cs (T w) = Ok (T w')"
    and inv_wf: "inv w \<Longrightarrow> T w i = Some md \<Longrightarrow> metadata_wf md"
    and load_evolves: "inv w \<Longrightarrow> load_table cat i w = (w', r) \<Longrightarrow> ev w w' \<and> r \<noteq> Panic"
    and load_ok: "inv w \<Longrightarrow> load_table cat i w = (w', Ok t) \<Longrightarrow>
      tbl_ident t = i \<and> metadata_wf (tbl_metadata t)"
    and update_ok: "inv w \<Longrightarrow> update_table cat c w = (w', Ok t) \<Longrightarrow>
      inv w' \<and> ok c \<and> (\<exists>w1. ev w w1 \<and> cm [c] w1 w')"
    and update_err: "inv w \<Longrightarrow> update_table cat c w = (w', Err e) \<Longrightarrow> ev w w'"
    and update_no_panic: "inv w \<Longrightarrow> snd (update_table cat c w) \<noteq> Panic"
    and commit_ok: "inv w \<Longrightarrow> commit_transaction cat cs w = (w', Ok u) \<Longrightarrow>
      inv w' \<and> (\<exists>w1. ev w w1 \<and> cm cs w1 w')"
    and commit_err: "inv w \<Longrightarrow> commit_transaction cat cs w = (w', Err e) \<Longrightarrow> ev w w'"
    and commit_no_panic: "inv w \<Longrightarrow> snd (commit_transaction cat cs w) \<noteq> Panic"
begin

lemma quiet_ev: "ev w w' \<Longrightarrow> quiet T ev cm w w'"
  by (blast intro: quiet.intros)

lemma do_commit_spec:
  assumes "inv w" "do_commit cat tx w = (w', tx', r)"
  shows "inv w' \<and> r \<noteq> Panic \<and> (\<forall>e. r = Err e \<longrightarrow> ev w w') \<and>
    tbl_ident (tx_table tx') = tbl_ident (tx_table tx) \<and> tx_actions tx' = tx_actions tx \<and>
    (\<forall>t. r = Ok t \<longrightarrow> own_commit ev cm ok (tbl_ident (tx_table tx)) (tx_actions tx) w w')"
proof -
  obtain w1 l where l: "load_table cat (tbl_ident (tx_table tx)) w = (w1, l)" by fastforce
  note ev1 = load_evolves [OF assms(1) l]
  then have inv1: "inv w1" using ev_inv [OF assms(1)] by blast
  show ?thesis
  proof (cases l)
    case (Ok t)
    note t = load_ok [OF assms(1) l [unfolded Ok]]
    note keeps = refresh_simps [of t tx]
    show ?thesis
    proof (cases "prepare_commit (tbl_ident (tx_table tx)) (tx_actions tx) (tbl_metadata t)")
      case c: (Ok c)
      obtain w2 r2 where u: "update_table cat c w1 = (w2, r2)" by fastforce
      from assms(2) l Ok c u t keeps have res: "w' = w2" "tx' = refresh t tx" "r = r2"
        by (simp_all add: do_commit_def)
      have "own_commit ev cm ok (tbl_ident (tx_table tx)) (tx_actions tx) w w2 \<and> inv w2" if "r2 = Ok t2" for t2
        using update_ok [OF inv1 u [unfolded that]] t c ev1 ev_trans unfolding own_commit_def by blast
      moreover have "ev w w2 \<and> inv w2" if "r2 = Err e" for e
        using update_err [OF inv1 u [unfolded that]] ev1 ev_trans ev_inv inv1 by blast
      moreover have "r2 \<noteq> Panic" using update_no_panic [OF inv1, of c] u by simp
      ultimately show ?thesis
        using keeps t unfolding res by (cases r2) auto
    qed (use assms(2) l Ok ev1 inv1 keeps t prepare_commit_no_panic in
        \<open>auto simp: do_commit_def\<close>)
  qed (use assms(2) l ev1 inv1 in \<open>auto simp: do_commit_def\<close>)
qed

lemma own_commit_after: "ev w w1 \<Longrightarrow> own_commit ev cm ok i acts w1 w' \<Longrightarrow> own_commit ev cm ok i acts w w'"
  unfolding own_commit_def using ev_trans by meson

lemma commit_retry_spec:
  assumes "inv w" "commit_retry cat n tx w = (w', r)"
  shows "inv w' \<and> r \<noteq> Panic \<and> (\<forall>e. r = Err e \<longrightarrow> ev w w') \<and>
    (\<forall>t. r = Ok t \<longrightarrow> own_commit ev cm ok (tbl_ident (tx_table tx)) (tx_actions tx) w w')"
  using assms
proof (induction n arbitrary: tx w)
  case 0
  obtain w1 tx1 r1 where d: "do_commit cat tx w = (w1, tx1, r1)" by (metis prod_cases3)
  from do_commit_spec [OF 0(1) d] 0(2) show ?case
    by (subst (asm) commit_retry.simps) (auto simp: d split: outcome.splits if_splits)
next
  case (Suc n)
  obtain w1 tx1 r1 where d: "do_commit cat tx w = (w1, tx1, r1)" by (metis prod_cases3)
  note spec = do_commit_spec [OF Suc.prems(1) d]
  show ?case
  proof (cases "\<exists>e. r1 = Err e \<and> retryable e")
    case True
    then obtain e where e: "r1 = Err e" "retryable e" by blast
    with Suc.prems(2) have "commit_retry cat n tx1 w1 = (w', r)"
      by (subst (asm) commit_retry.simps) (simp add: d)
    with Suc.IH [of w1 tx1] spec e show ?thesis
      using ev_trans own_commit_after by metis
  next
    case False
    with Suc.prems(2) spec show ?thesis
      by (subst (asm) commit_retry.simps) (auto simp: d split: outcome.splits if_splits)
  qed
qed

lemma tx_commit_spec:
  assumes "inv w" "tx_commit cat n tx w = (w', r)" "tx_actions tx \<noteq> []"
  shows "inv w'" "r \<noteq> Panic" "r = Err e \<Longrightarrow> ev w w'"
    "r = Ok t \<Longrightarrow> own_commit ev cm ok (tbl_ident (tx_table tx)) (tx_actions tx) w w'"
  using commit_retry_spec [OF assms(1), of n tx w' r] assms(2,3) by (auto simp: tx_commit_def)

text \<open>The three branch operations of a transaction, seen through the trait.\<close>

lemma single_commit:
  assumes "own_commit ev cm ok i acts w w'" "inv w"
  obtains m0 c w1 m m' where "metadata_wf m0" "prepare_commit i acts m0 = Ok c" "ev w w1"
    "T w1 i = Some m" "metadata_wf m" "commit_apply c m = Ok m'" "T w' = (T w1)(i \<mapsto> m')"
    "cm [c] w1 w'" "ok c"
proof -
  from assms(1) obtain m0 c w1 where *: "metadata_wf m0" "prepare_commit i acts m0 = Ok c"
    "ev w w1" "cm [c] w1 w'" "ok c" by (auto simp: own_commit_def)
  moreover from * ev_inv assms(2) have "inv w1" by blast
  moreover from cm_tables [OF *(4)] prepare_commit_ident [OF *(2)] obtain m m' where "T w1 i = Some m" "commit_apply c m = Ok m'"
    "T w' = (T w1)(i \<mapsto> m')"
    by (auto simp: obind_eq_Ok_iff split: option.splits)
  ultimately show ?thesis using that inv_wf by blast
qed

lemma publish_commit:
  assumes "own_commit ev cm ok i [PublishBranchAction branch expected] w w'" "inv w"
  obtains w1 c m m' h where "ev w w1" "cm [c] w1 w'" "T w1 i = Some m" "T w' = (T w1)(i \<mapsto> m')"
    "head_of m branch = Some h" "head_of m MAIN_BRANCH = expected"
    "\<And>n. head_of m' n = (if n = MAIN_BRANCH then Some h else if n = branch then None else head_of m n)"
    "snapshots m' = snapshots m"
proof -
  from assms obtain m0 c w1 m m' where *: "metadata_wf m0"
    "prepare_commit i [PublishBranchAction branch expected] m0 = Ok c" "ev w w1" "T w1 i = Some m"
    "metadata_wf m" "commit_apply c m = Ok m'" "T w' = (T w1)(i \<mapsto> m')" "cm [c] w1 w'"
    by (rule single_commit)
  show thesis
    by (rule publish_branch_effect [OF *(1,2,5,6)]) (rule that [OF *(3,8,4,7)], simp_all)
qed

lemma main_of_update: "T v i = Some m \<Longrightarrow> T v' = (T v)(i \<mapsto> m') \<Longrightarrow> head_of m' MAIN_BRANCH = head_of m MAIN_BRANCH \<Longrightarrow>
  main_of (T v') = main_of (T v)"
  by (auto simp: main_of_def fun_eq_iff)

lemma remove_commit_quiet:
  assumes "own_commit ev cm ok i [RemoveRefAction name if_exists] w w'" "inv w"
  shows "quiet T ev cm w w'"
proof -
  from assms obtain m0 c w1 m m' where *: "metadata_wf m0"
    "prepare_commit i [RemoveRefAction name if_exists] m0 = Ok c" "ev w w1" "T w1 i = Some m"
    "metadata_wf m" "commit_apply c m = Ok m'" "T w' = (T w1)(i \<mapsto> m')" "cm [c] w1 w'"
    by (rule single_commit)
  note effect = remove_ref_effect [OF *(1,2,5,6)]
  have "main_of (T w') = main_of (T w1)"
    by (rule main_of_update [OF *(4,7)]) (simp add: effect(1) effect(1) [symmetric] effect(2))
  then show ?thesis by (rule quiet_own [OF quiet_ev [OF *(3)] *(8)])
qed

end

end
