(* ===== verification/Txn_Scope.thy ===== *)
theory Txn_Scope
  imports Iceberg_Catalog "HOL-Library.List_Lexorder" "HOL-Library.Char_ord"
begin

text \<open>
  Explicit transactions (\<open>crates/sqe-catalog/src/txn.rs\<close>) and the checks of the session catalog that
  every statement of a transaction commits through (\<open>SessionCatalogBridge\<close> in
  \<open>crates/sqe-catalog/src/rest_catalog.rs\<close>).

  A transaction writes to a branch of its own, \<open>sqe-txn-<id>\<close>, of every table it writes. COMMIT moves
  \<open>main\<close> of every table to the branch head in one catalog commit (\<open>publish\<close>), ROLLBACK drops the
  branches (\<open>discard\<close>). The catalog is a parameter, the record of the \<open>Catalog\<close> trait; the scope of a
  transaction, which the code shares behind a pointer, is passed and returned.
\<close>

section \<open>Transaction branches\<close>

definition TXN_BRANCH_PREFIX :: string where
  "TXN_BRANCH_PREFIX = ''sqe-txn-''"

text \<open>Durations are in milliseconds.\<close>

definition MAX_LIFETIME :: nat where
  "MAX_LIFETIME = 24 * 60 * 60 * 1000"

definition STALE_MARGIN_MS :: nat where
  "STALE_MARGIN_MS = 60 * 60 * 1000"

definition is_txn_ref :: "string \<Rightarrow> bool" where
  "is_txn_ref name = starts_with name TXN_BRANCH_PREFIX"

definition reject_txn_ref :: "string \<Rightarrow> sqe_error + unit" where
  "reject_txn_ref name =
     (if is_txn_ref name then Inl (with_code InvalidArguments
        (name @ '': branch names starting with '' @ TXN_BRANCH_PREFIX @ '' are reserved for transactions''))
      else Inr ())"

text \<open>
  The snapshots from \<open>head\<close> to the root. The iterator of the code does not stop on a cycle of parents;
  \<open>None\<close> is that case.
\<close>

partial_function (option) ancestry :: "table_metadata \<Rightarrow> i64 \<Rightarrow> i64 list option" where
  "ancestry md head = (case snapshot_by_id md head of
     None \<Rightarrow> Some []
   | Some s \<Rightarrow> (case parent_snapshot_id s of
       None \<Rightarrow> Some [snapshot_id s]
     | Some p \<Rightarrow> Option.bind (ancestry md p) (\<lambda>rest. Some (snapshot_id s # rest))))"

declare ancestry.simps [code]

fun ancestries :: "table_metadata \<Rightarrow> (string \<times> snapshot_reference) list \<Rightarrow> i64 list option" where
  "ancestries md [] = Some []"
| "ancestries md ((name, r) # rs) =
     Option.bind (ancestry md (ref_snapshot_id r)) (\<lambda>a.
       Option.bind (ancestries md rs) (\<lambda>rest. Some (a @ rest)))"

definition txn_private_snapshots :: "table_metadata \<Rightarrow> i64 set option" where
  "txn_private_snapshots md =
     (let (txn_refs, public_refs) = partition (is_txn_ref \<circ> fst) (refs md)
      in if txn_refs = [] then Some {}
         else Option.bind (ancestries md public_refs) (\<lambda>public.
           Option.bind (ancestries md txn_refs) (\<lambda>private.
             Some (set (filter (\<lambda>i. i \<notin> set public) private)))))"

text \<open>\<open>i64::saturating_sub\<close>, on the values the words stand for.\<close>

definition i64_saturating_sub :: "int \<Rightarrow> int \<Rightarrow> int" where
  "i64_saturating_sub a b = max (- (2 ^ 63)) (min (2 ^ 63 - 1) (a - b))"

definition stale_cutoff :: "i64 \<Rightarrow> int" where
  "stale_cutoff now_ms = i64_saturating_sub (i64_saturating_sub (sint now_ms) (int MAX_LIFETIME)) (int STALE_MARGIN_MS)"

definition stale_txn_refs :: "table_metadata \<Rightarrow> i64 \<Rightarrow> string list option" where
  "stale_txn_refs md now_ms = Option.bind (txn_private_snapshots md) (\<lambda>private.
     Some (sort (map fst (filter (\<lambda>(name, r). is_txn_ref name \<and> ref_snapshot_id r \<in> private \<and>
        (case snapshot_by_id md (ref_snapshot_id r) of
           None \<Rightarrow> False | Some s \<Rightarrow> sint (timestamp_ms s) < stale_cutoff now_ms)) (refs md)))))"

section \<open>The scope of a transaction\<close>

record txn_table =
  txn_uuid :: uuid
  txn_ident :: table_ident
  base_snapshot_id :: "i64 option"
  txn_branch :: string

record 'w txn_scope =
  scope_id :: string
  scope_tables :: "txn_table list"
  scope_catalog_key :: "string option"
  scope_catalog :: "'w catalog option"
  published :: "(table_ident \<times> i64) list"

definition scope_new :: "string \<Rightarrow> 'w txn_scope" where
  "scope_new i = \<lparr>scope_id = i, scope_tables = [], scope_catalog_key = None, scope_catalog = None, published = []\<rparr>"

definition bind_key :: "string \<Rightarrow> 'w txn_scope \<Rightarrow> 'w txn_scope" where
  "bind_key key txn = txn\<lparr>scope_catalog_key := Some key\<rparr>"

definition bind_catalog :: "string \<Rightarrow> 'w catalog \<Rightarrow> 'w txn_scope \<Rightarrow> 'w txn_scope" where
  "bind_catalog key cat txn = (bind_key key txn)\<lparr>scope_catalog := Some cat\<rparr>"

definition branch_name :: "'w txn_scope \<Rightarrow> string" where
  "branch_name txn = TXN_BRANCH_PREFIX @ scope_id txn"

definition set_published :: "(table_ident \<times> i64) list \<Rightarrow> 'w txn_scope \<Rightarrow> 'w txn_scope" where
  "set_published heads txn = txn\<lparr>published := heads\<rparr>"

definition claimed :: "'w txn_scope \<Rightarrow> uuid \<Rightarrow> txn_table option" where
  "claimed txn u = find (\<lambda>t. txn_uuid t = u) (scope_tables txn)"

definition claimed_branch :: "'w txn_scope \<Rightarrow> uuid \<Rightarrow> string option" where
  "claimed_branch txn u = map_option txn_branch (claimed txn u)"

definition record_table :: "txn_table \<Rightarrow> 'w txn_scope \<Rightarrow> 'w txn_scope" where
  "record_table t txn =
     (if list_ex (\<lambda>t'. txn_uuid t' = txn_uuid t) (scope_tables txn) then txn
      else txn\<lparr>scope_tables := scope_tables txn @ [t]\<rparr>)"

text \<open>
  What a statement runs in: \<open>scope\<close> and \<open>write_scope\<close>. The values bound to placeholders and the types of
  an INSERT target, which the task-local also holds, are left out.
\<close>

record 'w statement_scope =
  current_txn :: "'w txn_scope option"
  write_branch :: "string option"

definition in_scope :: "'w txn_scope option \<Rightarrow> 'w statement_scope" where
  "in_scope txn = \<lparr>current_txn = txn, write_branch = None\<rparr>"

definition in_write_scope :: "'w txn_scope option \<Rightarrow> string option \<Rightarrow> 'w statement_scope" where
  "in_write_scope txn wb =
     \<lparr>current_txn = txn, write_branch = (case txn of Some _ \<Rightarrow> None | None \<Rightarrow> wb)\<rparr>"

definition ident_display :: "table_ident \<Rightarrow> string" where
  "ident_display i = join ''.'' (namespace i) @ ''.'' @ ident_name i"

definition admit :: "'w txn_scope \<Rightarrow> table_ident \<Rightarrow> string \<Rightarrow> bool \<Rightarrow> sqe_error + unit" where
  "admit txn ident key atomic_multi_table =
     (if (case scope_catalog_key txn of None \<Rightarrow> False | Some bound \<Rightarrow> bound \<noteq> key)
      then Inl (with_code NotSupported (''A transaction cannot write tables in two catalogs: '' @ ident_display ident))
      else if list_ex (\<lambda>t. txn_ident t \<noteq> ident) (scope_tables txn) \<and> \<not> atomic_multi_table
      then Inl (with_code NotSupported
        (''Multi-table writes not supported in a single transaction on this catalog: '' @ ident_display ident))
      else Inr ())"

datatype pin = Unpinned table | Pinned table | Stale string

definition pin_table :: "'w statement_scope \<Rightarrow> table \<Rightarrow> pin" where
  "pin_table ss t = (case write_branch ss of
     Some b \<Rightarrow> (case table_pinned_to_ref t b of Some p \<Rightarrow> Pinned p | None \<Rightarrow> Unpinned t)
   | None \<Rightarrow> (case Option.bind (current_txn ss) (\<lambda>txn. claimed txn (table_uuid (tbl_metadata t))) of
       None \<Rightarrow> Unpinned t
     | Some c \<Rightarrow> (case table_pinned_to_ref t (txn_branch c) of
         Some p \<Rightarrow> Pinned p
       | None \<Rightarrow> if base_snapshot_id c = None then Unpinned t else Stale (txn_branch c))))"

text \<open>
  \<open>SessionCatalog::load_table\<close>: the cached copy, or a fresh load when the copy predates the branch.
\<close>

definition pin_to_txn_branch ::
  "'w catalog \<Rightarrow> 'w statement_scope \<Rightarrow> table \<Rightarrow> 'w \<Rightarrow> 'w \<times> (sqe_error, table) outcome" where
  "pin_to_txn_branch cat ss t w = (case pin_table ss t of
     Unpinned t \<Rightarrow> (w, Ok t)
   | Pinned t \<Rightarrow> (w, Ok t)
   | Stale b \<Rightarrow> (case load_table cat (tbl_ident t) w of
       (w', Err e) \<Rightarrow> (w', Err (catalog_src (''Failed to load table '' @ ident_display (tbl_ident t)) (chain e)))
     | (w', Panic) \<Rightarrow> (w', Panic)
     | (w', Ok t') \<Rightarrow> (w', case pin_table ss t' of
         Unpinned t \<Rightarrow> Ok t
       | Pinned t \<Rightarrow> Ok t
       | Stale branch \<Rightarrow> Err (with_code TransactionConflict
           (''transaction branch '' @ branch @ '' of '' @ ident_display (tbl_ident t) @
            '' is gone; the transaction was rolled back'')))))"

section \<open>The session catalog\<close>

text \<open>
  The world of a statement: the store, and the scope of the transaction it runs in, if any. Whether the
  catalog can commit several tables at once is what it supports or, for a REST server, advertises.
\<close>

type_synonym 'w stmt_world = "'w \<times> 'w txn_scope option"

definition admit_txn_write_in :: "'w catalog \<Rightarrow> string \<Rightarrow> 'w txn_scope \<Rightarrow> table_ident \<Rightarrow> sqe_error + unit" where
  "admit_txn_write_in cat key txn ident =
     (let needs_atomic = list_ex (\<lambda>t. txn_ident t \<noteq> ident) (scope_tables txn);
          atomic = (if needs_atomic then supports_commit_transaction cat else True)
      in admit txn ident key atomic)"

definition sets_ref :: "table_commit \<Rightarrow> string \<Rightarrow> bool" where
  "sets_ref c name = list_ex (\<lambda>u. case u of SetSnapshotRef n r \<Rightarrow> n = name | _ \<Rightarrow> False) (updates c)"

definition bridge_error :: "sqe_error \<Rightarrow> iceberg_error" where
  "bridge_error e = \<lparr>kind = Unexpected, retryable = False, chain = [(None, display_error e)]\<rparr>"

definition bridge_update_table ::
  "'w catalog \<Rightarrow> string \<Rightarrow> string option \<Rightarrow> table_commit \<Rightarrow> 'w stmt_world \<Rightarrow> 'w stmt_world \<times> table ice_result" where
  "bridge_update_table cat key wb c sw = (case sw of (w, txn) \<Rightarrow>
     if txn \<noteq> None \<and> sets_ref c MAIN_BRANCH then (sw, Err (ice_err FeatureUnsupported))
     else if wb \<noteq> None \<and> sets_ref c MAIN_BRANCH then (sw, Err (ice_err FeatureUnsupported))
     else case txn of
       Some t \<Rightarrow>
         if sets_ref c (branch_name t) then
           (case admit_txn_write_in cat key t (commit_ident c) of
              Inl e \<Rightarrow> (sw, Err (bridge_error e))
            | Inr _ \<Rightarrow> (case update_table cat c w of
                (w', Ok r) \<Rightarrow> ((w', Some (bind_catalog key cat t)), Ok r)
              | (w', r) \<Rightarrow> ((w', txn), r)))
         else (let (w', r) = update_table cat c w in ((w', txn), r))
     | None \<Rightarrow> (let (w', r) = update_table cat c w in ((w', txn), r)))"

text \<open>The scope that reads are pinned by: the transaction of the world and the write branch.\<close>

definition bridge_load_table ::
  "'w catalog \<Rightarrow> string option \<Rightarrow> table_ident \<Rightarrow> 'w stmt_world \<Rightarrow> 'w stmt_world \<times> table ice_result" where
  "bridge_load_table cat wb i sw = (case sw of (w, txn) \<Rightarrow>
     (case load_table cat i w of
        (w', Err e) \<Rightarrow> ((w', txn), Err e)
      | (w', Panic) \<Rightarrow> ((w', txn), Panic)
      | (w', Ok t) \<Rightarrow>
          (case pin_to_txn_branch cat \<lparr>current_txn = txn, write_branch = wb\<rparr> t w' of
             (w'', Ok t') \<Rightarrow> ((w'', txn), Ok t')
           | (w'', Err e) \<Rightarrow> ((w'', txn), Err (bridge_error e))
           | (w'', Panic) \<Rightarrow> ((w'', txn), Panic))))"

definition bridge_commit_transaction ::
  "'w catalog \<Rightarrow> table_commit list \<Rightarrow> 'w stmt_world \<Rightarrow> 'w stmt_world \<times> unit ice_result" where
  "bridge_commit_transaction cat cs sw = (let (w', r) = commit_transaction cat cs (fst sw) in ((w', snd sw), r))"

definition session_bridge :: "'w catalog \<Rightarrow> string \<Rightarrow> string option \<Rightarrow> 'w stmt_world catalog" where
  "session_bridge cat key wb =
     \<lparr>load_table = bridge_load_table cat wb, update_table = bridge_update_table cat key wb,
      commit_transaction = bridge_commit_transaction cat,
      supports_commit_transaction = supports_commit_transaction cat\<rparr>"

section \<open>The branch of a write\<close>

definition existing_write_branch :: "table \<Rightarrow> string \<Rightarrow> (sqe_error, string) outcome" where
  "existing_write_branch t branch =
     (if (case reference_by_name (tbl_metadata t) branch of None \<Rightarrow> False | Some r \<Rightarrow> \<not> is_branch r)
      then Err (with_code InvalidArguments (''WRITE_BRANCH '' @ branch @ '' is a tag on '' @ ident_display (tbl_ident t)))
      else case snapshot_for_ref (tbl_metadata t) branch of
        Ok (Some s) \<Rightarrow> Ok branch
      | Ok None \<Rightarrow> Err (with_code InvalidArguments
          (''WRITE_BRANCH '' @ branch @ '' does not exist on '' @ ident_display (tbl_ident t)))
      | Err e \<Rightarrow> Err (catalog_src [] (chain e))
      | Panic \<Rightarrow> Panic)"

definition target_branch ::
  "'w catalog \<Rightarrow> string \<Rightarrow> string option \<Rightarrow> nat \<Rightarrow> table \<Rightarrow> 'w stmt_world \<Rightarrow>
     'w stmt_world \<times> (sqe_error, string option) outcome" where
  "target_branch cat key wb n t sw = (case wb of
     Some b \<Rightarrow> (sw, case existing_write_branch t b of Ok b \<Rightarrow> Ok (Some b) | Err e \<Rightarrow> Err e | Panic \<Rightarrow> Panic)
   | None \<Rightarrow> (case snd sw of
       None \<Rightarrow> (sw, Ok None)
     | Some txn \<Rightarrow> (case claimed_branch txn (table_uuid (tbl_metadata t)) of
         Some b \<Rightarrow> (sw, Ok (Some b))
       | None \<Rightarrow>
         let branch = branch_name txn;
             base = current_snapshot_id (tbl_metadata t);
             claim = \<lparr>txn_uuid = table_uuid (tbl_metadata t), txn_ident = tbl_ident t,
                      base_snapshot_id = base, txn_branch = branch\<rparr>
         in (case base of
               None \<Rightarrow> ((fst sw, map_option (record_table claim) (snd sw)), Ok (Some branch))
             | Some b \<Rightarrow>
               (case tx_commit (session_bridge cat key wb) n
                       (add_action (CreateBranchAction branch (Some b) None False) (transaction_new t)) sw of
                  (sw', Ok _) \<Rightarrow> ((fst sw', map_option (record_table claim) (snd sw')), Ok (Some branch))
                | (sw', Err e) \<Rightarrow> (sw', Err (catalog_src
                    (''Failed to create transaction branch '' @ branch @ '' on '' @ ident_display (tbl_ident t)) (chain e)))
                | (sw', Panic) \<Rightarrow> (sw', Panic))))))"

section \<open>ROLLBACK\<close>

fun discard_tables :: "'w catalog \<Rightarrow> nat \<Rightarrow> txn_table list \<Rightarrow> 'w \<Rightarrow> 'w \<times> nat" where
  "discard_tables cat n [] w = (w, 0)"
| "discard_tables cat n (t # ts) w =
     (let (w1, dropped) = (case load_table cat (txn_ident t) w of
            (w1, Ok table) \<Rightarrow>
              tx_commit cat n (add_action (RemoveRefAction (txn_branch t) True) (transaction_new table)) w1
          | (w1, Err e) \<Rightarrow> (w1, Err e)
          | (w1, Panic) \<Rightarrow> (w1, Panic));
          (w2, failed) = discard_tables cat n ts w1
      in (w2, (case dropped of Ok _ \<Rightarrow> 0 | _ \<Rightarrow> 1) + failed))"

definition discard :: "nat \<Rightarrow> 'w txn_scope \<Rightarrow> 'w \<Rightarrow> 'w \<times> nat" where
  "discard n txn w = (case scope_catalog txn of
     None \<Rightarrow> (w, 0) | Some cat \<Rightarrow> discard_tables cat n (scope_tables txn) w)"

section \<open>COMMIT\<close>

definition MAX_ATTEMPTS :: nat where
  "MAX_ATTEMPTS = 4"

definition conflict :: "string \<Rightarrow> iceberg_error \<Rightarrow> sqe_error" where
  "conflict names e = with_code TransactionConflict
     (''Transaction on '' @ names @ '' rolled back: '' @ chain_text (chain e))"

definition branch_head :: "table \<Rightarrow> string \<Rightarrow> i64 option ice_result" where
  "branch_head t branch = obind (snapshot_for_ref (tbl_metadata t) branch) (\<lambda>s. Ok (map_option snapshot_id s))"

definition commit_lost :: "iceberg_error \<Rightarrow> bool" where
  "commit_lost e = (kind e = CatalogCommitConflicts \<or> retryable e)"

text \<open>
  Both publish paths make up to four attempts: an attempt is finished with a result, or lost to another
  writer, after which the tables are loaded again.
\<close>

datatype 'a attempt = Finished "(sqe_error, 'a) outcome" | Lost iceberg_error

fun attempts ::
  "('w \<Rightarrow> 'w \<times> 'a attempt) \<Rightarrow> string \<Rightarrow> nat \<Rightarrow> 'w \<Rightarrow> 'w \<times> (sqe_error, 'a) outcome" where
  "attempts once names attempts_left w = (case once w of
     (w', Finished r) \<Rightarrow> (w', r)
   | (w', Lost e) \<Rightarrow> (case attempts_left of
       0 \<Rightarrow> (w', Err (conflict names e))
     | Suc m \<Rightarrow> attempts once names m w'))"

declare attempts.simps [simp del]

definition publish_branch_once ::
  "'w catalog \<Rightarrow> nat \<Rightarrow> txn_table \<Rightarrow> 'w \<Rightarrow> 'w \<times> (table_ident \<times> i64) option attempt" where
  "publish_branch_once cat n t w =
     (let name = ident_display (txn_ident t) in
      case load_table cat (txn_ident t) w of
        (w1, Err e) \<Rightarrow> (w1, Finished (Err (catalog_src (''Failed to load table '' @ name) (chain e))))
      | (w1, Panic) \<Rightarrow> (w1, Finished Panic)
      | (w1, Ok table) \<Rightarrow>
        (case branch_head table (txn_branch t) of
           Panic \<Rightarrow> (w1, Finished Panic)
         | Err e \<Rightarrow> (w1, Finished (Err (conflict name e)))
         | Ok head \<Rightarrow>
           (case tx_commit cat n (add_action (PublishBranchAction (txn_branch t) (base_snapshot_id t))
                   (transaction_new table)) w1 of
              (w2, Ok _) \<Rightarrow> (w2, Finished (Ok (map_option (\<lambda>h. (txn_ident t, h)) head)))
            | (w2, Panic) \<Rightarrow> (w2, Finished Panic)
            | (w2, Err e) \<Rightarrow> (w2,
                if kind e = PreconditionFailed then Finished (Err (conflict name e))
                else if commit_lost e then Lost e
                else Finished (Err (catalog_src (''Failed to commit transaction on '' @ name) (chain e)))))))"

definition publish_branch ::
  "'w catalog \<Rightarrow> nat \<Rightarrow> txn_table \<Rightarrow> 'w \<Rightarrow> 'w \<times> (sqe_error, (table_ident \<times> i64) option) outcome" where
  "publish_branch cat n t w =
     attempts (publish_branch_once cat n t) (ident_display (txn_ident t)) (MAX_ATTEMPTS - 1) w"

text \<open>One attempt of \<open>publish_branches\<close>: load every table and prepare its commit.\<close>

fun prepare_all ::
  "'w catalog \<Rightarrow> string \<Rightarrow> txn_table list \<Rightarrow> 'w \<Rightarrow>
     'w \<times> (sqe_error, table_commit list \<times> (table_ident \<times> i64) list) outcome" where
  "prepare_all cat names [] w = (w, Ok ([], []))"
| "prepare_all cat names (t # ts) w =
     (let name = ident_display (txn_ident t) in
      case load_table cat (txn_ident t) w of
        (w1, Err e) \<Rightarrow> (w1, Err (catalog_src (''Failed to load table '' @ name) (chain e)))
      | (w1, Panic) \<Rightarrow> (w1, Panic)
      | (w1, Ok table) \<Rightarrow>
        (case branch_head table (txn_branch t) of
           Panic \<Rightarrow> (w1, Panic)
         | Err e \<Rightarrow> (w1, Err (conflict names e))
         | Ok head \<Rightarrow>
           if base_snapshot_id t = None \<and> current_snapshot_id (tbl_metadata table) = None \<and> head = None
           then prepare_all cat names ts w1
           else
             (case prepare_commit (tbl_ident table) [PublishBranchAction (txn_branch t) (base_snapshot_id t)]
                     (tbl_metadata table) of
                Err e \<Rightarrow> (w1, Err (if kind e = PreconditionFailed then conflict names e
                    else catalog_src (''Failed to prepare the commit of '' @ name) (chain e)))
              | Panic \<Rightarrow> (w1, Panic)
              | Ok c \<Rightarrow> (case prepare_all cat names ts w1 of
                  (w2, Ok (cs, heads)) \<Rightarrow>
                    (w2, Ok (c # cs, (case head of None \<Rightarrow> [] | Some h \<Rightarrow> [(txn_ident t, h)]) @ heads))
                | (w2, Err e) \<Rightarrow> (w2, Err e)
                | (w2, Panic) \<Rightarrow> (w2, Panic)))))"

definition publish_branches_once ::
  "'w catalog \<Rightarrow> string \<Rightarrow> txn_table list \<Rightarrow> 'w \<Rightarrow> 'w \<times> (table_ident \<times> i64) list attempt" where
  "publish_branches_once cat names ts w = (case prepare_all cat names ts w of
     (w1, Err e) \<Rightarrow> (w1, Finished (Err e))
   | (w1, Panic) \<Rightarrow> (w1, Finished Panic)
   | (w1, Ok (cs, heads)) \<Rightarrow>
     if cs = [] then (w1, Finished (Ok heads))
     else (case commit_transaction cat cs w1 of
         (w2, Ok _) \<Rightarrow> (w2, Finished (Ok heads))
       | (w2, Panic) \<Rightarrow> (w2, Finished Panic)
       | (w2, Err e) \<Rightarrow> (w2,
           if kind e = FeatureUnsupported
           then Finished (Err (with_code NotSupported (''Cannot commit '' @ names @ '' atomically: '' @ chain_text (chain e))))
           else if commit_lost e then Lost e
           else Finished (Err (catalog_src (''Failed to commit transaction on '' @ names) (chain e))))))"

definition publish_branches ::
  "'w catalog \<Rightarrow> txn_table list \<Rightarrow> 'w \<Rightarrow> 'w \<times> (sqe_error, (table_ident \<times> i64) list) outcome" where
  "publish_branches cat ts w =
     (let names = join '', '' (map (\<lambda>t. ident_display (txn_ident t)) ts)
      in attempts (publish_branches_once cat names ts) names (MAX_ATTEMPTS - 1) w)"

definition publish_tables ::
  "'w catalog \<Rightarrow> nat \<Rightarrow> txn_table list \<Rightarrow> 'w \<Rightarrow> 'w \<times> (sqe_error, (table_ident \<times> i64) list) outcome" where
  "publish_tables cat n ts w = (case ts of
     [t] \<Rightarrow> (case publish_branch cat n t w of
         (w', Ok head) \<Rightarrow> (w', Ok (case head of None \<Rightarrow> [] | Some h \<Rightarrow> [h]))
       | (w', Err e) \<Rightarrow> (w', Err e)
       | (w', Panic) \<Rightarrow> (w', Panic))
   | _ \<Rightarrow> publish_branches cat ts w)"

definition publish ::
  "nat \<Rightarrow> 'w txn_scope \<Rightarrow> 'w \<Rightarrow> 'w \<times> 'w txn_scope \<times> (sqe_error, unit) outcome" where
  "publish n txn w = (case scope_catalog txn of
     None \<Rightarrow> (w, txn, Ok ())
   | Some cat \<Rightarrow>
     if scope_tables txn = [] then (w, txn, Ok ())
     else (case publish_tables cat n (scope_tables txn) w of
         (w', Ok heads) \<Rightarrow> (w', set_published heads txn, Ok ())
       | (w', Err e) \<Rightarrow>
           (if error_code e = TransactionConflict then fst (discard n txn w') else w', txn, Err e)
       | (w', Panic) \<Rightarrow> (w', txn, Panic)))"

section \<open>Maintenance\<close>

definition drop_stale_branches ::
  "'w catalog \<Rightarrow> nat \<Rightarrow> table_ident \<Rightarrow> i64 \<Rightarrow> 'w \<Rightarrow> 'w \<times> (sqe_error, string list) outcome option" where
  "drop_stale_branches cat n ident now_ms w = (case load_table cat ident w of
     (w1, Err e) \<Rightarrow> (w1, Some (Err (catalog_src (''Failed to load table '' @ ident_display ident) (chain e))))
   | (w1, Panic) \<Rightarrow> (w1, Some Panic)
   | (w1, Ok table) \<Rightarrow> (case stale_txn_refs (tbl_metadata table) now_ms of
       None \<Rightarrow> (w1, None)
     | Some stale \<Rightarrow>
       if stale = [] then (w1, Some (Ok []))
       else (case tx_commit cat n (fold (\<lambda>b. add_action (RemoveRefAction b True)) stale (transaction_new table)) w1 of
           (w2, Ok _) \<Rightarrow> (w2, Some (Ok stale))
         | (w2, Err e) \<Rightarrow> (w2, Some (Err (catalog_src
             (''Failed to drop stale transaction branches on '' @ ident_display ident) (chain e))))
         | (w2, Panic) \<Rightarrow> (w2, Some Panic))))"

section \<open>Histories\<close>

text \<open>\<open>reaches md i j\<close>: snapshot \<open>j\<close> is \<open>i\<close> or one of its ancestors, all of them stored.\<close>

inductive reaches :: "table_metadata \<Rightarrow> i64 \<Rightarrow> i64 \<Rightarrow> bool" for md where
  reaches_self: "snapshot_by_id md i \<noteq> None \<Longrightarrow> reaches md i i"
| reaches_parent: "snapshot_by_id md i = Some s \<Longrightarrow> parent_snapshot_id s = Some p \<Longrightarrow> reaches md p j \<Longrightarrow> reaches md i j"

inductive_cases reachesE: "reaches md i j"

definition parents :: "table_metadata \<Rightarrow> (i64 \<times> i64) set" where
  "parents md = {(p, i). \<exists>s. snapshot_by_id md i = Some s \<and> parent_snapshot_id s = Some p}"

lemma wf_parents:
  assumes "acyclic (parents md)"
  shows "wf (parents md)"
proof (rule finite_acyclic_wf [OF _ assms])
  have "parents md \<subseteq> (\<lambda>(i, s). (the (parent_snapshot_id s), i)) ` set (snapshots md)"
    by (force simp: parents_def snapshot_by_id_def dest: map_of_SomeD)
  then show "finite (parents md)" by (rule finite_subset) simp
qed

lemma ancestry_reaches:
  assumes "metadata_wf md" "acyclic (parents md)"
  shows "\<exists>l. ancestry md i = Some l \<and> set l = {j. reaches md i j}"
  using wf_parents [OF assms(2)]
proof (induction i rule: wf_induct_rule)
  case (less i)
  show ?case
  proof (cases "snapshot_by_id md i")
    case None
    then show ?thesis by (subst ancestry.simps) (auto elim: reachesE)
  next
    case (Some s)
    then have id: "snapshot_id s = i" using assms(1) by (auto simp: metadata_wf_def)
    show ?thesis
    proof (cases "parent_snapshot_id s")
      case None
      with Some have "{j. reaches md i j} = {i}" by (auto elim: reachesE intro: reaches_self)
      with Some None id show ?thesis by (subst ancestry.simps) simp
    next
      case p: (Some p)
      with less [of p] Some obtain l where "ancestry md p = Some l" "set l = {j. reaches md p j}"
        by (auto simp: parents_def)
      moreover from Some p have "{j. reaches md i j} = insert i {j. reaches md p j}"
        by (auto elim: reachesE intro: reaches_self reaches_parent)
      ultimately show ?thesis using Some p id by (subst ancestry.simps) simp
    qed
  qed
qed

lemma ancestries_reach:
  assumes "metadata_wf md" "acyclic (parents md)"
  shows "\<exists>l. ancestries md rs = Some l \<and> set l = {j. \<exists>(n, r)\<in>set rs. reaches md (ref_snapshot_id r) j}"
proof (induction rs)
  case (Cons nr rs)
  obtain n r where nr: "nr = (n, r)" by fastforce
  from ancestry_reaches [OF assms, of "ref_snapshot_id r"] Cons show ?case
    by (auto simp: nr)
qed simp

text \<open>The heads of a set of references reach a snapshot.\<close>

definition reached_from :: "(string \<Rightarrow> bool) \<Rightarrow> table_metadata \<Rightarrow> i64 \<Rightarrow> bool" where
  "reached_from P md j \<longleftrightarrow> (\<exists>n h. P n \<and> head_of md n = Some h \<and> reaches md h j)"

lemma refs_reach:
  assumes "metadata_wf md"
  shows "(\<exists>(n, r)\<in>set (filter (P \<circ> fst) (refs md)). reaches md (ref_snapshot_id r) j) \<longleftrightarrow> reached_from P md j"
  using assms by (fastforce simp: reached_from_def head_of_def metadata_wf_def)

lemma private_snapshots_eq:
  assumes "metadata_wf md" "acyclic (parents md)"
  shows "txn_private_snapshots md = Some {j. reached_from is_txn_ref md j \<and> \<not> reached_from (Not \<circ> is_txn_ref) md j}"
proof -
  let ?t = "filter (is_txn_ref \<circ> fst) (refs md)" and ?p = "filter (Not \<circ> (is_txn_ref \<circ> fst)) (refs md)"
  obtain t where t: "ancestries md ?t = Some t" "set t = {j. reached_from is_txn_ref md j}"
    using ancestries_reach [OF assms, of ?t] refs_reach [OF assms(1), of is_txn_ref] by auto
  obtain p where p: "ancestries md ?p = Some p" "set p = {j. reached_from (Not \<circ> is_txn_ref) md j}"
    using ancestries_reach [OF assms, of ?p] refs_reach [OF assms(1), of "Not \<circ> is_txn_ref"] by (auto simp: comp_def)
  show ?thesis
  proof (cases "?t = []")
    case True
    then have "t = []" using t(1) by simp
    with True t(2) show ?thesis by (simp add: txn_private_snapshots_def)
  next
    case False
    with t p show ?thesis by (auto simp: txn_private_snapshots_def)
  qed
qed

section \<open>Publishing and discarding through any catalog\<close>

text \<open>Table \<open>t\<close> is published between \<open>w\<close> and \<open>w'\<close>: its branch head \<open>h\<close> becomes \<open>main\<close>, which was at the base.\<close>

definition publishes :: "('w \<Rightarrow> tables) \<Rightarrow> txn_table \<Rightarrow> 'w \<Rightarrow> 'w \<Rightarrow> i64 \<Rightarrow> bool" where
  "publishes T t w w' h \<longleftrightarrow> (\<exists>m m'. T w (txn_ident t) = Some m \<and> T w' (txn_ident t) = Some m' \<and>
     head_of m (txn_branch t) = Some h \<and> head_of m MAIN_BRANCH = base_snapshot_id t \<and>
     snapshots m' = snapshots m \<and>
     (\<forall>n. head_of m' n = (if n = MAIN_BRANCH then Some h else if n = txn_branch t then None else head_of m n)))"

text \<open>One step of the store, or none where there is nothing to commit.\<close>

definition committed ::
  "(table_commit list \<Rightarrow> 'w \<Rightarrow> 'w \<Rightarrow> bool) \<Rightarrow> table_commit list \<Rightarrow> 'w \<Rightarrow> 'w \<Rightarrow> bool" where
  "committed cm cs w w' \<longleftrightarrow> (if cs = [] then w' = w else cm cs w w')"

text \<open>
  All tables are published in one instant, and no other table is touched. Left out are tables that had
  no snapshot and still have no branch: nothing was ever written to them.
\<close>

definition all_published ::
  "('w \<Rightarrow> tables) \<Rightarrow> ('w \<Rightarrow> 'w \<Rightarrow> bool) \<Rightarrow> (table_commit list \<Rightarrow> 'w \<Rightarrow> 'w \<Rightarrow> bool) \<Rightarrow>
     txn_table list \<Rightarrow> 'w \<Rightarrow> 'w \<Rightarrow> bool" where
  "all_published T ev cm ts w w' \<longleftrightarrow> (\<exists>w1 cs. ev w w1 \<and> committed cm cs w1 w' \<and>
     (\<forall>t\<in>set ts. (\<exists>h. publishes T t w1 w' h) \<or>
        (base_snapshot_id t = None \<and> T w' (txn_ident t) = T w1 (txn_ident t))) \<and>
     (\<forall>i. i \<notin> txn_ident ` set ts \<longrightarrow> T w' i = T w1 i))"

lemma apply_commits_distinct:
  assumes "apply_commits cs M = Ok M'" "distinct (map commit_ident cs)"
  shows "(\<forall>c\<in>set cs. \<exists>m m'. M (commit_ident c) = Some m \<and> commit_apply c m = Ok m' \<and> M' (commit_ident c) = Some m') \<and>
    (\<forall>i. i \<notin> commit_ident ` set cs \<longrightarrow> M' i = M i)"
  using assms
proof (induction cs arbitrary: M)
  case (Cons c cs)
  then obtain m m' where m: "M (commit_ident c) = Some m" "commit_apply c m = Ok m'"
    "apply_commits cs (M(commit_ident c \<mapsto> m')) = Ok M'"
    by (auto simp: obind_eq_Ok_iff split: option.splits)
  from Cons.prems(2) have d: "distinct (map commit_ident cs)" "commit_ident c \<notin> commit_ident ` set cs" by auto
  note IH = Cons.IH [OF m(3) d(1)]
  have "\<exists>m m'. M (commit_ident c') = Some m \<and> commit_apply c' m = Ok m' \<and> M' (commit_ident c') = Some m'"
    if "c' \<in> set cs" for c'
  proof -
    from that d(2) have "commit_ident c' \<noteq> commit_ident c" by (metis imageI)
    with IH that show ?thesis by auto
  qed
  moreover from IH d(2) have "M' (commit_ident c) = Some m'" by simp
  ultimately show ?case using m(1,2) IH by auto
qed simp

lemma branch_head_wf: "metadata_wf (tbl_metadata t) \<Longrightarrow> branch_head t b = Ok (head_of (tbl_metadata t) b)"
  by (rule snapshot_for_ref_wf [of "tbl_metadata t" b]) (simp_all add: branch_head_def)

lemma add_action_simps [simp]:
  "tx_actions (add_action a (transaction_new t)) = [a]"
  "tx_table (add_action a (transaction_new t)) = t"
  by (simp_all add: add_action_def transaction_new_def)

text \<open>The commits of one attempt: one per table, except tables with no snapshot and no branch.\<close>

definition commit_for :: "txn_table \<Rightarrow> table_commit \<Rightarrow> bool" where
  "commit_for t c \<longleftrightarrow> (\<exists>m0. metadata_wf m0 \<and>
     prepare_commit (txn_ident t) [PublishBranchAction (txn_branch t) (base_snapshot_id t)] m0 = Ok c)"

inductive prepared_for :: "txn_table list \<Rightarrow> table_commit list \<Rightarrow> bool" where
  prepared_none: "prepared_for [] []"
| prepared_skip: "base_snapshot_id t = None \<Longrightarrow> prepared_for ts cs \<Longrightarrow> prepared_for (t # ts) cs"
| prepared_commit: "commit_for t c \<Longrightarrow> prepared_for ts cs \<Longrightarrow> prepared_for (t # ts) (c # cs)"

lemma commit_for_ident: "commit_for t c \<Longrightarrow> commit_ident c = txn_ident t"
  by (auto simp: commit_for_def prepare_commit_ident)

lemma prepared_idents: "prepared_for ts cs \<Longrightarrow> commit_ident ` set cs \<subseteq> txn_ident ` set ts"
  by (induction rule: prepared_for.induct) (auto simp: commit_for_ident)

lemma prepared_distinct:
  "prepared_for ts cs \<Longrightarrow> distinct (map txn_ident ts) \<Longrightarrow> distinct (map commit_ident cs)"
proof (induction rule: prepared_for.induct)
  case (prepared_commit t c ts cs)
  then show ?case using prepared_idents [of ts cs] by (auto simp: commit_for_ident)
qed auto

lemma prepared_table:
  "prepared_for ts cs \<Longrightarrow> distinct (map txn_ident ts) \<Longrightarrow> t \<in> set ts \<Longrightarrow>
     (\<exists>c\<in>set cs. commit_for t c) \<or> (base_snapshot_id t = None \<and> txn_ident t \<notin> commit_ident ` set cs)"
proof (induction rule: prepared_for.induct)
  case (prepared_skip t' ts cs)
  then show ?case using prepared_idents [of ts cs] by (cases "t = t'") auto
next
  case (prepared_commit t' c ts cs)
  show ?case
  proof (cases "t = t'")
    case False
    with prepared_commit have t: "t \<in> set ts" by simp
    then have "txn_ident t \<in> set (map txn_ident ts)" by simp
    with prepared_commit have "txn_ident t \<noteq> txn_ident t'" by (metis distinct.simps(2) list.simps(9))
    with prepared_commit t show ?thesis by (auto simp: commit_for_ident)
  qed (use prepared_commit in auto)
qed simp

context catalog_laws
begin

lemma committed_tables: "committed cm cs w w' \<Longrightarrow> apply_commits cs (T w) = Ok (T w')"
  by (auto simp: committed_def cm_tables split: if_splits)

lemma discard_tables_quiet:
  assumes "inv w" "discard_tables cat n ts w = (w', failed)"
  shows "inv w' \<and> quiet T ev cm w w' \<and> failed \<le> length ts"
  using assms
proof (induction ts arbitrary: w w' failed)
  case Nil
  then show ?case by (auto intro: quiet_refl)
next
  case (Cons t ts)
  obtain w1 l where l: "load_table cat (txn_ident t) w = (w1, l)" by fastforce
  note load = load_evolves [OF Cons.prems(1) l]
  then have inv1: "inv w1" using ev_inv Cons.prems(1) by blast
  define d where "d = (case l of
      Ok table \<Rightarrow> tx_commit cat n (add_action (RemoveRefAction (txn_branch t) True) (transaction_new table)) w1
    | Err e \<Rightarrow> (w1, Err e) | Panic \<Rightarrow> (w1, Panic))"
  obtain w2 r2 where d2: "d = (w2, r2)" by fastforce
  have step: "inv w2 \<and> quiet T ev cm w1 w2"
  proof (cases l)
    case (Ok table)
    with d2 have c: "tx_commit cat n (add_action (RemoveRefAction (txn_branch t) True) (transaction_new table)) w1 = (w2, r2)"
      by (simp add: d_def)
    note spec = tx_commit_spec [OF inv1 c]
    from load_ok [OF Cons.prems(1) l [unfolded Ok]] have "tbl_ident table = txn_ident t" by simp
    with spec remove_commit_quiet [OF _ inv1] quiet_ev show ?thesis by (cases r2) auto
  qed (use d2 inv1 quiet_refl in \<open>auto simp: d_def\<close>)
  obtain w3 f3 where rest: "discard_tables cat n ts w2 = (w3, f3)" by fastforce
  note IH = Cons.IH [OF conjunct1 [OF step] rest]
  have "w' = w3" "failed \<le> Suc f3"
    using Cons.prems(2) l d2 rest by (auto simp: d_def [symmetric] split: outcome.splits)
  moreover have "quiet T ev cm w w3"
    by (rule quiet_trans [OF _ quiet_trans [OF _ quiet_ev]]) (use IH step load in auto)
  ultimately show ?case using IH by simp
qed

lemma discard_quiet:
  assumes "inv w" "scope_catalog txn = Some cat" "discard n txn w = (w', failed)"
  shows "inv w' \<and> quiet T ev cm w w' \<and> failed \<le> length (scope_tables txn)"
  using discard_tables_quiet [OF assms(1), of n "scope_tables txn" w' failed] assms(2,3) by (simp add: discard_def)

text \<open>
  A publish that ends with \<open>Ok\<close> has done \<open>Q\<close>; one that is lost or fails has left only time for others.
  The property survives the loop of attempts.
\<close>

lemma attempts_spec:
  assumes once: "\<And>w w' a. inv w \<Longrightarrow> once w = (w', a) \<Longrightarrow> inv w' \<and> a \<noteq> Finished Panic \<and>
      (\<forall>e. a = Lost e \<or> (\<exists>x. a = Finished (Err x)) \<longrightarrow> ev w w') \<and> (\<forall>x. a = Finished (Ok x) \<longrightarrow> Q w w' x)"
    and Q: "\<And>w w1 w' x. ev w w1 \<Longrightarrow> Q w1 w' x \<Longrightarrow> Q w w' x"
    and "inv w" "attempts once names k w = (w', r)"
  shows "inv w' \<and> r \<noteq> Panic \<and> (\<forall>e. r = Err e \<longrightarrow> ev w w') \<and> (\<forall>x. r = Ok x \<longrightarrow> Q w w' x)"
  using assms(3,4)
proof (induction k arbitrary: w)
  case 0
  obtain w1 a where o: "once w = (w1, a)" by fastforce
  from 0(2) once [OF 0(1) o] show ?case
    by (subst (asm) attempts.simps) (auto simp: o split: attempt.splits)
next
  case (Suc k)
  obtain w1 a where o: "once w = (w1, a)" by fastforce
  note spec = once [OF Suc.prems(1) o]
  show ?case
  proof (cases a)
    case (Lost e)
    with Suc.prems(2) have "attempts once names k w1 = (w', r)" by (subst (asm) attempts.simps) (simp add: o)
    with Suc.IH [of w1] spec Lost Q ev_trans show ?thesis by blast
  next
    case (Finished x)
    with Suc.prems(2) spec show ?thesis by (subst (asm) attempts.simps) (auto simp: o)
  qed
qed

lemma publish_branch_spec:
  assumes "inv w" "publish_branch cat n t w = (w', r)"
  shows "inv w' \<and> r \<noteq> Panic \<and> (\<forall>e. r = Err e \<longrightarrow> ev w w') \<and>
    (\<forall>h. r = Ok h \<longrightarrow> own_commit ev cm ok (txn_ident t) [PublishBranchAction (txn_branch t) (base_snapshot_id t)] w w')"
proof (rule attempts_spec [where Q = "\<lambda>w w' h. own_commit ev cm ok (txn_ident t)
    [PublishBranchAction (txn_branch t) (base_snapshot_id t)] w w'", OF _ _ assms(1) assms(2) [unfolded publish_branch_def]])
  fix w w' a
  assume w: "inv w" "publish_branch_once cat n t w = (w', a)"
  obtain w1 l where l: "load_table cat (txn_ident t) w = (w1, l)" by fastforce
  note load = load_evolves [OF w(1) l]
  then have inv1: "inv w1" using ev_inv w(1) by blast
  show "inv w' \<and> a \<noteq> Finished Panic \<and> (\<forall>e. a = Lost e \<or> (\<exists>x. a = Finished (Err x)) \<longrightarrow> ev w w') \<and>
    (\<forall>x. a = Finished (Ok x) \<longrightarrow> own_commit ev cm ok (txn_ident t)
      [PublishBranchAction (txn_branch t) (base_snapshot_id t)] w w')"
  proof (cases l)
    case (Ok table)
    note tab = load_ok [OF w(1) l [unfolded Ok]]
    note head = branch_head_wf [of table "txn_branch t"]
    let ?tx = "add_action (PublishBranchAction (txn_branch t) (base_snapshot_id t)) (transaction_new table)"
    obtain w2 r2 where c: "tx_commit cat n ?tx w1 = (w2, r2)" by fastforce
    note spec = tx_commit_spec [OF inv1 c]
    from w(2) l Ok head tab c spec load show ?thesis
      by (cases r2) (auto simp: publish_branch_once_def Let_def intro: ev_trans own_commit_after split: if_splits)
  qed (use w l load inv1 in \<open>auto simp: publish_branch_once_def Let_def\<close>)
qed (rule own_commit_after)

lemma prepare_all_spec:
  assumes "inv w" "prepare_all cat names ts w = (w', r)"
  shows "ev w w' \<and> r \<noteq> Panic \<and> (\<forall>cs heads. r = Ok (cs, heads) \<longrightarrow> prepared_for ts cs)"
  using assms
proof (induction ts arbitrary: w w' r)
  case Nil
  then show ?case by (auto intro: ev_refl prepared_for.intros)
next
  case (Cons t ts)
  obtain w1 l where l: "load_table cat (txn_ident t) w = (w1, l)" by fastforce
  note load = load_evolves [OF Cons.prems(1) l]
  then have inv1: "inv w1" using ev_inv Cons.prems(1) by blast
  obtain w2 r2 where rest: "prepare_all cat names ts w1 = (w2, r2)" by fastforce
  note IH = Cons.IH [OF inv1 rest]
  then have ev2: "ev w w2" using load ev_trans by blast
  show ?case
  proof (cases l)
    case (Ok table)
    note tab = load_ok [OF Cons.prems(1) l [unfolded Ok]]
    note head = branch_head_wf [of table "txn_branch t"]
    let ?m = "tbl_metadata table" and ?a = "[PublishBranchAction (txn_branch t) (base_snapshot_id t)]"
    show ?thesis
    proof (cases "base_snapshot_id t = None \<and> current_snapshot_id ?m = None \<and> head_of ?m (txn_branch t) = None")
      case True
      with Cons.prems(2) l Ok tab head rest have "w' = w2" "r = r2" by simp_all
      with IH ev2 True show ?thesis by (auto intro: prepared_for.intros)
    next
      case False
      show ?thesis
      proof (cases "prepare_commit (txn_ident t) ?a ?m")
        case c: (Ok c)
        with Cons.prems(2) l Ok tab head rest False
        have res: "w' = w2" "r = (case r2 of
            Ok (cs, heads) \<Rightarrow> Ok (c # cs, (case head_of ?m (txn_branch t) of None \<Rightarrow> [] | Some h \<Rightarrow> [(txn_ident t, h)]) @ heads)
          | Err e \<Rightarrow> Err e | Panic \<Rightarrow> Panic)"
          by (auto split: outcome.splits)
        have "commit_for t c" using c tab by (auto simp: commit_for_def)
        with IH ev2 show ?thesis unfolding res by (cases r2) (auto intro: prepared_for.intros)
      qed (use Cons.prems(2) l Ok tab head rest False load prepare_commit_no_panic [of ?m] in auto)
    qed
  qed (use Cons.prems l load in auto)
qed

lemma publish_branches_spec:
  assumes "inv w" "publish_branches cat ts w = (w', r)"
  shows "inv w' \<and> r \<noteq> Panic \<and> (\<forall>e. r = Err e \<longrightarrow> ev w w') \<and>
    (\<forall>h. r = Ok h \<longrightarrow> (\<exists>w1 cs. ev w w1 \<and> prepared_for ts cs \<and> committed cm cs w1 w'))"
proof (rule attempts_spec [where Q = "\<lambda>w w' h. \<exists>w1 cs. ev w w1 \<and> prepared_for ts cs \<and> committed cm cs w1 w'",
    OF _ _ assms(1) assms(2) [unfolded publish_branches_def Let_def]])
  let ?names = "join '', '' (map (\<lambda>t. ident_display (txn_ident t)) ts)"
  fix w w' a
  assume w: "inv w" "publish_branches_once cat ?names ts w = (w', a)"
  obtain w1 p where p: "prepare_all cat ?names ts w = (w1, p)" by fastforce
  note spec = prepare_all_spec [OF w(1) p]
  then have inv1: "inv w1" using ev_inv w(1) by blast
  show "inv w' \<and> a \<noteq> Finished Panic \<and> (\<forall>e. a = Lost e \<or> (\<exists>x. a = Finished (Err x)) \<longrightarrow> ev w w') \<and>
    (\<forall>x. a = Finished (Ok x) \<longrightarrow> (\<exists>w1 cs. ev w w1 \<and> prepared_for ts cs \<and> committed cm cs w1 w'))"
  proof (cases p)
    case (Ok ch)
    obtain cs heads where ch: "ch = (cs, heads)" by fastforce
    show ?thesis
    proof (cases "cs = []")
      case True
      with w p Ok ch spec inv1 show ?thesis by (fastforce simp: publish_branches_once_def committed_def)
    next
      case False
      obtain w2 r2 where c: "commit_transaction cat cs w1 = (w2, r2)" by fastforce
      have np: "r2 \<noteq> Panic" using commit_no_panic [OF inv1, of cs] c by simp
      from w(2) p Ok ch False c np have res: "w' = w2" "a = (case r2 of Ok u \<Rightarrow> Finished (Ok heads)
          | Err e \<Rightarrow> if kind e = FeatureUnsupported then Finished (Err (with_code NotSupported
              (''Cannot commit '' @ ?names @ '' atomically: '' @ chain_text (chain e))))
            else if commit_lost e then Lost e
            else Finished (Err (catalog_src (''Failed to commit transaction on '' @ ?names) (chain e)))
          | Panic \<Rightarrow> Finished Panic)"
        by (auto simp: publish_branches_once_def split: outcome.splits)
      show ?thesis
      proof (cases r2)
        case ok: (Ok u)
        from commit_ok [OF inv1 c [unfolded ok]] obtain v where v: "inv w2" "ev w1 v" "cm cs v w2" by blast
        have "ev w v" by (rule ev_trans [OF conjunct1 [OF spec] v(2)])
        moreover have "committed cm cs v w2" using v(3) False by (simp add: committed_def)
        moreover have "prepared_for ts cs" using spec Ok ch by simp
        ultimately show ?thesis using v(1) ok res by auto
      next
        case (Err e)
        from commit_err [OF inv1 c [unfolded Err]] spec ev_trans ev_inv w(1) have "ev w w2" "inv w2" by blast+
        with Err res show ?thesis by auto
      qed (use np in simp)
    qed
  qed (use w p spec inv1 in \<open>auto simp: publish_branches_once_def\<close>)
next
  show "\<exists>w1 cs. ev v w1 \<and> prepared_for ts cs \<and> committed cm cs w1 v'"
    if "ev v v1" "\<exists>w1 cs. ev v1 w1 \<and> prepared_for ts cs \<and> committed cm cs w1 v'" for v v1 v' and x :: "(table_ident \<times> i64) list"
    using that ev_trans by blast
qed

lemma commit_for_publishes:
  assumes "inv v" "commit_for t c" "T v (txn_ident t) = Some m" "commit_apply c m = Ok m'" "T v' (txn_ident t) = Some m'"
  shows "\<exists>h. publishes T t v v' h"
proof -
  from assms(2) obtain m0 where m0: "metadata_wf m0"
    "prepare_commit (txn_ident t) [PublishBranchAction (txn_branch t) (base_snapshot_id t)] m0 = Ok c"
    by (auto simp: commit_for_def)
  show ?thesis
    by (rule publish_branch_effect [OF m0 inv_wf [OF assms(1,3)] assms(4)])
       (use assms(3,5) in \<open>auto simp: publishes_def\<close>)
qed

lemma publish_tables_spec:
  assumes "inv w" "publish_tables cat n ts w = (w', r)" "distinct (map txn_ident ts)"
  shows "inv w' \<and> (case r of Ok heads \<Rightarrow> all_published T ev cm ts w w' | Err e \<Rightarrow> ev w w' | Panic \<Rightarrow> False)"
proof (cases "\<exists>t. ts = [t]")
  case True
  then obtain t where t: "ts = [t]" by blast
  obtain w1 r1 where p: "publish_branch cat n t w = (w1, r1)" by fastforce
  note spec = publish_branch_spec [OF assms(1) p]
  have "all_published T ev cm [t] w w1" if "r1 = Ok h" for h
  proof -
    from spec that have "own_commit ev cm ok (txn_ident t) [PublishBranchAction (txn_branch t) (base_snapshot_id t)] w w1" by blast
    then obtain v c m m' h where *: "ev w v" "cm [c] v w1" "T v (txn_ident t) = Some m" "T w1 = (T v)(txn_ident t \<mapsto> m')"
      "head_of m (txn_branch t) = Some h" "head_of m MAIN_BRANCH = base_snapshot_id t" "snapshots m' = snapshots m"
      "\<And>n. head_of m' n = (if n = MAIN_BRANCH then Some h else if n = txn_branch t then None else head_of m n)"
      by (rule publish_commit [OF _ assms(1)]) blast
    then have "publishes T t v w1 h" by (auto simp: publishes_def)
    with * show ?thesis unfolding all_published_def by (intro exI [of _ v] exI [of _ "[c]"]) (auto simp: committed_def)
  qed
  with spec assms(2) t p show ?thesis by (cases r1) (auto simp: publish_tables_def)
next
  case False
  then have "publish_branches cat ts w = (w', r)" using assms(2) by (auto simp: publish_tables_def split: list.splits)
  note spec = publish_branches_spec [OF assms(1) this]
  have "all_published T ev cm ts w w'" if "r = Ok h" for h
  proof -
    from spec that obtain w1 cs where *: "ev w w1" "prepared_for ts cs" "committed cm cs w1 w'" by blast
    note eff = apply_commits_distinct [OF committed_tables [OF *(3)] prepared_distinct [OF *(2) assms(3)]]
    have "(\<exists>h. publishes T t w1 w' h) \<or> base_snapshot_id t = None \<and> T w' (txn_ident t) = T w1 (txn_ident t)"
      if "t \<in> set ts" for t
      using prepared_table [OF *(2) assms(3) that]
    proof
      assume "\<exists>c\<in>set cs. commit_for t c"
      then obtain c where c: "c \<in> set cs" "commit_for t c" by blast
      with eff obtain m m' where "T w1 (commit_ident c) = Some m" "commit_apply c m = Ok m'" "T w' (commit_ident c) = Some m'"
        by blast
      with commit_for_publishes [OF ev_inv [OF assms(1) *(1)] c(2)] show ?thesis
        unfolding commit_for_ident [OF c(2)] by blast
    qed (use eff in blast)
    moreover have "T w' i = T w1 i" if "i \<notin> txn_ident ` set ts" for i
      using conjunct2 [OF eff] prepared_idents [OF *(2)] that by blast
    ultimately show ?thesis unfolding all_published_def by (intro exI [of _ w1] exI [of _ cs] conjI *(1,3)) simp_all
  qed
  with spec show ?thesis by (auto split: outcome.splits)
qed

lemma publish_spec:
  assumes "inv w" "publish n txn w = (w', txn', r)" "scope_catalog txn = Some cat" "distinct (map txn_ident (scope_tables txn))"
  shows "inv w' \<and> (case r of Ok _ \<Rightarrow> all_published T ev cm (scope_tables txn) w w' | Err e \<Rightarrow> quiet T ev cm w w' | Panic \<Rightarrow> False)"
proof (cases "scope_tables txn = []")
  case True
  have "all_published T ev cm [] w w" unfolding all_published_def
    by (intro exI [of _ w] exI [of _ "[]"]) (simp add: committed_def ev_refl)
  with True assms show ?thesis by (auto simp: publish_def)
next
  case False
  obtain w1 r1 where p: "publish_tables cat n (scope_tables txn) w = (w1, r1)" by fastforce
  note spec = publish_tables_spec [OF assms(1) p assms(4)]
  show ?thesis
  proof (cases r1)
    case (Err e)
    obtain w2 f where d: "discard n txn w1 = (w2, f)" by fastforce
    from spec Err have "inv w1" "quiet T ev cm w w1" by (auto intro: quiet_ev)
    with discard_quiet [OF _ assms(3) d] quiet_trans assms(2,3) False p Err d show ?thesis
      by (auto simp: publish_def split: if_splits)
  qed (use assms(2,3) False p spec in \<open>auto simp: publish_def\<close>)
qed

end

section \<open>Statements of a transaction\<close>

text \<open>Reading at a branch keeps metadata well-formed.\<close>

lemma pinned_to_ref_wf:
  assumes "metadata_wf md" "pinned_to_ref md name = Some md'"
  shows "metadata_wf md'"
proof -
  from assms(2) obtain r ret where r: "map_of (refs md) name = Some r"
    and md': "md' = md\<lparr>current_snapshot_id := Some (ref_snapshot_id r),
      refs := AList.update MAIN_BRANCH \<lparr>ref_snapshot_id = ref_snapshot_id r, ref_retention = ret\<rparr> (refs md)\<rparr>"
    by (auto simp: pinned_to_ref_def split: option.splits)
  have heads: "head_of md' n = (if n = MAIN_BRANCH then Some (ref_snapshot_id r) else head_of md n)" for n
    by (simp add: md' head_of_def AList.update_conv')
  have "head_of md name = Some (ref_snapshot_id r)" by (simp add: head_of_def r)
  then have "snapshot_by_id md (ref_snapshot_id r) \<noteq> None"
    using assms(1) unfolding metadata_wf_def by blast
  then have "snapshot_by_id md' i \<noteq> None" if "head_of md' n = Some i" for n i
    using that assms(1) heads [of n] by (auto simp: metadata_wf_def md' snapshot_by_id_def split: if_splits)
  with heads [of MAIN_BRANCH] assms(1) show ?thesis
    by (auto simp: metadata_wf_def md' snapshot_by_id_def distinct_update)
qed

lemma pin_table_wf:
  assumes "metadata_wf (tbl_metadata t)" "pin_table ss t = Unpinned t' \<or> pin_table ss t = Pinned t'"
  shows "metadata_wf (tbl_metadata t')" "tbl_ident t' = tbl_ident t"
  using assms pinned_to_ref_wf
  by (auto simp: pin_table_def table_pinned_to_ref_def split: option.splits if_splits)

text \<open>A commit prepared from actions never removes \<open>main\<close>.\<close>

lemma action_keeps_main: "action_commit a md = Ok (us, rs) \<Longrightarrow> RemoveSnapshotRef MAIN_BRANCH \<notin> set us"
  by (cases a) (auto simp: obind_eq_Ok_iff Let_def split: option.splits if_splits snapshot_retention.splits)

lemma run_actions_keep_main:
  "run_actions as md (us, rs) = Ok (us', rs') \<Longrightarrow> RemoveSnapshotRef MAIN_BRANCH \<notin> set us \<Longrightarrow>
     RemoveSnapshotRef MAIN_BRANCH \<notin> set us'"
proof (induction as arbitrary: md us rs)
  case (Cons a as)
  from Cons.prems(1) obtain u r m where "action_commit a md = Ok (u, r)" "run_actions as m (us @ u, rs @ r) = Ok (us', rs')"
    by (auto simp: obind_eq_Ok_iff)
  with Cons.IH [of m "us @ u"] Cons.prems(2) action_keeps_main show ?case by auto
qed simp

lemma prepared_keeps_main:
  "prepare_commit i as md = Ok c \<Longrightarrow> RemoveSnapshotRef MAIN_BRANCH \<notin> set (updates c)"
  by (auto simp: prepare_commit_def obind_eq_Ok_iff dest: run_actions_keep_main)

lemma apply_updates_main:
  "metadata_wf m \<Longrightarrow> apply_updates us m = Ok m' \<Longrightarrow>
     \<forall>u\<in>set us. u \<noteq> RemoveSnapshotRef MAIN_BRANCH \<and> (\<forall>r. u \<noteq> SetSnapshotRef MAIN_BRANCH r) \<Longrightarrow>
     head_of m' MAIN_BRANCH = head_of m MAIN_BRANCH"
proof (induction us arbitrary: m)
  case (Cons u us)
  from Cons.prems(2) obtain m1 where m1: "apply_update u m = Ok m1" "apply_updates us m1 = Ok m'"
    by (auto simp: obind_eq_Ok_iff)
  have "head_of m1 MAIN_BRANCH = head_of m MAIN_BRANCH"
    using m1(1) Cons.prems(1,3) head_of_set_ref [OF Cons.prems(1)] by (cases u) (auto simp: head_of_remove_ref add_snapshot_wf(2))
  with Cons.IH [OF apply_update_wf [OF Cons.prems(1) m1(1)] m1(2)] Cons.prems(3) show ?case by simp
qed simp

lemma commit_keeps_main:
  assumes "metadata_wf m" "commit_apply c m = Ok m'" "\<not> sets_ref c MAIN_BRANCH" "RemoveSnapshotRef MAIN_BRANCH \<notin> set (updates c)"
  shows "head_of m' MAIN_BRANCH = head_of m MAIN_BRANCH"
proof (rule apply_updates_main [OF assms(1) commit_apply_wf(3) [OF assms(1,2)]])
  show "\<forall>u\<in>set (updates c). u \<noteq> RemoveSnapshotRef MAIN_BRANCH \<and> (\<forall>r. u \<noteq> SetSnapshotRef MAIN_BRANCH r)"
    using assms(3,4) by (auto simp: sets_ref_def list_ex_iff split: table_update.splits)
qed

context catalog_laws
begin

text \<open>A catalog that refuses every commit which sets \<open>main\<close> never moves it for us.\<close>

lemma own_commit_quiet:
  assumes "own_commit ev cm ok i acts w w'" "inv w" "\<And>c. ok c \<Longrightarrow> \<not> sets_ref c MAIN_BRANCH"
  shows "quiet T ev cm w w'"
proof -
  from assms(1,2) obtain m0 c w1 m m' where *: "metadata_wf m0" "prepare_commit i acts m0 = Ok c" "ev w w1"
    "T w1 i = Some m" "metadata_wf m" "commit_apply c m = Ok m'" "T w' = (T w1)(i \<mapsto> m')"
    "cm [c] w1 w'" "ok c"
    by (rule single_commit)
  have "main_of (T w') = main_of (T w1)"
    by (rule main_of_update [OF *(4,7) commit_keeps_main [OF *(5,6) assms(3) [OF *(9)] prepared_keeps_main [OF *(2)]]])
  then show ?thesis by (rule quiet_own [OF quiet_ev [OF *(3)] *(8)])
qed

end

section \<open>A table with two transaction branches\<close>

definition example_refs :: table_metadata where
  "example_refs = \<lparr>table_uuid = 1, current_snapshot_id = Some 1,
     snapshots = [(1, \<lparr>snapshot_id = 1, parent_snapshot_id = None, timestamp_ms = 0\<rparr>),
                  (2, \<lparr>snapshot_id = 2, parent_snapshot_id = Some 1, timestamp_ms = 5\<rparr>)],
     refs = [(MAIN_BRANCH, \<lparr>ref_snapshot_id = 1, ref_retention = default_retention\<rparr>),
             (''sqe-txn-b'', \<lparr>ref_snapshot_id = 2, ref_retention = default_retention\<rparr>),
             (''sqe-txn-a'', \<lparr>ref_snapshot_id = 1, ref_retention = default_retention\<rparr>)]\<rparr>"

section \<open>Properties\<close>

text \<open>
  C33: the maintenance of transaction branches terminates on every table whose snapshots form a forest, and
  lists, in order and once each, exactly the transaction branches whose head no other reference reaches
  and which is older than the longest lifetime of a transaction plus the margin.
\<close>

theorem stale_refs_exact:
  assumes wf: "metadata_wf md" and "acyclic (parents md)"
  shows "\<exists>stale. stale_txn_refs md now_ms = Some stale \<and> sorted stale \<and> distinct stale \<and>
    (\<forall>name. name \<in> set stale \<longleftrightarrow> is_txn_ref name \<and> (\<exists>h s. head_of md name = Some h \<and>
       snapshot_by_id md h = Some s \<and> \<not> reached_from (Not \<circ> is_txn_ref) md h \<and>
       sint (timestamp_ms s) < stale_cutoff now_ms))"
proof -
  let ?P = "\<lambda>(name, r). is_txn_ref name \<and>
     ref_snapshot_id r \<in> {j. reached_from is_txn_ref md j \<and> \<not> reached_from (Not \<circ> is_txn_ref) md j} \<and>
     (case snapshot_by_id md (ref_snapshot_id r) of None \<Rightarrow> False | Some s \<Rightarrow> sint (timestamp_ms s) < stale_cutoff now_ms)"
  let ?stale = "sort (map fst (filter ?P (refs md)))"
  have d: "distinct (map fst (refs md))" using wf by (simp add: metadata_wf_def)
  have "stale_txn_refs md now_ms = Some ?stale"
    by (simp add: stale_txn_refs_def private_snapshots_eq [OF assms])
  moreover have "distinct ?stale" using d by (simp add: distinct_map_filter)
  moreover have "name \<in> set ?stale \<longleftrightarrow> is_txn_ref name \<and> (\<exists>h s. head_of md name = Some h \<and>
       snapshot_by_id md h = Some s \<and> \<not> reached_from (Not \<circ> is_txn_ref) md h \<and>
       sint (timestamp_ms s) < stale_cutoff now_ms)" for name
  proof -
    have reached: "reached_from is_txn_ref md h" if "is_txn_ref name" "head_of md name = Some h" "snapshot_by_id md h \<noteq> None" for h
      using that by (auto simp: reached_from_def intro!: reaches_self)
    have "name \<in> set ?stale \<longleftrightarrow> (\<exists>r. map_of (refs md) name = Some r \<and> ?P (name, r))"
      using d by (force simp: image_iff)
    also have "\<dots> \<longleftrightarrow> is_txn_ref name \<and> (\<exists>h s. head_of md name = Some h \<and>
       snapshot_by_id md h = Some s \<and> \<not> reached_from (Not \<circ> is_txn_ref) md h \<and>
       sint (timestamp_ms s) < stale_cutoff now_ms)"
      using reached by (auto simp: head_of_def split: option.splits)
    finally show ?thesis .
  qed
  ultimately show ?thesis by (intro exI [of _ ?stale]) simp
qed

theorem stale_refs_exact_witness:
  "metadata_wf example_refs \<and> acyclic (parents example_refs) \<and>
   (\<exists>stale. stale_txn_refs example_refs 100000000 = Some stale \<and> ''sqe-txn-b'' \<in> set stale \<and> ''sqe-txn-a'' \<notin> set stale)"
proof -
  note ex = example_refs_def snapshot_by_id_def head_of_def MAIN_BRANCH_def is_txn_ref_def TXN_BRANCH_PREFIX_def
  have wf: "metadata_wf example_refs" by (simp add: metadata_wf_def ex)
  have "parents example_refs = {(1, 2)}" by (auto simp: parents_def ex split: if_splits)
  then have ac: "acyclic (parents example_refs)" by (simp add: acyclic_insert) (simp add: acyclic_def)
  have snaps: "snapshot_by_id example_refs 1 = Some \<lparr>snapshot_id = 1, parent_snapshot_id = None, timestamp_ms = 0\<rparr>"
    "snapshot_by_id example_refs 2 = Some \<lparr>snapshot_id = 2, parent_snapshot_id = Some 1, timestamp_ms = 5\<rparr>"
    and heads: "head_of example_refs n = (if n = ''main'' then Some 1 else if n = ''sqe-txn-b'' then Some 2
      else if n = ''sqe-txn-a'' then Some 1 else None)" for n
    by (simp_all add: ex)
  have root: "reaches example_refs 1 j \<longleftrightarrow> j = 1" for j
    using snaps by (auto elim: reachesE intro: reaches_self)
  have txn: "is_txn_ref ''sqe-txn-a''" "is_txn_ref ''sqe-txn-b''" "\<not> is_txn_ref ''main''"
    by (simp_all add: is_txn_ref_def TXN_BRANCH_PREFIX_def)
  have public: "reached_from (Not \<circ> is_txn_ref) example_refs j \<longleftrightarrow> j = 1" for j
  proof -
    have "n = ''main''" if "\<not> is_txn_ref n" "head_of example_refs n = Some h" for n h
      using that txn by (simp add: heads split: if_splits)
    moreover have "head_of example_refs ''main'' = Some 1" by (simp add: heads)
    ultimately have "reached_from (Not \<circ> is_txn_ref) example_refs j \<longleftrightarrow> reaches example_refs 1 j"
      unfolding reached_from_def comp_def using txn(3) by (metis option.inject)
    then show ?thesis by (simp add: root)
  qed
  have cutoff: "stale_cutoff 100000000 = 10000000"
    by (simp add: stale_cutoff_def i64_saturating_sub_def MAX_LIFETIME_def STALE_MARGIN_MS_def)
  from stale_refs_exact [OF wf ac, of 100000000] obtain stale where stale: "stale_txn_refs example_refs 100000000 = Some stale"
    "\<And>name. name \<in> set stale \<longleftrightarrow> is_txn_ref name \<and> (\<exists>h s. head_of example_refs name = Some h \<and>
       snapshot_by_id example_refs h = Some s \<and> \<not> reached_from (Not \<circ> is_txn_ref) example_refs h \<and>
       sint (timestamp_ms s) < stale_cutoff 100000000)" by blast
  have "''sqe-txn-b'' \<in> set stale" "''sqe-txn-a'' \<notin> set stale"
    by (simp_all add: stale(2) heads snaps cutoff txn public)
  with stale(1) wf ac show ?thesis by simp
qed

end
