(* ===== verification/Sqlite_Catalog.thy ===== *)
theory Sqlite_Catalog
  imports Iceberg_Catalog
begin

text \<open>
  The embedded catalog (\<open>crates/sqe-catalog/src/sqlite_rs_catalog.rs\<close>): a table of metadata pointers in
  an SQLite database, and immutable metadata files beside it. A commit loads the table, stages a new
  metadata file and swaps the pointer, if it is still the loaded one, under a write lock; a commit of
  several tables swaps all pointers in one database transaction or none.

  The rows of the database are the map \<open>pointers\<close>; the statements of the code are lookups and replacements
  of one row, and a database transaction is atomic. A metadata file has a name that was never used
  before (the code draws a fresh UUID): \<open>next_file\<close>. What other writers and failing storage do before
  each access is listed in \<open>others\<close>, so that every interleaving is some world.
\<close>

section \<open>The world of the catalog\<close>

datatype foreign =
    ForeignCommit table_ident table_metadata
  | ForeignDrop table_ident
  | Fault iceberg_error

record sqlite_world =
  pointers :: "table_ident \<Rightarrow> location option"
  files :: "location \<Rightarrow> table_metadata option"
  next_file :: location
  others :: "foreign list list"

definition write_file :: "table_metadata \<Rightarrow> sqlite_world \<Rightarrow> sqlite_world" where
  "write_file md w = w\<lparr>files := (files w)(next_file w \<mapsto> md), next_file := Suc (next_file w)\<rparr>"

fun foreign_step :: "foreign \<Rightarrow> sqlite_world \<Rightarrow> sqlite_world" where
  "foreign_step (ForeignCommit i md) w = (write_file md w)\<lparr>pointers := (pointers w)(i \<mapsto> next_file w)\<rparr>"
| "foreign_step (ForeignDrop i) w = w\<lparr>pointers := (pointers w)(i := None)\<rparr>"
| "foreign_step (Fault e) w = w"

fun first_fault :: "foreign list \<Rightarrow> iceberg_error option" where
  "first_fault [] = None"
| "first_fault (Fault e # fs) = Some e"
| "first_fault (_ # fs) = first_fault fs"

definition access :: "sqlite_world \<Rightarrow> sqlite_world \<times> iceberg_error option" where
  "access w = (case others w of
     [] \<Rightarrow> (w, None)
   | fs # rest \<Rightarrow> (fold foreign_step fs (w\<lparr>others := rest\<rparr>), first_fault fs))"

section \<open>Operations\<close>

definition sqlite_load_table :: "table_ident \<Rightarrow> sqlite_world \<Rightarrow> sqlite_world \<times> table ice_result" where
  "sqlite_load_table i w = (case access w of
     (w1, Some e) \<Rightarrow> (w1, Err e)
   | (w1, None) \<Rightarrow> (w1, case pointers w1 i of
       None \<Rightarrow> Err (ice_err Unexpected)
     | Some l \<Rightarrow> (case files w1 l of
         None \<Rightarrow> Err (ice_err Unexpected)
       | Some md \<Rightarrow> Ok \<lparr>tbl_ident = i, tbl_metadata = md, tbl_location = l\<rparr>)))"

record pointer_swap =
  swap_ident :: table_ident
  expected :: location
  staged :: location

text \<open>Load, apply the commit and write the new metadata file.\<close>

definition stage :: "table_commit \<Rightarrow> sqlite_world \<Rightarrow> sqlite_world \<times> (pointer_swap \<times> table) ice_result" where
  "stage c w = (case sqlite_load_table (commit_ident c) w of
     (w1, Err e) \<Rightarrow> (w1, Err e)
   | (w1, Panic) \<Rightarrow> (w1, Panic)
   | (w1, Ok t) \<Rightarrow> (case commit_apply c (tbl_metadata t) of
       Err e \<Rightarrow> (w1, Err e)
     | Panic \<Rightarrow> (w1, Panic)
     | Ok md' \<Rightarrow> (case access w1 of
         (w2, Some e) \<Rightarrow> (w2, Err e)
       | (w2, None) \<Rightarrow> (write_file md' w2,
           Ok (\<lparr>swap_ident = commit_ident c, expected = tbl_location t, staged = next_file w2\<rparr>,
               t\<lparr>tbl_metadata := md', tbl_location := next_file w2\<rparr>)))))"

fun stage_all :: "table_commit list \<Rightarrow> sqlite_world \<Rightarrow> sqlite_world \<times> pointer_swap list ice_result" where
  "stage_all [] w = (w, Ok [])"
| "stage_all (c # cs) w = (case stage c w of
     (w1, Err e) \<Rightarrow> (w1, Err e)
   | (w1, Panic) \<Rightarrow> (w1, Panic)
   | (w1, Ok (s, t)) \<Rightarrow> (case stage_all cs w1 of
       (w2, Err e) \<Rightarrow> (w2, Err e)
     | (w2, Panic) \<Rightarrow> (w2, Panic)
     | (w2, Ok ss) \<Rightarrow> (w2, Ok (s # ss))))"

text \<open>The compare-and-swap of one row, and of all rows: an error leaves the database as it was.\<close>

definition swap_pointer ::
  "pointer_swap \<Rightarrow> (table_ident \<Rightarrow> location option) \<Rightarrow> (table_ident \<Rightarrow> location option) ice_result" where
  "swap_pointer s p = (case p (swap_ident s) of
     None \<Rightarrow> Err (ice_err Unexpected)
   | Some l \<Rightarrow> if l \<noteq> expected s then Err conflict_err else Ok (p(swap_ident s \<mapsto> staged s)))"

fun swap_pointers ::
  "pointer_swap list \<Rightarrow> (table_ident \<Rightarrow> location option) \<Rightarrow> (table_ident \<Rightarrow> location option) ice_result" where
  "swap_pointers [] p = Ok p"
| "swap_pointers (s # ss) p = obind (swap_pointer s p) (swap_pointers ss)"

definition database_transaction ::
  "pointer_swap list \<Rightarrow> sqlite_world \<Rightarrow> sqlite_world \<times> unit ice_result" where
  "database_transaction ss w = (case access w of
     (w1, Some e) \<Rightarrow> (w1, Err e)
   | (w1, None) \<Rightarrow> (case swap_pointers ss (pointers w1) of
       Ok p \<Rightarrow> (w1\<lparr>pointers := p\<rparr>, Ok ())
     | Err e \<Rightarrow> (w1, Err e)
     | Panic \<Rightarrow> (w1, Panic)))"

definition sqlite_update_table :: "table_commit \<Rightarrow> sqlite_world \<Rightarrow> sqlite_world \<times> table ice_result" where
  "sqlite_update_table c w = (case stage c w of
     (w1, Err e) \<Rightarrow> (w1, Err e)
   | (w1, Panic) \<Rightarrow> (w1, Panic)
   | (w1, Ok (s, t)) \<Rightarrow> (case database_transaction [s] w1 of
       (w2, Ok u) \<Rightarrow> (w2, Ok t)
     | (w2, Err e) \<Rightarrow> (w2, Err e)
     | (w2, Panic) \<Rightarrow> (w2, Panic)))"

definition sqlite_commit_transaction :: "table_commit list \<Rightarrow> sqlite_world \<Rightarrow> sqlite_world \<times> unit ice_result" where
  "sqlite_commit_transaction cs w = (case stage_all cs w of
     (w1, Err e) \<Rightarrow> (w1, Err e)
   | (w1, Panic) \<Rightarrow> (w1, Panic)
   | (w1, Ok ss) \<Rightarrow> database_transaction ss w1)"

definition sqlite_catalog :: "sqlite_world catalog" where
  "sqlite_catalog = \<lparr>load_table = sqlite_load_table, update_table = sqlite_update_table,
     commit_transaction = sqlite_commit_transaction, supports_commit_transaction = True\<rparr>"

section \<open>Committed metadata and what other writers do\<close>

definition sqlite_tables :: "sqlite_world \<Rightarrow> tables" where
  "sqlite_tables w i = (case pointers w i of None \<Rightarrow> None | Some l \<Rightarrow> files w l)"

fun foreign_wf :: "foreign \<Rightarrow> bool" where
  "foreign_wf (ForeignCommit i md) = metadata_wf md"
| "foreign_wf _ = True"

definition sqlite_inv :: "sqlite_world \<Rightarrow> bool" where
  "sqlite_inv w \<longleftrightarrow>
     (\<forall>i l. pointers w i = Some l \<longrightarrow> files w l \<noteq> None) \<and>
     (\<forall>l md. files w l = Some md \<longrightarrow> l < next_file w \<and> metadata_wf md) \<and>
     (\<forall>fs\<in>set (others w). \<forall>f\<in>set fs. foreign_wf f)"

inductive sqlite_ev :: "sqlite_world \<Rightarrow> sqlite_world \<Rightarrow> bool" where
  ev_refl: "sqlite_ev w w"
| ev_access: "sqlite_ev w w1 \<Longrightarrow> sqlite_ev w (fst (access w1))"
| ev_stage: "sqlite_ev w w1 \<Longrightarrow> metadata_wf md \<Longrightarrow> sqlite_ev w (write_file md w1)"

text \<open>The step of a commit moves pointers and nothing else.\<close>

definition sqlite_cm :: "table_commit list \<Rightarrow> sqlite_world \<Rightarrow> sqlite_world \<Rightarrow> bool" where
  "sqlite_cm cs w w' \<longleftrightarrow> (\<exists>p. w' = w\<lparr>pointers := p\<rparr>) \<and> sqlite_inv w' \<and>
     apply_commits cs (sqlite_tables w) = Ok (sqlite_tables w')"

lemma sqlite_ev_trans: "sqlite_ev w1 w2 \<Longrightarrow> sqlite_ev w0 w1 \<Longrightarrow> sqlite_ev w0 w2"
  by (induction rule: sqlite_ev.induct) (auto intro: sqlite_ev.intros)

text \<open>Metadata files are never changed.\<close>

definition files_kept :: "sqlite_world \<Rightarrow> sqlite_world \<Rightarrow> bool" where
  "files_kept w w' \<longleftrightarrow> (\<forall>l md. files w l = Some md \<longrightarrow> files w' l = Some md)"

lemma fresh_file: "sqlite_inv w \<Longrightarrow> files w (next_file w) = None"
  by (cases "files w (next_file w)") (auto simp: sqlite_inv_def)

lemma write_file_inv:
  assumes "sqlite_inv w" "metadata_wf md"
  shows "sqlite_inv (write_file md w) \<and> files_kept w (write_file md w)"
proof -
  from fresh_file [OF assms(1)] show ?thesis
    using assms by (auto simp: sqlite_inv_def files_kept_def write_file_def less_SucI)
qed

lemma foreign_step_inv:
  assumes "sqlite_inv w" "foreign_wf f"
  shows "sqlite_inv (foreign_step f w) \<and> files_kept w (foreign_step f w)"
proof (cases f)
  case (ForeignCommit i md)
  with assms write_file_inv [of w md] show ?thesis
    by (auto simp: sqlite_inv_def files_kept_def write_file_def)
qed (use assms in \<open>auto simp: sqlite_inv_def files_kept_def\<close>)

lemma fold_foreign_inv:
  "sqlite_inv w \<Longrightarrow> \<forall>f\<in>set fs. foreign_wf f \<Longrightarrow>
     sqlite_inv (fold foreign_step fs w) \<and> files_kept w (fold foreign_step fs w)"
proof (induction fs arbitrary: w)
  case (Cons f fs)
  from foreign_step_inv [of w f] Cons.prems
  have "sqlite_inv (foreign_step f w)" "files_kept w (foreign_step f w)" by simp_all
  with Cons.IH [of "foreign_step f w"] Cons.prems show ?case by (auto simp: files_kept_def)
qed (simp add: files_kept_def)

lemma access_inv:
  assumes "sqlite_inv w"
  shows "sqlite_inv (fst (access w)) \<and> files_kept w (fst (access w))"
proof (cases "others w")
  case (Cons fs rest)
  with assms have "sqlite_inv (w\<lparr>others := rest\<rparr>)" "\<forall>f\<in>set fs. foreign_wf f"
    by (auto simp: sqlite_inv_def)
  from fold_foreign_inv [OF this] Cons show ?thesis by (simp add: access_def files_kept_def)
qed (use assms in \<open>simp add: access_def files_kept_def\<close>)

lemma ev_keeps: "sqlite_ev w w' \<Longrightarrow> sqlite_inv w \<Longrightarrow> sqlite_inv w' \<and> files_kept w w'"
proof (induction rule: sqlite_ev.induct)
  case (ev_access w w1)
  with access_inv [of w1] show ?case by (auto simp: files_kept_def)
next
  case (ev_stage w w1 md)
  with write_file_inv [of w1 md] show ?case by (auto simp: files_kept_def)
qed (simp add: files_kept_def)

text \<open>Where nobody else writes, the committed metadata stays as it is.\<close>

lemma write_file_tables: "sqlite_inv w \<Longrightarrow> sqlite_tables (write_file md w) = sqlite_tables w"
  using fresh_file [of w]
  by (auto simp: sqlite_tables_def write_file_def sqlite_inv_def fun_eq_iff split: option.splits)

lemma ev_alone:
  "sqlite_ev w w' \<Longrightarrow> sqlite_inv w \<Longrightarrow> others w = [] \<Longrightarrow> others w' = [] \<and> sqlite_tables w' = sqlite_tables w"
proof (induction rule: sqlite_ev.induct)
  case (ev_access w w1)
  then show ?case by (simp add: access_def)
next
  case (ev_stage w w1 md)
  with ev_keeps [of w w1] show ?case by (simp add: write_file_tables) (simp add: write_file_def)
qed simp

section \<open>Staging and swapping\<close>

text \<open>
  A staged swap carries its proof: the expected file holds the metadata the commit was applied to and
  the staged file holds the result. Files are immutable, so this stays true until the swap.
\<close>

definition justified :: "sqlite_world \<Rightarrow> table_commit \<Rightarrow> pointer_swap \<Rightarrow> bool" where
  "justified w c s \<longleftrightarrow> swap_ident s = commit_ident c \<and>
     (\<exists>md md'. files w (expected s) = Some md \<and> commit_apply c md = Ok md' \<and> files w (staged s) = Some md')"

lemma justified_kept: "justified w c s \<Longrightarrow> files_kept w w' \<Longrightarrow> justified w' c s"
  by (auto simp: justified_def files_kept_def)

lemma access_spec:
  assumes "sqlite_inv w" "access w = (w', f)"
  shows "sqlite_ev w w'" "sqlite_inv w'" "files_kept w w'"
proof -
  from ev_access [OF ev_refl, of w] assms(2) show "sqlite_ev w w'" by simp
  then show "sqlite_inv w'" "files_kept w w'" using ev_keeps assms(1) by blast+
qed

lemma load_spec:
  assumes "sqlite_inv w" "sqlite_load_table i w = (w', r)"
  shows "sqlite_ev w w'" "sqlite_inv w'" "files_kept w w'" "r \<noteq> Panic"
    "r = Ok t \<Longrightarrow> tbl_ident t = i \<and> pointers w' i = Some (tbl_location t) \<and> files w' (tbl_location t) = Some (tbl_metadata t)"
proof -
  obtain w1 f where a: "access w = (w1, f)" by fastforce
  with assms(2) have w': "w' = w1" by (auto simp: sqlite_load_table_def split: option.splits)
  from access_spec [OF assms(1) a] show "sqlite_ev w w'" "sqlite_inv w'" "files_kept w w'"
    by (simp_all add: w')
  from assms(2) a show "r \<noteq> Panic"
    "r = Ok t \<Longrightarrow> tbl_ident t = i \<and> pointers w' i = Some (tbl_location t) \<and> files w' (tbl_location t) = Some (tbl_metadata t)"
    by (auto simp: sqlite_load_table_def split: option.splits)
qed

lemma stage_spec:
  assumes "sqlite_inv w" "stage c w = (w', r)"
  shows "sqlite_ev w w' \<and> r \<noteq> Panic \<and> (\<forall>s t. r = Ok (s, t) \<longrightarrow> justified w' c s)"
proof -
  obtain w1 l where l: "sqlite_load_table (commit_ident c) w = (w1, l)" by fastforce
  note spec = load_spec [OF assms(1) l]
  show ?thesis
  proof (cases l)
    case (Ok t)
    note t = spec(5) [OF Ok]
    have wf: "metadata_wf (tbl_metadata t)" using spec(2) t by (auto simp: sqlite_inv_def)
    show ?thesis
    proof (cases "commit_apply c (tbl_metadata t)")
      case md': (Ok md')
      obtain w2 f where a: "access w1 = (w2, f)" by fastforce
      note acc = access_spec [OF spec(2) a]
      note ev2 = sqlite_ev_trans [OF acc(1) spec(1)]
      show ?thesis
      proof (cases f)
        case None
        from assms(2) l Ok md' a None
        have res: "w' = write_file md' w2" "\<And>s t'. r = Ok (s, t') \<Longrightarrow>
            s = \<lparr>swap_ident = commit_ident c, expected = tbl_location t, staged = next_file w2\<rparr>" "r \<noteq> Panic"
          by (auto simp: stage_def)
        note wf' = commit_apply_wf(1) [OF wf md']
        from write_file_inv [OF acc(2) wf'] acc(3) t
        have "files w' (tbl_location t) = Some (tbl_metadata t)" by (auto simp: res files_kept_def)
        then have "justified w' c \<lparr>swap_ident = commit_ident c, expected = tbl_location t, staged = next_file w2\<rparr>"
          using md' by (auto simp: justified_def res write_file_def)
        with res ev_stage [OF ev2 wf'] show ?thesis by auto
      next
        case (Some e)
        with assms(2) l Ok md' a ev2 show ?thesis by (auto simp: stage_def)
      qed
    qed (use assms(2) l Ok spec(1) commit_apply_no_panic [OF wf] in \<open>auto simp: stage_def\<close>)
  qed (use assms(2) l spec in \<open>auto simp: stage_def\<close>)
qed

lemma stage_all_spec:
  "sqlite_inv w \<Longrightarrow> stage_all cs w = (w', r) \<Longrightarrow>
     sqlite_ev w w' \<and> r \<noteq> Panic \<and> (\<forall>ss. r = Ok ss \<longrightarrow> list_all2 (justified w') cs ss)"
proof (induction cs arbitrary: w w' r)
  case Nil
  then show ?case by (auto intro: ev_refl)
next
  case (Cons c cs)
  obtain w1 r1 where s: "stage c w = (w1, r1)" by fastforce
  note spec = stage_spec [OF Cons.prems(1) s]
  then have inv1: "sqlite_inv w1" using ev_keeps Cons.prems(1) by blast
  show ?case
  proof (cases r1)
    case (Ok st)
    obtain sw t where st: "st = (sw, t)" by fastforce
    obtain w2 r2 where a: "stage_all cs w1 = (w2, r2)" by fastforce
    note IH = Cons.IH [OF inv1 a]
    then have "files_kept w1 w2" using ev_keeps inv1 by blast
    with spec Ok st have "justified w2 c sw" by (auto intro: justified_kept)
    with Cons.prems(2) s Ok st a IH spec sqlite_ev_trans show ?thesis
      by (cases r2) (auto simp: sqlite_ev_trans)
  qed (use Cons.prems s spec in auto)
qed

lemma swap_pointers_commits:
  assumes "list_all2 (justified w) cs ss" "swap_pointers ss p = Ok p'"
  shows "apply_commits cs (sqlite_tables (w\<lparr>pointers := p\<rparr>)) = Ok (sqlite_tables (w\<lparr>pointers := p'\<rparr>))"
  using assms
proof (induction cs ss arbitrary: p rule: list_all2_induct)
  case (Cons c cs s ss)
  then obtain p1 where p1: "swap_pointer s p = Ok p1" "swap_pointers ss p1 = Ok p'"
    by (auto simp: obind_eq_Ok_iff)
  from Cons(1) obtain md md' where j: "swap_ident s = commit_ident c" "files w (expected s) = Some md"
    "commit_apply c md = Ok md'" "files w (staged s) = Some md'" by (auto simp: justified_def)
  from p1(1) j(1) have "p (commit_ident c) = Some (expected s)" "p1 = p(commit_ident c \<mapsto> staged s)"
    by (auto simp: swap_pointer_def split: option.splits if_splits)
  then have T: "sqlite_tables (w\<lparr>pointers := p\<rparr>) (commit_ident c) = Some md"
    "sqlite_tables (w\<lparr>pointers := p1\<rparr>) = (sqlite_tables (w\<lparr>pointers := p\<rparr>))(commit_ident c \<mapsto> md')"
    using j by (auto simp: sqlite_tables_def fun_eq_iff split: option.split)
  from Cons.IH [OF p1(2), unfolded T(2)] j(3) show ?case by (simp only: apply_commits.simps T(1) option.case obind_simps)
qed simp

lemma swap_pointers_no_panic: "swap_pointers ss p \<noteq> Panic"
proof (induction ss arbitrary: p)
  case (Cons s ss)
  then show ?case by (cases "swap_pointer s p") (auto simp: swap_pointer_def split: option.splits if_splits)
qed simp

lemma swap_pointers_files:
  assumes "list_all2 (justified w) cs ss" "swap_pointers ss p = Ok p'" "\<And>i l. p i = Some l \<Longrightarrow> files w l \<noteq> None"
  shows "p' i = Some l \<Longrightarrow> files w l \<noteq> None"
  using assms
proof (induction cs ss arbitrary: p rule: list_all2_induct)
  case (Cons c cs s ss)
  then obtain p1 where p1: "swap_pointer s p = Ok p1" "swap_pointers ss p1 = Ok p'"
    by (auto simp: obind_eq_Ok_iff)
  have "files w l \<noteq> None" if "p1 i = Some l" for i l
    using that p1(1) Cons(1,6) by (auto simp: swap_pointer_def justified_def split: option.splits if_splits)
  with Cons.IH [OF _ p1(2)] Cons.prems(1) show ?case by blast
qed auto

lemma database_transaction_spec:
  assumes "sqlite_inv w" "list_all2 (justified w) cs ss" "database_transaction ss w = (w', r)"
  shows "r \<noteq> Panic \<and> (\<forall>e. r = Err e \<longrightarrow> sqlite_ev w w') \<and>
    (r = Ok () \<longrightarrow> sqlite_inv w' \<and> (\<exists>w1. sqlite_ev w w1 \<and> sqlite_cm cs w1 w'))"
proof -
  obtain w1 f where a: "access w = (w1, f)" by fastforce
  note acc = access_spec [OF assms(1) a]
  have j: "list_all2 (justified w1) cs ss"
    using assms(2) acc(3) justified_kept by (auto elim: list_all2_mono)
  show ?thesis
  proof (cases "f = None \<and> (\<exists>p. swap_pointers ss (pointers w1) = Ok p)")
    case True
    then obtain p where p: "f = None" "swap_pointers ss (pointers w1) = Ok p" by blast
    with assms(3) a have res: "w' = w1\<lparr>pointers := p\<rparr>" "r = Ok ()" by (auto simp: database_transaction_def)
    have "apply_commits cs (sqlite_tables w1) = Ok (sqlite_tables w')"
      using swap_pointers_commits [OF j p(2)] by (simp add: res)
    moreover have "sqlite_inv w'"
      using acc(2) swap_pointers_files [OF j p(2)] by (auto simp: sqlite_inv_def res)
    ultimately have "sqlite_cm cs w1 w'" "sqlite_inv w'" by (auto simp: sqlite_cm_def res)
    then show ?thesis using acc(1) res by auto
  next
    case False
    with assms(3) a acc(1) swap_pointers_no_panic [of ss "pointers w1"] show ?thesis
      by (cases f; cases "swap_pointers ss (pointers w1)") (auto simp: database_transaction_def)
  qed
qed

text \<open>What a commit of \<open>cs\<close> from \<open>w\<close> to \<open>w'\<close> with result \<open>r\<close> may do.\<close>

definition commit_outcome :: "table_commit list \<Rightarrow> sqlite_world \<Rightarrow> sqlite_world \<Rightarrow> 'a ice_result \<Rightarrow> bool" where
  "commit_outcome cs w w' r \<longleftrightarrow> r \<noteq> Panic \<and> (\<forall>e. r = Err e \<longrightarrow> sqlite_ev w w') \<and>
     (\<forall>x. r = Ok x \<longrightarrow> sqlite_inv w' \<and>
        (\<exists>w1. sqlite_ev w w1 \<and> sqlite_cm cs w1 w'))"

lemma commit_outcome_after:
  "sqlite_ev w w1 \<Longrightarrow> commit_outcome cs w1 w' r \<Longrightarrow> commit_outcome cs w w' r"
  unfolding commit_outcome_def using sqlite_ev_trans by blast

lemma database_transaction_outcome:
  "sqlite_inv w \<Longrightarrow> list_all2 (justified w) cs ss \<Longrightarrow> database_transaction ss w = (w', r) \<Longrightarrow> commit_outcome cs w w' r"
  using database_transaction_spec [of w cs ss w' r] by (simp add: commit_outcome_def)

lemma sqlite_commit_outcome:
  assumes "sqlite_inv w" "sqlite_commit_transaction cs w = (w', r)"
  shows "commit_outcome cs w w' r"
proof -
  obtain w1 r1 where s: "stage_all cs w = (w1, r1)" by fastforce
  note spec = stage_all_spec [OF assms(1) s]
  show ?thesis
  proof (cases r1)
    case (Ok ss)
    with assms(2) s have "database_transaction ss w1 = (w', r)" by (simp add: sqlite_commit_transaction_def)
    with spec Ok ev_keeps [of w w1] assms(1) show ?thesis
      by (blast intro: commit_outcome_after database_transaction_outcome)
  qed (use assms(2) s spec in \<open>auto simp: sqlite_commit_transaction_def commit_outcome_def\<close>)
qed

lemma sqlite_update_outcome:
  assumes "sqlite_inv w" "sqlite_update_table c w = (w', r)"
  shows "commit_outcome [c] w w' r"
proof -
  obtain w1 r1 where s: "stage c w = (w1, r1)" by fastforce
  note spec = stage_spec [OF assms(1) s]
  show ?thesis
  proof (cases r1)
    case (Ok st)
    obtain sw t where st: "st = (sw, t)" by fastforce
    obtain w2 r2 where d: "database_transaction [sw] w1 = (w2, r2)" by fastforce
    have "commit_outcome [c] w1 w2 r2"
      by (rule database_transaction_outcome [OF _ _ d]) (use spec Ok st ev_keeps [of w w1] assms(1) in auto)
    moreover from assms(2) s Ok st d have "w' = w2" "r = (case r2 of Ok u \<Rightarrow> Ok t | Err e \<Rightarrow> Err e | Panic \<Rightarrow> Panic)"
      by (auto simp: sqlite_update_table_def split: outcome.splits)
    ultimately have "commit_outcome [c] w1 w' r" by (cases r2) (auto simp: commit_outcome_def)
    with spec show ?thesis by (blast intro: commit_outcome_after)
  qed (use assms(2) s spec in \<open>auto simp: sqlite_update_table_def commit_outcome_def\<close>)
qed

section \<open>The embedded catalog keeps the promises of the trait\<close>

lemmas sqlite_ops = sqlite_catalog_def commit_outcome_def

interpretation sqlite: catalog_laws sqlite_catalog sqlite_tables sqlite_ev sqlite_cm sqlite_inv "\<lambda>_. True"
proof unfold_locales
  show "sqlite_ev w w" for w by (rule ev_refl)
  show "sqlite_ev w w1 \<Longrightarrow> sqlite_ev w1 w2 \<Longrightarrow> sqlite_ev w w2" for w w1 w2 by (rule sqlite_ev_trans)
  show "sqlite_inv w \<Longrightarrow> sqlite_ev w w' \<Longrightarrow> sqlite_inv w'" for w w' by (simp add: ev_keeps)
  show "sqlite_cm cs w w' \<Longrightarrow> apply_commits cs (sqlite_tables w) = Ok (sqlite_tables w')" for cs w w'
    by (simp add: sqlite_cm_def)
  show "sqlite_inv w \<Longrightarrow> sqlite_tables w i = Some md \<Longrightarrow> metadata_wf md" for w i md
    by (auto simp: sqlite_tables_def sqlite_inv_def split: option.splits)
  show "sqlite_ev w w' \<and> r \<noteq> Panic" if "sqlite_inv w" "load_table sqlite_catalog i w = (w', r)" for w i w' r
    using that load_spec [of w i w' r] by (simp add: sqlite_catalog_def)
  show "tbl_ident t = i \<and> metadata_wf (tbl_metadata t)"
    if "sqlite_inv w" "load_table sqlite_catalog i w = (w', Ok t)" for w i w' t
    using that load_spec(2,5) [of w i w' "Ok t"] by (auto simp: sqlite_catalog_def sqlite_inv_def)
  show "sqlite_inv w' \<and> True \<and> (\<exists>w1. sqlite_ev w w1 \<and> sqlite_cm [c] w1 w')"
    if "sqlite_inv w" "update_table sqlite_catalog c w = (w', Ok t)" for w c w' t
    using that sqlite_update_outcome [of w c w' "Ok t"] by (simp add: sqlite_ops)
  show "sqlite_ev w w'" if "sqlite_inv w" "update_table sqlite_catalog c w = (w', Err e)" for w c w' e
    using that sqlite_update_outcome [of w c w' "Err e"] by (simp add: sqlite_ops)
  show "snd (update_table sqlite_catalog c w) \<noteq> Panic" if "sqlite_inv w" for w c
    using sqlite_update_outcome [OF that, of c] by (cases "sqlite_update_table c w") (simp add: sqlite_ops)
  show "sqlite_inv w' \<and> (\<exists>w1. sqlite_ev w w1 \<and> sqlite_cm cs w1 w')"
    if "sqlite_inv w" "commit_transaction sqlite_catalog cs w = (w', Ok u)" for w cs w' u
    using that sqlite_commit_outcome [of w cs w' "Ok u"] by (simp add: sqlite_ops)
  show "sqlite_ev w w'" if "sqlite_inv w" "commit_transaction sqlite_catalog cs w = (w', Err e)" for w cs w' e
    using that sqlite_commit_outcome [of w cs w' "Err e"] by (simp add: sqlite_ops)
  show "snd (commit_transaction sqlite_catalog cs w) \<noteq> Panic" if "sqlite_inv w" for w cs
    using sqlite_commit_outcome [OF that, of cs] by (cases "sqlite_commit_transaction cs w") (simp add: sqlite_ops)
qed

text \<open>Where nobody else writes, a quiet stretch leaves every \<open>main\<close> where it was.\<close>

lemma quiet_alone:
  assumes "quiet sqlite_tables sqlite_ev sqlite_cm w w'" "sqlite_inv w" "others w = []"
  shows "sqlite_inv w' \<and> others w' = [] \<and> main_of (sqlite_tables w') = main_of (sqlite_tables w)"
  using assms
proof (induction rule: quiet.induct)
  case (quiet_env w w1 w2)
  then show ?case using ev_keeps [of w1 w2] ev_alone [of w1 w2] by simp
qed (auto simp: sqlite_cm_def)

section \<open>A warehouse of two tables\<close>

definition example_metadata :: "uuid \<Rightarrow> table_metadata" where
  "example_metadata u = \<lparr>table_uuid = u, current_snapshot_id = Some 7,
     snapshots = [(7, \<lparr>snapshot_id = 7, parent_snapshot_id = None, timestamp_ms = 100\<rparr>)],
     refs = [(MAIN_BRANCH, \<lparr>ref_snapshot_id = 7, ref_retention = default_retention\<rparr>)]\<rparr>"

definition orders :: table_ident where
  "orders = TableIdent [''shop''] ''orders''"

definition items :: table_ident where
  "items = TableIdent [''shop''] ''items''"

definition example_world :: sqlite_world where
  "example_world = \<lparr>pointers = [orders \<mapsto> 0, items \<mapsto> 1],
     files = [0 \<mapsto> example_metadata 1, 1 \<mapsto> example_metadata 2], next_file = 2, others = []\<rparr>"

definition example_commit :: "table_ident \<Rightarrow> table_commit" where
  "example_commit i = \<lparr>commit_ident = i,
     updates = [SetSnapshotRef ''audit'' \<lparr>ref_snapshot_id = 7, ref_retention = default_retention\<rparr>],
     requirements = [RefSnapshotIdMatch MAIN_BRANCH (Some 7), RefSnapshotIdMatch ''audit'' None]\<rparr>"

lemma example_metadata_wf: "metadata_wf (example_metadata u)"
  by (simp add: metadata_wf_def example_metadata_def snapshot_by_id_def head_of_def)

lemma example_world_inv: "sqlite_inv example_world" "others example_world = []"
  by (auto simp: sqlite_inv_def example_world_def example_metadata_wf split: if_splits)

section \<open>Properties\<close>

text \<open>
  C3: a commit of several tables to the embedded catalog is atomic under every interleaving with other
  writers and every storage failure. When it succeeds there is one instant at which the requirements of
  every commit held and all metadata pointers moved together, to the metadata the commits produce; when
  it fails no pointer was moved by it: only other writers acted.
\<close>

theorem commit_transaction_atomic:
  assumes "sqlite_inv w" "sqlite_commit_transaction cs w = (w', r)"
  shows "case r of
      Ok u \<Rightarrow> sqlite_inv w' \<and> (\<exists>w1. sqlite_ev w w1 \<and> sqlite_cm cs w1 w')
    | Err e \<Rightarrow> sqlite_ev w w'
    | Panic \<Rightarrow> False"
  using sqlite_commit_outcome [OF assms] by (auto simp: commit_outcome_def split: outcome.splits)

theorem commit_transaction_atomic_witness:
  "sqlite_inv example_world \<and>
   (case sqlite_commit_transaction [example_commit orders, example_commit items] example_world of (w', r) \<Rightarrow>
      r = Ok () \<and> (\<exists>w1. sqlite_ev example_world w1 \<and> sqlite_cm [example_commit orders, example_commit items] w1 w'))"
proof -
  let ?r = "sqlite_commit_transaction [example_commit orders, example_commit items] example_world"
  have "snd ?r = Ok ()" by code_simp
  then have run: "?r = (fst ?r, Ok ())" by (metis prod.collapse)
  from commit_transaction_atomic [OF example_world_inv(1) run] show ?thesis
    by (subst run) (simp add: example_world_inv(1))
qed

end
