(* ===== verification/Txn_Isolation.thy ===== *)
theory Txn_Isolation
  imports Txn_Scope Sqlite_Catalog
begin

text \<open>
  Isolation and atomicity of explicit transactions: the session catalog keeps the promises of the
  catalog it wraps, no statement of a transaction moves \<open>main\<close>, and COMMIT moves \<open>main\<close> of all tables
  or of none. The properties are stated for every catalog with the laws of the trait and applied to the
  embedded catalog.
\<close>

section \<open>The session catalog wraps a catalog\<close>

text \<open>What identifies a scope and what it claimed; binding a catalog changes neither.\<close>

definition scope_view :: "'w txn_scope option \<Rightarrow> (string \<times> txn_table list) option" where
  "scope_view txn = map_option (\<lambda>t. (scope_id t, scope_tables t)) txn"

lemma scope_view_bind [simp]: "scope_view (Some (bind_catalog key cat t)) = scope_view (Some t)"
  by (simp add: scope_view_def bind_catalog_def bind_key_def)

text \<open>The catalog that COMMIT goes through is the one the statements wrote through.\<close>

definition bound_to :: "'w catalog \<Rightarrow> 'w txn_scope option \<Rightarrow> bool" where
  "bound_to cat txn \<longleftrightarrow> (\<forall>t. txn = Some t \<longrightarrow> scope_catalog t \<in> {None, Some cat})"

lemma bound_to_bind [simp]: "bound_to cat (Some (bind_catalog key cat t))"
  by (simp add: bound_to_def bind_catalog_def)

lemma bound_to_new [simp]: "bound_to cat (Some (scope_new i))"
  by (simp add: bound_to_def scope_new_def)

lemma bridge_update_cases:
  assumes "bridge_update_table cat key wb c (w, txn) = (sw', r)"
  obtains (refused) e where "sw' = (w, txn)" "r = Err e"
    | (forwarded) w' where "update_table cat c w = (w', r)" "fst sw' = w'" "scope_view (snd sw') = scope_view txn"
        "bound_to cat txn \<Longrightarrow> bound_to cat (snd sw')" "txn = None \<or> \<not> sets_ref c MAIN_BRANCH"
  using assms
  by (auto simp: bridge_update_table_def split: if_splits option.splits sum.splits prod.splits outcome.splits)

lemma quiet_fst:
  "quiet (\<lambda>sw. T (fst sw)) (\<lambda>a b. ev (fst a) (fst b) \<and> P a b) (\<lambda>cs a b. cm cs (fst a) (fst b)) a b \<Longrightarrow>
     quiet T ev cm (fst a) (fst b)"
  by (induction rule: quiet.induct) (auto intro: quiet.intros)

context catalog_laws
begin

lemma pin_to_txn_branch_spec:
  assumes "inv w" "metadata_wf (tbl_metadata t)" "pin_to_txn_branch cat ss t w = (w', r)"
  shows "ev w w' \<and> r \<noteq> Panic \<and> (\<forall>t'. r = Ok t' \<longrightarrow> tbl_ident t' = tbl_ident t \<and> metadata_wf (tbl_metadata t'))"
proof (cases "pin_table ss t")
  case (Stale b)
  obtain w1 l where l: "load_table cat (tbl_ident t) w = (w1, l)" by fastforce
  note load = load_evolves [OF assms(1) l]
  show ?thesis
  proof (cases l)
    case (Ok t')
    note tab = load_ok [OF assms(1) l [unfolded Ok]]
    note unfold = assms(3) [unfolded pin_to_txn_branch_def Stale pin.case l Ok prod.case outcome.case]
    show ?thesis
    proof (cases "pin_table ss t'")
      case (Unpinned x)
      with unfold load tab pin_table_wf [of t' ss x] show ?thesis by auto
    next
      case (Pinned x)
      with unfold load tab pin_table_wf [of t' ss x] show ?thesis by auto
    next
      case (Stale b')
      with unfold load show ?thesis by auto
    qed
  next
    case (Err e)
    with assms(3) Stale l load show ?thesis by (auto simp: pin_to_txn_branch_def)
  qed (use load in simp)
next
  case (Unpinned x)
  with assms ev_refl [of w] pin_table_wf [of t ss x] show ?thesis by (auto simp: pin_to_txn_branch_def)
next
  case (Pinned x)
  with assms ev_refl [of w] pin_table_wf [of t ss x] show ?thesis by (auto simp: pin_to_txn_branch_def)
qed

lemma bridge_load_spec:
  assumes "inv w" "bridge_load_table cat wb i (w, txn) = (sw', r)"
  shows "ev w (fst sw') \<and> snd sw' = txn \<and> r \<noteq> Panic \<and>
    (\<forall>t. r = Ok t \<longrightarrow> tbl_ident t = i \<and> metadata_wf (tbl_metadata t))"
proof -
  obtain w1 l where l: "load_table cat i w = (w1, l)" by fastforce
  note load = load_evolves [OF assms(1) l]
  show ?thesis
  proof (cases l)
    case (Ok t)
    note tab = load_ok [OF assms(1) l [unfolded Ok]]
    have inv1: "inv w1" using ev_inv assms(1) load by blast
    obtain w2 p where p: "pin_to_txn_branch cat \<lparr>current_txn = txn, write_branch = wb\<rparr> t w1 = (w2, p)" by fastforce
    note pin = pin_to_txn_branch_spec [OF inv1 conjunct2 [OF tab] p]
    have "ev w w2" by (rule ev_trans [OF conjunct1 [OF load] conjunct1 [OF pin]])
    moreover have "sw' = (w2, txn)" "r = (case p of Ok t' \<Rightarrow> Ok t' | Err e \<Rightarrow> Err (bridge_error e) | Panic \<Rightarrow> Panic)"
      using assms(2) unfolding bridge_load_table_def by (simp_all add: l Ok p split: outcome.splits)
    ultimately show ?thesis using pin conjunct1 [OF tab] by (simp split: outcome.splits)
  qed (use assms(2) l load in \<open>auto simp: bridge_load_table_def\<close>)
qed

text \<open>
  In a transaction the session catalog is a catalog again, for the same store, which keeps the identity
  of the transaction and accepts no commit that sets \<open>main\<close>.
\<close>

lemma bridge_laws:
  assumes "view \<noteq> None"
  shows "catalog_laws (session_bridge cat key wb) (\<lambda>sw. T (fst sw))
    (\<lambda>a b. ev (fst a) (fst b) \<and> scope_view (snd b) = scope_view (snd a) \<and>
       (bound_to cat (snd a) \<longrightarrow> bound_to cat (snd b)))
    (\<lambda>cs a b. cm cs (fst a) (fst b)) (\<lambda>sw. inv (fst sw) \<and> scope_view (snd sw) = view \<and> bound_to cat (snd sw)) (\<lambda>c. \<not> sets_ref c MAIN_BRANCH)"
    (is "catalog_laws _ _ ?ev _ ?inv ?ok")
proof unfold_locales
  fix w :: "'w stmt_world" and i w' r
  assume *: "?inv w" "load_table (session_bridge cat key wb) i w = (w', r)"
  with bridge_load_spec [of "fst w" wb i "snd w"] show "?ev w w' \<and> r \<noteq> Panic"
    by (simp add: session_bridge_def)
next
  fix w :: "'w stmt_world" and i w' t
  assume *: "?inv w" "load_table (session_bridge cat key wb) i w = (w', Ok t)"
  with bridge_load_spec [of "fst w" wb i "snd w" w' "Ok t"] show "tbl_ident t = i \<and> metadata_wf (tbl_metadata t)"
    by (simp add: session_bridge_def)
next
  fix w :: "'w stmt_world" and c w' t
  assume *: "?inv w" "update_table (session_bridge cat key wb) c w = (w', Ok t)"
  then have "bridge_update_table cat key wb c (fst w, snd w) = (w', Ok t)" by (simp add: session_bridge_def)
  then show "?inv w' \<and> ?ok c \<and> (\<exists>w1. ?ev w w1 \<and> cm [c] (fst w1) (fst w'))"
  proof (cases rule: bridge_update_cases)
    case (forwarded v)
    with assms * have "snd w \<noteq> None" by (auto simp: scope_view_def)
    with forwarded have ok: "?ok c" by blast
    have "inv (fst w)" using * by simp
    from update_ok [OF this forwarded(1)] obtain w1 where
      "inv v" "ev (fst w) w1" "cm [c] w1 v" by blast
    with forwarded * ok show ?thesis by (intro conjI exI [of _ "(w1, snd w)"]) simp_all
  qed simp
next
  fix w :: "'w stmt_world" and c w' e
  assume *: "?inv w" "update_table (session_bridge cat key wb) c w = (w', Err e)"
  then have "bridge_update_table cat key wb c (fst w, snd w) = (w', Err e)" by (simp add: session_bridge_def)
  then show "?ev w w'"
    by (cases rule: bridge_update_cases) (use update_err [of "fst w" c] *(1) ev_refl [of "fst w"] in auto)
next
  fix w :: "'w stmt_world" and c
  assume *: "?inv w"
  obtain w' r where u: "bridge_update_table cat key wb c (fst w, snd w) = (w', r)" by fastforce
  then have "r \<noteq> Panic"
    by (cases rule: bridge_update_cases) (use update_no_panic [of "fst w" c] * in auto)
  with u show "snd (update_table (session_bridge cat key wb) c w) \<noteq> Panic" by (simp add: session_bridge_def)
next
  fix w :: "'w stmt_world" and cs w' u
  assume *: "?inv w" "commit_transaction (session_bridge cat key wb) cs w = (w', Ok u)"
  then have c: "commit_transaction cat cs (fst w) = (fst w', Ok u)" "snd w' = snd w" "inv (fst w)"
    by (auto simp: session_bridge_def bridge_commit_transaction_def split: prod.splits)
  from commit_ok [OF c(3,1)] obtain w1 where
    "inv (fst w')" "ev (fst w) w1" "cm cs w1 (fst w')" by blast
  with * c show "?inv w' \<and> (\<exists>w1. ?ev w w1 \<and> cm cs (fst w1) (fst w'))"
    by (intro conjI exI [of _ "(w1, snd w)"]) simp_all
next
  fix w :: "'w stmt_world" and cs w' e
  assume *: "?inv w" "commit_transaction (session_bridge cat key wb) cs w = (w', Err e)"
  then show "?ev w w'"
    using commit_err [of "fst w" cs "fst w'" e]
    by (auto simp: session_bridge_def bridge_commit_transaction_def split: prod.splits)
next
  fix w :: "'w stmt_world" and cs
  assume *: "?inv w"
  then show "snd (commit_transaction (session_bridge cat key wb) cs w) \<noteq> Panic"
    using commit_no_panic [of "fst w" cs]
    by (auto simp: session_bridge_def bridge_commit_transaction_def split: prod.splits)
next
  show "?inv w \<Longrightarrow> ?ev w w' \<Longrightarrow> ?inv w'" for w w' using ev_inv [of "fst w" "fst w'"] by simp
  show "?ev w w1 \<Longrightarrow> ?ev w1 w2 \<Longrightarrow> ?ev w w2" for w w1 w2 using ev_trans [of "fst w" "fst w1" "fst w2"] by simp
  show "cm cs (fst w) (fst w') \<Longrightarrow> apply_commits cs (T (fst w)) = Ok (T (fst w'))" for cs w w' by (rule cm_tables)
  show "?ev w w" for w :: "'w stmt_world" by (simp add: ev_refl)
  show "?inv w \<Longrightarrow> T (fst w) i = Some md \<Longrightarrow> metadata_wf md" for w i md using inv_wf by blast
qed

text \<open>A commit of a statement, through the session catalog of a transaction.\<close>

lemma bridge_commit_quiet:
  assumes "inv w" "txn \<noteq> None" "bound_to cat txn" "tx_commit (session_bridge cat key wb) k tx (w, txn) = (sw', r)"
  shows "inv (fst sw') \<and> quiet T ev cm w (fst sw') \<and> scope_view (snd sw') = scope_view txn \<and>
    bound_to cat (snd sw') \<and> r \<noteq> Panic"
proof (cases "tx_actions tx = []")
  case True
  with assms show ?thesis by (auto simp: tx_commit_def intro: quiet_refl)
next
  case False
  have "scope_view txn \<noteq> None" using assms(2) by (simp add: scope_view_def)
  note laws = bridge_laws [OF this]
  have inv: "inv (fst (w, txn)) \<and> scope_view (snd (w, txn)) = scope_view txn \<and> bound_to cat (snd (w, txn))"
    using assms(1,3) by simp
  note spec = catalog_laws.tx_commit_spec [OF laws inv assms(4) False]
  have "quiet T ev cm w (fst sw')"
  proof (cases r)
    case (Ok t)
    from quiet_fst [OF catalog_laws.own_commit_quiet [OF laws spec(4) [OF Ok] inv]] show ?thesis by simp
  next
    case (Err e)
    from spec(3) [OF Err] show ?thesis by (simp add: quiet_ev)
  qed (use spec(2) in simp)
  with spec(1,2) show ?thesis by simp
qed

end

section \<open>The statements of a transaction\<close>

text \<open>
  What runs between BEGIN and COMMIT or ROLLBACK: reads, commits of any actions, and the choice of the
  branch that a write goes to, which creates the transaction's branch of a table on its first write.
\<close>

inductive txn_run :: "'w catalog \<Rightarrow> string \<Rightarrow> 'w stmt_world \<Rightarrow> 'w stmt_world \<Rightarrow> bool" for cat key where
  run_begin: "txn_run cat key sw sw"
| run_load: "txn_run cat key sw sw1 \<Longrightarrow> bridge_load_table cat None i sw1 = (sw2, r) \<Longrightarrow> txn_run cat key sw sw2"
| run_commit: "txn_run cat key sw sw1 \<Longrightarrow> tx_commit (session_bridge cat key None) n tx sw1 = (sw2, r') \<Longrightarrow>
    txn_run cat key sw sw2"
| run_target: "txn_run cat key sw sw1 \<Longrightarrow> target_branch cat key None n t sw1 = (sw2, r'') \<Longrightarrow> txn_run cat key sw sw2"

text \<open>One claim per table, all on the branch named after the transaction.\<close>

definition scope_wf :: "string \<Rightarrow> 'w txn_scope option \<Rightarrow> bool" where
  "scope_wf i txn \<longleftrightarrow> (\<exists>ts. scope_view txn = Some (i, ts) \<and> distinct (map txn_uuid ts) \<and>
     (\<forall>t\<in>set ts. txn_branch t = TXN_BRANCH_PREFIX @ i))"

lemma scope_wf_Some: "scope_wf i (Some z) \<longleftrightarrow> scope_id z = i \<and> distinct (map txn_uuid (scope_tables z)) \<and>
    (\<forall>t\<in>set (scope_tables z). txn_branch t = TXN_BRANCH_PREFIX @ i)"
  by (auto simp: scope_wf_def scope_view_def)

lemma scope_wf_new: "scope_wf i (Some (scope_new i))"
  by (simp add: scope_wf_def scope_view_def scope_new_def)

lemma scope_wf_some: "scope_wf i txn \<Longrightarrow> txn \<noteq> None"
  by (auto simp: scope_wf_def scope_view_def)

lemma scope_wf_cong: "scope_view txn' = scope_view txn \<Longrightarrow> scope_wf i txn' = scope_wf i txn"
  by (simp add: scope_wf_def)

lemma scope_wf_record:
  assumes "scope_wf i txn" "txn_branch t = TXN_BRANCH_PREFIX @ i"
  shows "scope_wf i (map_option (record_table t) txn)"
  using assms scope_wf_some [OF assms(1)] by (fastforce simp: scope_wf_Some record_table_def list_ex_iff)

context catalog_laws
begin

lemma target_branch_quiet:
  assumes "inv w" "scope_wf i txn" "bound_to cat txn" "target_branch cat key None n t (w, txn) = (sw', r)"
  shows "inv (fst sw') \<and> quiet T ev cm w (fst sw') \<and> scope_wf i (snd sw') \<and> bound_to cat (snd sw')"
proof -
  obtain scope where txn: "txn = Some scope" using scope_wf_some [OF assms(2)] by blast
  have name: "branch_name scope = TXN_BRANCH_PREFIX @ i"
    using assms(2) by (auto simp: txn scope_wf_def scope_view_def branch_name_def)
  define claim where "claim = \<lparr>txn_uuid = table_uuid (tbl_metadata t), txn_ident = tbl_ident t,
    base_snapshot_id = current_snapshot_id (tbl_metadata t), txn_branch = branch_name scope\<rparr>"
  have rec: "scope_wf i txn' \<Longrightarrow> scope_wf i (map_option (record_table claim) txn')" for txn' :: "'w txn_scope option"
    by (rule scope_wf_record) (simp_all add: claim_def name)
  have bnd: "bound_to cat txn' \<Longrightarrow> bound_to cat (map_option (record_table claim) txn')" for txn'
    by (auto simp: bound_to_def record_table_def)
  show ?thesis
  proof (cases "claimed_branch scope (table_uuid (tbl_metadata t)) = None \<and> current_snapshot_id (tbl_metadata t) \<noteq> None")
    case True
    then obtain b where b: "current_snapshot_id (tbl_metadata t) = Some b" by blast
    let ?tx = "add_action (CreateBranchAction (branch_name scope) (Some b) None False) (transaction_new t)"
    obtain sw1 r1 where c: "tx_commit (session_bridge cat key None) n ?tx (w, txn) = (sw1, r1)" by fastforce
    note spec = bridge_commit_quiet [OF assms(1) scope_wf_some [OF assms(2)] assms(3) c]
    then have wf1: "scope_wf i (snd sw1)" using assms(2) scope_wf_cong by blast
    have "fst sw' = fst sw1" "snd sw' = snd sw1 \<or> snd sw' = map_option (record_table claim) (snd sw1)"
      using assms(4) True b c
      by (auto simp: target_branch_def txn Let_def claim_def split: outcome.splits prod.splits)
    with spec wf1 rec bnd show ?thesis by auto
  next
    case False
    then have "fst sw' = w" "snd sw' = txn \<or> snd sw' = map_option (record_table claim) txn"
      using assms(4) by (auto simp: target_branch_def txn Let_def claim_def split: option.splits)
    with assms(1,2,3) rec bnd quiet_refl [of T ev cm w] show ?thesis by auto
  qed
qed

lemma txn_run_quiet:
  assumes "txn_run cat key sw sw'" "inv (fst sw)" "scope_wf i (snd sw)" "bound_to cat (snd sw)"
  shows "inv (fst sw') \<and> quiet T ev cm (fst sw) (fst sw') \<and> scope_wf i (snd sw') \<and> bound_to cat (snd sw')"
  using assms
proof (induction rule: txn_run.induct)
  case (run_begin sw)
  then show ?case by (simp add: quiet_refl)
next
  case (run_load sw sw1 j sw2 r)
  note IH = run_load.IH [OF run_load.prems]
  from bridge_load_spec [of "fst sw1" None j "snd sw1" sw2 r] IH run_load.hyps(2)
  have "ev (fst sw1) (fst sw2)" "snd sw2 = snd sw1" by simp_all
  with IH ev_inv quiet_env show ?case by metis
next
  case (run_commit sw sw1 n tx sw2 r)
  note IH = run_commit.IH [OF run_commit.prems]
  from bridge_commit_quiet [of "fst sw1" "snd sw1" key None n tx sw2 r] IH run_commit.hyps(2) scope_wf_some
  have "inv (fst sw2)" "quiet T ev cm (fst sw1) (fst sw2)" "scope_view (snd sw2) = scope_view (snd sw1)"
    "bound_to cat (snd sw2)" by auto
  with IH quiet_trans scope_wf_cong show ?case by metis
next
  case (run_target sw sw1 n t sw2 r)
  note IH = run_target.IH [OF run_target.prems]
  from target_branch_quiet [of "fst sw1" i "snd sw1" key n t sw2 r] IH run_target.hyps(2)
  have "inv (fst sw2)" "quiet T ev cm (fst sw1) (fst sw2)" "scope_wf i (snd sw2)" "bound_to cat (snd sw2)" by auto
  with IH quiet_trans show ?case by metis
qed

end

section \<open>A session over the embedded catalog\<close>

text \<open>A write of snapshot \<open>sid\<close> to a table, and a transaction that writes both tables of the warehouse.\<close>

definition example_write ::
  "table_ident \<Rightarrow> uuid \<Rightarrow> location \<Rightarrow> i64 \<Rightarrow> sqlite_world stmt_world \<Rightarrow> sqlite_world stmt_world" where
  "example_write i u l sid sw =
     (let t = \<lparr>tbl_ident = i, tbl_metadata = example_metadata u, tbl_location = l\<rparr>;
          sw1 = fst (target_branch sqlite_catalog ''k'' None 4 t sw)
      in fst (tx_commit (session_bridge sqlite_catalog ''k'' None) 4
           (add_action (SnapshotAction ''sqe-txn-t1'' sid 200) (transaction_new t)) sw1))"

definition example_begin :: "sqlite_world stmt_world" where
  "example_begin = (example_world, Some (scope_new ''t1''))"

definition example_session :: "sqlite_world stmt_world" where
  "example_session = example_write items 2 1 9 (example_write orders 1 0 8 example_begin)"

lemma example_write_run: "txn_run sqlite_catalog ''k'' sw sw1 \<Longrightarrow> txn_run sqlite_catalog ''k'' sw (example_write i u l sid sw1)"
  unfolding example_write_def Let_def by (rule run_commit, rule run_target, assumption) (rule prod.collapse [symmetric])+

lemma example_session_run: "txn_run sqlite_catalog ''k'' example_begin example_session"
  unfolding example_session_def by (intro example_write_run run_begin)

lemma example_session_cases:
  obtains w txn where "example_session = (w, Some txn)" "sqlite_inv w" "bound_to sqlite_catalog (Some txn)"
proof -
  from catalog_laws.txn_run_quiet [OF sqlite.catalog_laws_axioms example_session_run, of "''t1''"] example_world_inv(1)
  have *: "sqlite_inv (fst example_session)" "bound_to sqlite_catalog (snd example_session)" "snd example_session \<noteq> None"
    by (auto simp: example_begin_def scope_wf_new dest: scope_wf_some)
  then obtain txn where "snd example_session = Some txn" by blast
  with * that [of "fst example_session" txn] show thesis by (metis prod.collapse)
qed

definition main_heads :: "sqlite_world \<Rightarrow> i64 option option list" where
  "main_heads w = map (main_of (sqlite_tables w)) [orders, items]"

lemma example_publish:
  "(case example_session of (w, Some txn) \<Rightarrow> (case publish 4 txn w of (w', txn', r) \<Rightarrow>
      r = Ok () \<and> main_heads w = [Some (Some 7), Some (Some 7)] \<and> main_heads w' = [Some (Some 8), Some (Some 9)] \<and>
      distinct (map txn_ident (scope_tables txn)) \<and> \<not> Option.is_none (scope_catalog txn) \<and> scope_id txn = ''t1'')
    | _ \<Rightarrow> False)"
  by code_simp

lemma example_publish_cases:
  obtains w txn w' txn' where "example_session = (w, Some txn)" "sqlite_inv w" "scope_catalog txn = Some sqlite_catalog"
    "publish 4 txn w = (w', txn', Ok ())" "main_heads w = [Some (Some 7), Some (Some 7)]"
    "main_heads w' = [Some (Some 8), Some (Some 9)]" "distinct (map txn_ident (scope_tables txn))" "scope_id txn = ''t1''"
proof -
  obtain w txn where s: "example_session = (w, Some txn)" "sqlite_inv w" "bound_to sqlite_catalog (Some txn)"
    by (rule example_session_cases)
  obtain w' txn' r where p: "publish 4 txn w = (w', txn', r)" by (metis prod_cases3)
  from example_publish s(3) have "scope_catalog txn = Some sqlite_catalog"
    by (auto simp: s(1) p Option.is_none_def bound_to_def)
  with example_publish that [OF s(1,2)] show thesis by (simp add: s(1) p)
qed

section \<open>Properties\<close>

text \<open>
  C1: isolation. Whatever statements a transaction runs between BEGIN and its end, through any catalog
  with the laws of the trait, they move \<open>main\<close> of no table: every step in between is one of other clients
  or a commit of the transaction that leaves every \<open>main\<close> where it was. The transaction claims a table at
  most once, all its claims are on the branch that carries its id, and it is bound to no other catalog.
\<close>

theorem transaction_isolated:
  assumes "catalog_laws cat T ev cm valid ok" "valid w"
    and "txn_run cat key (w, Some (scope_new i)) (w', txn')"
  shows "quiet T ev cm w w' \<and> valid w' \<and> scope_wf i txn' \<and> bound_to cat txn'"
  using catalog_laws.txn_run_quiet [OF assms(1,3), of i] assms(2) by (simp add: scope_wf_new)

theorem transaction_isolated_witness:
  "txn_run sqlite_catalog ''k'' example_begin example_session \<and>
   main_of (sqlite_tables (fst example_session)) = main_of (sqlite_tables example_world) \<and>
   map_option (map txn_ident \<circ> scope_tables) (snd example_session) = Some [orders, items] \<and>
   scope_wf ''t1'' (snd example_session)"
proof -
  have run: "txn_run sqlite_catalog ''k'' (example_world, Some (scope_new ''t1'')) (fst example_session, snd example_session)"
    using example_session_run by (simp add: example_begin_def)
  note iso = transaction_isolated [OF sqlite.catalog_laws_axioms example_world_inv(1) run]
  have "map_option (map txn_ident \<circ> scope_tables) (snd example_session) = Some [orders, items]" by code_simp
  with iso quiet_alone [OF _ example_world_inv] example_session_run show ?thesis by auto
qed

text \<open>
  C2: atomicity. COMMIT publishes all tables of a transaction in one instant or none. When it succeeds,
  there is one step of the store in which \<open>main\<close> of every claimed table, still at the snapshot the
  transaction started from, moves to the head of its branch, the branch goes away, and no other table
  changes; only tables that had no snapshot and were never written are left out. When it fails it has
  moved no \<open>main\<close>. It never panics.
\<close>

theorem publish_all_or_nothing:
  assumes "catalog_laws cat T ev cm valid ok" "valid w" "scope_catalog txn = Some cat"
    and "distinct (map txn_ident (scope_tables txn))" "publish n txn w = (w', txn', r)"
  shows "valid w' \<and> (case r of
      Ok u \<Rightarrow> all_published T ev cm (scope_tables txn) w w'
    | Err e \<Rightarrow> quiet T ev cm w w'
    | Panic \<Rightarrow> False)"
  by (rule catalog_laws.publish_spec [OF assms(1,2,5,3,4)])

theorem publish_all_or_nothing_witness:
  "(case example_session of (w, Some txn) \<Rightarrow> (case publish 4 txn w of (w', txn', r) \<Rightarrow>
      r = Ok () \<and> main_heads w = [Some (Some 7), Some (Some 7)] \<and> main_heads w' = [Some (Some 8), Some (Some 9)] \<and>
      all_published sqlite_tables sqlite_ev sqlite_cm (scope_tables txn) w w')
    | _ \<Rightarrow> False)"
proof -
  obtain w txn w' txn' where s: "example_session = (w, Some txn)" "sqlite_inv w" "scope_catalog txn = Some sqlite_catalog"
    "publish 4 txn w = (w', txn', Ok ())" "main_heads w = [Some (Some 7), Some (Some 7)]"
    "main_heads w' = [Some (Some 8), Some (Some 9)]" "distinct (map txn_ident (scope_tables txn))"
    by (rule example_publish_cases)
  from publish_all_or_nothing [OF sqlite.catalog_laws_axioms s(2,3,7,4)] s(5,6) show ?thesis by (simp add: s(1,4))
qed

end
