(* ===== verification/Txn_Id.thy ===== *)
theory Txn_Id
  imports Prelude
begin

text \<open>
  Transaction ids (\<open>crates/sqe-core/src/txn_id.rs\<close>): a random UUID whose top 32 bits are replaced by the
  incarnation of the coordinator process that mints it. Parsing and printing of UUIDs belong to the
  \<open>uuid\<close> crate and are the arguments \<open>parse_str\<close> and \<open>to_string\<close>; random UUIDs are arguments too.
\<close>

definition with_incarnation :: "u128 \<Rightarrow> u32 \<Rightarrow> u128" where
  "with_incarnation i inc = (i AND drop_bit 32 (- 1)) OR push_bit 96 (ucast inc)"

definition incarnation_of :: "u128 \<Rightarrow> u32" where
  "incarnation_of i = ucast (drop_bit 96 i)"

text \<open>The incarnation of a process, from the UUID it draws on first use.\<close>

definition incarnation :: "u128 \<Rightarrow> u32" where
  "incarnation drawn = ucast (drop_bit 96 drawn)"

definition new_txn_id :: "(u128 \<Rightarrow> string) \<Rightarrow> u32 \<Rightarrow> u128 \<Rightarrow> string" where
  "new_txn_id to_string inc random = to_string (with_incarnation random inc)"

definition is_local_txn_id :: "(string \<Rightarrow> u128 option) \<Rightarrow> u32 \<Rightarrow> string \<Rightarrow> bool" where
  "is_local_txn_id parse_str inc i = (case parse_str i of None \<Rightarrow> False | Some u \<Rightarrow> incarnation_of u = inc)"

lemma low_mask: "drop_bit 32 (- 1 :: u128) = mask 96"
  by (rule bit_word_eqI) (auto simp: bit_simps)

lemma bit_with_incarnation:
  "bit (with_incarnation i inc) n \<longleftrightarrow> (if n < 96 then bit i n else bit inc (n - 96) \<and> n < 128)"
  by (auto simp: with_incarnation_def low_mask bit_simps dest: bit_imp_le_length)

lemma incarnation_of_with [simp]: "incarnation_of (with_incarnation i inc) = inc"
proof (rule bit_word_eqI)
  fix n
  assume "n < LENGTH(32)"
  then show "bit (incarnation_of (with_incarnation i inc)) n = bit inc n"
    by (simp add: incarnation_of_def bit_ucast_iff bit_drop_bit_eq bit_with_incarnation)
qed

lemma take_bit_with_incarnation: "take_bit 96 (with_incarnation i inc) = take_bit 96 i"
  by (rule bit_word_eqI) (simp add: bit_take_bit_iff bit_with_incarnation)

lemma with_incarnation_eq_iff:
  "with_incarnation i inc = with_incarnation j inc \<longleftrightarrow> take_bit 96 i = take_bit 96 j"
proof
  assume "with_incarnation i inc = with_incarnation j inc"
  then show "take_bit 96 i = take_bit 96 j" by (metis take_bit_with_incarnation)
next
  assume "take_bit 96 i = take_bit 96 j"
  then have "bit i n = bit j n" if "n < 96" for n
    using that by (metis bit_take_bit_iff)
  then show "with_incarnation i inc = with_incarnation j inc"
    by (intro bit_word_eqI) (simp add: bit_with_incarnation)
qed

section \<open>Properties\<close>

text \<open>
  C34: a coordinator accepts as its own exactly the transaction ids minted with its incarnation: the id
  that a coordinator mints is refused by every coordinator with another incarnation, a restarted one
  included. Minting keeps the lower 96 bits of the random UUID, among them its version and variant, so
  two ids of one coordinator are equal only if these bits are. This holds for every printer of UUIDs
  that its parser inverts.
\<close>

theorem txn_id_local_iff:
  assumes "\<And>u. parse_str (to_string u) = Some u"
  shows "(is_local_txn_id parse_str mine (new_txn_id to_string minter random) \<longleftrightarrow> mine = minter) \<and>
    take_bit 96 (with_incarnation random minter) = take_bit 96 random \<and>
    (new_txn_id to_string minter random = new_txn_id to_string minter random' \<longleftrightarrow>
       take_bit 96 random = take_bit 96 random')"
proof (intro conjI)
  show "is_local_txn_id parse_str mine (new_txn_id to_string minter random) \<longleftrightarrow> mine = minter"
    using assms by (auto simp: is_local_txn_id_def new_txn_id_def)
  show "take_bit 96 (with_incarnation random minter) = take_bit 96 random"
    by (rule take_bit_with_incarnation)
  show "new_txn_id to_string minter random = new_txn_id to_string minter random' \<longleftrightarrow>
      take_bit 96 random = take_bit 96 random'"
    using assms by (metis new_txn_id_def option.inject with_incarnation_eq_iff)
qed

text \<open>Numbers in unary stand in for the text of a UUID.\<close>

theorem txn_id_local_iff_witness:
  "(\<forall>u. (\<lambda>s. Some (of_nat (length s) :: u128)) ((\<lambda>u :: u128. replicate (unat u) CHR ''x'') u) = Some u) \<and>
   is_local_txn_id (\<lambda>s. Some (of_nat (length s))) 5 (new_txn_id (\<lambda>u. replicate (unat u) CHR ''x'') 5 77) \<and>
   \<not> is_local_txn_id (\<lambda>s. Some (of_nat (length s))) 6 (new_txn_id (\<lambda>u. replicate (unat u) CHR ''x'') 5 77)"
proof -
  have inverse: "(\<lambda>s. Some (of_nat (length s) :: u128)) ((\<lambda>u :: u128. replicate (unat u) CHR ''x'') u) = Some u" for u
    by simp
  note local_iff = txn_id_local_iff [of "\<lambda>s. Some (of_nat (length s))" "\<lambda>u. replicate (unat u) CHR ''x''", OF inverse]
  from local_iff [of 5 5 77 78] local_iff [of 6 5 77 78] inverse show ?thesis by simp
qed

end
