(* ===== verification/Txn_Registry.thy ===== *)
theory Txn_Registry
  imports Txn_Scope Txn_Id
begin

text \<open>
  The coordinator's table of open transactions (\<open>crates/sqe-coordinator/src/txn_registry.rs\<close>): who owns a
  transaction, when it expires, and which ids have ended and are refused.

  Every method runs in one critical section, so a method is one step; the clock readings of a method are
  one reading \<open>now\<close>, in milliseconds, and \<open>duration_since\<close> is subtraction that stops at zero. Hash maps are
  association lists. The scope that the code shares behind a pointer is stored in the entry, and
  \<open>with_scope\<close> is what a statement does to it through the pointer. Work held until a transaction ends
  is a number per closure, and running it is recorded. Rollbacks that the code starts in the background
  are collected in \<open>spawned\<close>; log lines are left out.
\<close>

section \<open>State\<close>

type_synonym millis = nat

definition IDLE_TIMEOUT :: millis where
  "IDLE_TIMEOUT = 30 * 60 * 1000"

definition ENDED_RETENTION :: millis where
  "ENDED_RETENTION = 24 * 60 * 60 * 1000"

datatype txn_outcome = Committed | RolledBack | ConflictOutcome | IdleTimeout | Lifetime | SessionEnded | Shutdown

fun outcome_label :: "txn_outcome \<Rightarrow> string" where
  "outcome_label Committed = ''committed''"
| "outcome_label RolledBack = ''rolled_back''"
| "outcome_label ConflictOutcome = ''conflict''"
| "outcome_label IdleTimeout = ''idle_timeout''"
| "outcome_label Lifetime = ''lifetime''"
| "outcome_label SessionEnded = ''session_ended''"
| "outcome_label Shutdown = ''shutdown''"

fun outcome_action :: "txn_outcome \<Rightarrow> string" where
  "outcome_action Committed = ''commit''"
| "outcome_action ConflictOutcome = ''commit''"
| "outcome_action _ = ''rollback''"

record 'w open_txn =
  open_scope :: "'w txn_scope"
  open_owner :: string
  opened :: millis
  at_end_held :: "nat list"

definition open_new :: "'w txn_scope \<Rightarrow> string \<Rightarrow> millis \<Rightarrow> 'w open_txn" where
  "open_new s owner now = \<lparr>open_scope = s, open_owner = owner, opened = now, at_end_held = []\<rparr>"

record 'w entry =
  entry_owner :: string
  entry_open :: "'w open_txn"
  last_used :: millis

record 'w reg_state =
  open_txns :: "(string \<times> 'w entry) list"
  ended_txns :: "(string \<times> millis) list"

text \<open>The metrics and the audit trail, each present if it is configured.\<close>

record reg_metrics =
  transactions_open :: nat
  ended_total :: "string list"
  not_found_total :: nat

record txn_audit =
  audit_txn :: string
  audit_actor :: string
  audit_action :: string
  audit_reason :: "string option"
  audit_duration :: "millis option"
  audit_published :: "(string \<times> i64) list"
  audit_failure :: "sqe_error_code option"

record 'w registry =
  reg_state :: "'w reg_state"
  reg_metrics :: "reg_metrics option"
  reg_audit :: "txn_audit list option"
  ran_at_end :: "(nat \<times> string option) list"
  spawned :: "'w txn_scope list"

definition registry_new :: "reg_metrics option \<Rightarrow> 'w registry" where
  "registry_new m = \<lparr>reg_state = \<lparr>open_txns = [], ended_txns = []\<rparr>, reg_metrics = m, reg_audit = None,
     ran_at_end = [], spawned = []\<rparr>"

definition with_audit :: "'w registry \<Rightarrow> 'w registry" where
  "with_audit r = r\<lparr>reg_audit := Some []\<rparr>"

datatype 'w ended = EndedOpen "'w open_txn" | Unused | Already sqe_error

section \<open>Errors\<close>

text \<open>\<open>{:?}\<close> of an ASCII string: quoted, with the escapes of \<open>char::escape_debug\<close>.\<close>

definition hex_digit :: "nat \<Rightarrow> char" where
  "hex_digit n = char_of (if n < 10 then 48 + n else 87 + n)"

definition escape_debug :: "char \<Rightarrow> string" where
  "escape_debug c = (let n = (of_char c :: nat) in
     if n = 0 then [CHR 0x5C, CHR ''0'']
     else if n = 9 then [CHR 0x5C, CHR ''t'']
     else if n = 10 then [CHR 0x5C, CHR ''n'']
     else if n = 13 then [CHR 0x5C, CHR ''r'']
     else if n = 34 \<or> n = 92 then [CHR 0x5C, c]
     else if n < 16 then [CHR 0x5C, CHR ''u'', CHR 0x7B, hex_digit n, CHR 0x7D]
     else if n < 32 \<or> n = 127 then [CHR 0x5C, CHR ''u'', CHR 0x7B, hex_digit (n div 16), hex_digit (n mod 16), CHR 0x7D]
     else [c])"

definition debug_str :: "string \<Rightarrow> string" where
  "debug_str s = [CHR 0x22] @ concat (map escape_debug s) @ [CHR 0x22]"

definition validate_id :: "(string \<Rightarrow> u128 option) \<Rightarrow> string \<Rightarrow> sqe_error + unit" where
  "validate_id parse_str i = (case parse_str i of
     None \<Rightarrow> Inl (with_code InvalidArguments (''invalid transaction id '' @ debug_str i @ '': expected a UUID''))
   | Some _ \<Rightarrow> Inr ())"

definition unknown :: "string \<Rightarrow> sqe_error" where
  "unknown i = with_code InvalidArguments (''unknown transaction '' @ i)"

definition not_found :: "string \<Rightarrow> sqe_error" where
  "not_found i = with_code TransactionConflict (''transaction '' @ i @ '' not found on this coordinator: it was started on another coordinator, or before this one restarted, and its writes are lost; run ROLLBACK and start a new one'')"

definition ended_error :: "string \<Rightarrow> sqe_error" where
  "ended_error i = with_code TransactionConflict (''transaction '' @ i @ '' has ended (committed, rolled back, idle for longer than '' @ show_nat (IDLE_TIMEOUT div 1000 div 60) @ '' minutes, or open for longer than '' @ show_nat (MAX_LIFETIME div 1000 div 3600) @ '' hours); run ROLLBACK and start a new one'')"

section \<open>Expiry\<close>

definition expiry :: "millis \<Rightarrow> 'w entry \<Rightarrow> txn_outcome option" where
  "expiry now e =
     (if now - opened (entry_open e) \<ge> MAX_LIFETIME then Some Lifetime
      else if now - last_used e \<ge> IDLE_TIMEOUT then Some IdleTimeout
      else None)"

fun take_expired ::
  "millis \<Rightarrow> (string \<times> txn_outcome) list \<Rightarrow> 'w reg_state \<Rightarrow> 'w reg_state \<times> ('w open_txn \<times> txn_outcome) list" where
  "take_expired now [] st = (st, [])"
| "take_expired now ((i, out) # rest) st = (case map_of (open_txns st) i of
     None \<Rightarrow> take_expired now rest st
   | Some e \<Rightarrow>
     (let st' = st\<lparr>open_txns := AList.delete i (open_txns st), ended_txns := AList.update i now (ended_txns st)\<rparr>;
          (st'', taken) = take_expired now rest st'
      in (st'', (entry_open e, out) # taken)))"

definition sweep :: "millis \<Rightarrow> 'w reg_state \<Rightarrow> 'w reg_state \<times> ('w open_txn \<times> txn_outcome) list" where
  "sweep now st =
     (let st' = st\<lparr>ended_txns := filter (\<lambda>(i, at). now - at < ENDED_RETENTION) (ended_txns st)\<rparr>;
          expired = List.map_filter (\<lambda>(i, e). map_option (Pair i) (expiry now e)) (open_txns st)
      in take_expired now expired st')"

section \<open>Recording\<close>

definition set_open_gauge :: "'w registry \<Rightarrow> 'w registry" where
  "set_open_gauge r = r\<lparr>reg_metrics := map_option (\<lambda>m. m\<lparr>transactions_open := length (open_txns (reg_state r))\<rparr>) (reg_metrics r)\<rparr>"

definition audit_event :: "txn_audit \<Rightarrow> 'w registry \<Rightarrow> 'w registry" where
  "audit_event ev r =
     (let failure = (if audit_reason ev = Some (outcome_label ConflictOutcome) then Some TransactionConflict else None)
      in r\<lparr>reg_audit := map_option (\<lambda>log. log @ [ev\<lparr>audit_failure := failure\<rparr>]) (reg_audit r)\<rparr>)"

definition begin_event :: "string \<Rightarrow> string \<Rightarrow> txn_audit" where
  "begin_event i owner = \<lparr>audit_txn = i, audit_actor = owner, audit_action = ''begin'', audit_reason = None,
     audit_duration = None, audit_published = [], audit_failure = None\<rparr>"

definition end_event :: "millis \<Rightarrow> 'w open_txn \<Rightarrow> txn_outcome \<Rightarrow> txn_audit" where
  "end_event now op out = \<lparr>audit_txn = scope_id (open_scope op), audit_actor = open_owner op,
     audit_action = outcome_action out, audit_reason = Some (outcome_label out),
     audit_duration = Some (now - opened op),
     audit_published = map (\<lambda>(i, sid). (ident_display i, sid)) (published (open_scope op)), audit_failure = None\<rparr>"

definition record_end :: "millis \<Rightarrow> 'w open_txn \<Rightarrow> txn_outcome \<Rightarrow> 'w registry \<Rightarrow> 'w registry" where
  "record_end now op out r =
     (let r1 = r\<lparr>reg_metrics := map_option (\<lambda>m. m\<lparr>ended_total := ended_total m @ [outcome_label out]\<rparr>) (reg_metrics r)\<rparr>;
          r2 = audit_event (end_event now op out) r1;
          unpublished = (if out \<noteq> Committed then Some (outcome_label out) else None)
      in r2\<lparr>ran_at_end := ran_at_end r2 @ map (\<lambda>f. (f, unpublished)) (at_end_held op)\<rparr>)"

fun discard_all :: "millis \<Rightarrow> ('w open_txn \<times> txn_outcome) list \<Rightarrow> 'w registry \<Rightarrow> 'w registry" where
  "discard_all now [] r = r"
| "discard_all now ((op, out) # rest) r =
     discard_all now rest ((record_end now op out r)\<lparr>spawned := spawned r @ [open_scope op]\<rparr>)"

definition not_here :: "string \<Rightarrow> 'w registry \<Rightarrow> 'w registry \<times> sqe_error" where
  "not_here i r =
     (r\<lparr>reg_metrics := map_option (\<lambda>m. m\<lparr>not_found_total := Suc (not_found_total m)\<rparr>) (reg_metrics r)\<rparr>, not_found i)"

section \<open>Operations\<close>

definition reg_scope ::
  "(string \<Rightarrow> u128 option) \<Rightarrow> u32 \<Rightarrow> string \<Rightarrow> string \<Rightarrow> millis \<Rightarrow> 'w registry \<Rightarrow> 'w registry \<times> (sqe_error + 'w txn_scope)" where
  "reg_scope parse_str inc i owner now r = (case validate_id parse_str i of
     Inl e \<Rightarrow> (r, Inl e)
   | Inr _ \<Rightarrow>
     if \<not> is_local_txn_id parse_str inc i then (let (r', e) = not_here i r in (r', Inl e))
     else
       (let (st, expired) = sweep now (reg_state r);
            (st', began, result) =
              (if map_of (ended_txns st) i \<noteq> None then (st, False, Inl (ended_error i))
               else case map_of (open_txns st) i of
                 Some e \<Rightarrow>
                   if entry_owner e \<noteq> owner then (st, False, Inl (unknown i))
                   else (st\<lparr>open_txns := AList.update i (e\<lparr>last_used := now\<rparr>) (open_txns st)\<rparr>, False,
                         Inr (open_scope (entry_open e)))
               | None \<Rightarrow>
                   let s = scope_new i
                   in (st\<lparr>open_txns := AList.update i \<lparr>entry_owner = owner, entry_open = open_new s owner now, last_used = now\<rparr>
                         (open_txns st)\<rparr>, True, Inr s));
            r1 = set_open_gauge (r\<lparr>reg_state := st'\<rparr>);
            r2 = (if began then audit_event (begin_event i owner) r1 else r1)
        in (discard_all now expired r2, result)))"

definition reg_end ::
  "(string \<Rightarrow> u128 option) \<Rightarrow> u32 \<Rightarrow> string \<Rightarrow> string \<Rightarrow> millis \<Rightarrow> 'w registry \<Rightarrow> 'w registry \<times> (sqe_error + 'w ended)" where
  "reg_end parse_str inc i owner now r = (case validate_id parse_str i of
     Inl e \<Rightarrow> (r, Inr (Already e))
   | Inr _ \<Rightarrow>
     if \<not> is_local_txn_id parse_str inc i then (let (r', e) = not_here i r in (r', Inr (Already e)))
     else
       (let (st, expired) = sweep now (reg_state r);
            (st', result) = (case map_of (open_txns st) i of
               Some e \<Rightarrow>
                 if entry_owner e \<noteq> owner then (st, Inl (unknown i))
                 else (st\<lparr>open_txns := AList.delete i (open_txns st), ended_txns := AList.update i now (ended_txns st)\<rparr>,
                       Inr (EndedOpen (entry_open e)))
             | None \<Rightarrow>
                 if map_of (ended_txns st) i \<noteq> None then (st, Inr (Already (ended_error i)))
                 else (st\<lparr>ended_txns := AList.update i now (ended_txns st)\<rparr>, Inr Unused));
            r1 = set_open_gauge (r\<lparr>reg_state := st'\<rparr>)
        in (discard_all now expired r1, result)))"

definition at_end :: "string \<Rightarrow> nat \<Rightarrow> 'w registry \<Rightarrow> 'w registry \<times> (nat + unit)" where
  "at_end i f r = (case map_of (open_txns (reg_state r)) i of
     Some e \<Rightarrow>
       (r\<lparr>reg_state := (reg_state r)\<lparr>open_txns := AList.update i
          (e\<lparr>entry_open := (entry_open e)\<lparr>at_end_held := at_end_held (entry_open e) @ [f]\<rparr>\<rparr>) (open_txns (reg_state r))\<rparr>\<rparr>, Inr ())
   | None \<Rightarrow> (r, Inl f))"

definition finish :: "millis \<Rightarrow> 'w open_txn \<Rightarrow> txn_outcome \<Rightarrow> 'w registry \<Rightarrow> 'w registry" where
  "finish now op out r = record_end now op out r"

definition reopen :: "string \<Rightarrow> 'w open_txn \<Rightarrow> millis \<Rightarrow> 'w registry \<Rightarrow> 'w registry" where
  "reopen owner op now r =
     (let i = scope_id (open_scope op); st = reg_state r
      in set_open_gauge (r\<lparr>reg_state :=
           st\<lparr>ended_txns := AList.delete i (ended_txns st),
              open_txns := AList.update i \<lparr>entry_owner = owner, entry_open = op, last_used = now\<rparr> (open_txns st)\<rparr>\<rparr>))"

definition abandon :: "string \<Rightarrow> string \<Rightarrow> millis \<Rightarrow> 'w registry \<Rightarrow> 'w registry" where
  "abandon i owner now r =
     (let st = reg_state r;
          taken = (case map_of (open_txns st) i of Some e \<Rightarrow> if entry_owner e = owner then Some e else None | None \<Rightarrow> None)
      in case taken of
           None \<Rightarrow> set_open_gauge r
         | Some e \<Rightarrow>
           discard_all now [(entry_open e, SessionEnded)]
             (set_open_gauge (r\<lparr>reg_state :=
                st\<lparr>open_txns := AList.delete i (open_txns st), ended_txns := AList.update i now (ended_txns st)\<rparr>\<rparr>)))"

definition abort_all :: "millis \<Rightarrow> 'w registry \<Rightarrow> 'w registry" where
  "abort_all now r =
     (let st = reg_state r; taken = open_txns st
      in discard_all now (map (\<lambda>(i, e). (entry_open e, Shutdown)) taken)
           (set_open_gauge (r\<lparr>reg_state := st\<lparr>open_txns := [],
              ended_txns := fold (\<lambda>(i, e). AList.update i now) taken (ended_txns st)\<rparr>\<rparr>)))"

text \<open>A statement changes the scope of an open transaction through the pointer it was handed.\<close>

definition with_scope :: "string \<Rightarrow> ('w txn_scope \<Rightarrow> 'w txn_scope) \<Rightarrow> 'w registry \<Rightarrow> 'w registry" where
  "with_scope i f r = (case map_of (open_txns (reg_state r)) i of
     None \<Rightarrow> r
   | Some e \<Rightarrow> r\<lparr>reg_state := (reg_state r)\<lparr>open_txns := AList.update i
       (e\<lparr>entry_open := (entry_open e)\<lparr>open_scope := f (open_scope (entry_open e))\<rparr>\<rparr>) (open_txns (reg_state r))\<rparr>\<rparr>)"

section \<open>Runs\<close>

text \<open>The calls a coordinator makes, each with its clock reading.\<close>

datatype 'w reg_op =
    OpScope string string
  | OpEnd string string
  | OpAtEnd string nat
  | OpFinish "'w open_txn" txn_outcome
  | OpReopen string "'w open_txn"
  | OpAbandon string string
  | OpAbortAll
  | OpMutate string "'w txn_scope \<Rightarrow> 'w txn_scope"

fun reg_exec :: "(string \<Rightarrow> u128 option) \<Rightarrow> u32 \<Rightarrow> millis \<times> 'w reg_op \<Rightarrow> 'w registry \<Rightarrow> 'w registry" where
  "reg_exec parse_str inc (now, OpScope i owner) r = fst (reg_scope parse_str inc i owner now r)"
| "reg_exec parse_str inc (now, OpEnd i owner) r = fst (reg_end parse_str inc i owner now r)"
| "reg_exec parse_str inc (now, OpAtEnd i f) r = fst (at_end i f r)"
| "reg_exec parse_str inc (now, OpFinish op out) r = finish now op out r"
| "reg_exec parse_str inc (now, OpReopen owner op) r = reopen owner op now r"
| "reg_exec parse_str inc (now, OpAbandon i owner) r = abandon i owner now r"
| "reg_exec parse_str inc (now, OpAbortAll) r = abort_all now r"
| "reg_exec parse_str inc (now, OpMutate i f) r = with_scope i f r"

definition reg_run :: "(string \<Rightarrow> u128 option) \<Rightarrow> u32 \<Rightarrow> (millis \<times> 'w reg_op) list \<Rightarrow> 'w registry \<Rightarrow> 'w registry" where
  "reg_run parse_str inc tr = fold (reg_exec parse_str inc) tr"

text \<open>
  A statement never changes the id of its scope, and a transaction is put back under the user it was
  taken from.
\<close>

fun op_ok :: "'w reg_op \<Rightarrow> bool" where
  "op_ok (OpReopen owner op) = (open_owner op = owner)"
| "op_ok (OpMutate i f) = (\<forall>s. scope_id (f s) = scope_id s)"
| "op_ok _ = True"

fun reopens :: "'w reg_op \<Rightarrow> string \<Rightarrow> bool" where
  "reopens (OpReopen owner op) i = (scope_id (open_scope op) = i)"
| "reopens _ i = False"

section \<open>Well-formed registries\<close>

text \<open>
  Ids are unique, no id is both open and ended, every scope is filed under its own id and every entry
  under the user who opened it.
\<close>

definition reg_wf :: "'w reg_state \<Rightarrow> bool" where
  "reg_wf st \<longleftrightarrow> distinct (map fst (open_txns st)) \<and> distinct (map fst (ended_txns st)) \<and>
     (\<forall>i e. map_of (open_txns st) i = Some e \<longrightarrow> map_of (ended_txns st) i = None \<and>
        scope_id (open_scope (entry_open e)) = i \<and> open_owner (entry_open e) = entry_owner e)"

declare map_of_eq_Some_iff [simp del] Some_eq_map_of_iff [simp del]

lemmas alist_simps = AList.update_conv' AList.delete_conv' distinct_update distinct_delete

lemma map_of_filter_value:
  "distinct (map fst xs) \<Longrightarrow>
     map_of (filter (\<lambda>(i, v). P v) xs) i = (case map_of xs i of None \<Rightarrow> None | Some v \<Rightarrow> if P v then Some v else None)"
  by (induction xs) (auto split: option.splits dest: map_of_SomeD intro: rev_image_eqI)

lemma take_expired_spec:
  assumes "take_expired now xs st = (st', taken)"
  shows "map_of (open_txns st') i = (if i \<in> fst ` set xs then None else map_of (open_txns st) i)"
    and "map_of (ended_txns st') i =
      (if i \<in> fst ` set xs \<and> map_of (open_txns st) i \<noteq> None then Some now else map_of (ended_txns st) i)"
    and "distinct (map fst (open_txns st)) \<Longrightarrow> distinct (map fst (open_txns st'))"
    and "distinct (map fst (ended_txns st)) \<Longrightarrow> distinct (map fst (ended_txns st'))"
  using assms
proof (induction xs arbitrary: st st' taken)
  case (Cons x xs)
  obtain j out where x: "x = (j, out)" by fastforce
  {
    case 1
    then show ?case using Cons.IH(1) by (auto simp: x alist_simps Let_def split: option.splits prod.splits)
  next
    case 2
    then show ?case using Cons.IH(2) by (auto simp: x alist_simps Let_def split: option.splits prod.splits)
  next
    case 3
    then show ?case
      by (auto simp: x Let_def split: option.splits prod.splits
          dest: Cons.IH(3) [rotated] simp: AList.distinct_delete)
  next
    case 4
    then show ?case
      by (auto simp: x Let_def split: option.splits prod.splits
          dest: Cons.IH(4) [rotated] simp: distinct_update)
  }
qed simp_all

lemma expired_ids:
  assumes "distinct (map fst xs)"
  shows "i \<in> fst ` set (List.map_filter (\<lambda>(i, e). map_option (Pair i) (f e)) xs) \<longleftrightarrow>
    (\<exists>e. map_of xs i = Some e \<and> f e \<noteq> None)"
  using assms by (force simp: List.map_filter_def image_iff map_of_eq_Some_iff)

text \<open>The sweep: what stays open, and what is ended.\<close>

lemma sweep_spec:
  assumes "reg_wf st" "sweep now st = (st', taken)"
  shows "map_of (open_txns st') i = (case map_of (open_txns st) i of
        None \<Rightarrow> None | Some e \<Rightarrow> if expiry now e = None then Some e else None)"
    and "map_of (ended_txns st') i = (case map_of (open_txns st) i of
        Some e \<Rightarrow> if expiry now e = None then None else Some now
      | None \<Rightarrow> (case map_of (ended_txns st) i of
          None \<Rightarrow> None | Some at \<Rightarrow> if now - at < ENDED_RETENTION then Some at else None))"
    and "reg_wf st'"
proof -
  let ?st = "st\<lparr>ended_txns := filter (\<lambda>(i, at). now - at < ENDED_RETENTION) (ended_txns st)\<rparr>"
  let ?xs = "List.map_filter (\<lambda>(i, e). map_option (Pair i) (expiry now e)) (open_txns st)"
  from assms(2) have t: "take_expired now ?xs ?st = (st', taken)" by (simp add: sweep_def)
  from assms(1) have d: "distinct (map fst (open_txns st))" "distinct (map fst (ended_txns st))"
    by (simp_all add: reg_wf_def)
  have kept: "map_of (filter (\<lambda>(i, at). now - at < ENDED_RETENTION) (ended_txns st)) i =
      (case map_of (ended_txns st) i of None \<Rightarrow> None | Some at \<Rightarrow> if now - at < ENDED_RETENTION then Some at else None)" for i
    by (rule map_of_filter_value [OF d(2)])
  note spec = take_expired_spec [OF t]
  show *: "map_of (open_txns st') i = (case map_of (open_txns st) i of
      None \<Rightarrow> None | Some e \<Rightarrow> if expiry now e = None then Some e else None)" for i
    using spec(1) [of i] d(1) by (auto simp: expired_ids split: option.split)
  show e: "map_of (ended_txns st') i = (case map_of (open_txns st) i of
      Some e \<Rightarrow> if expiry now e = None then None else Some now
    | None \<Rightarrow> (case map_of (ended_txns st) i of
        None \<Rightarrow> None | Some at \<Rightarrow> if now - at < ENDED_RETENTION then Some at else None))" for i
    using spec(2) [of i] assms(1) d(1) by (auto simp: expired_ids kept reg_wf_def split: option.split)
  show "reg_wf st'" using spec(3,4) d assms(1) by (auto simp: reg_wf_def * e distinct_map_filter split: option.splits if_splits)
qed

section \<open>What each operation does to the state\<close>

lemma recording_state [simp]:
  "reg_state (set_open_gauge r) = reg_state r" "reg_state (audit_event ev r) = reg_state r"
  "reg_state (record_end now op out r) = reg_state r" "reg_state (discard_all now xs r) = reg_state r"
  "reg_state (fst (not_here i r)) = reg_state r"
proof -
  show "reg_state (set_open_gauge r) = reg_state r" "reg_state (fst (not_here i r)) = reg_state r"
    by (simp_all add: set_open_gauge_def not_here_def)
  show a: "reg_state (audit_event ev r) = reg_state r" for ev and r :: "'w registry"
    by (simp add: audit_event_def Let_def)
  show e: "reg_state (record_end now op out r) = reg_state r" for op out and r :: "'w registry"
    by (simp add: record_end_def a Let_def)
  show "reg_state (discard_all now xs r) = reg_state r"
    by (induction xs arbitrary: r rule: list.induct) (auto simp: e)
qed

definition accepts :: "(string \<Rightarrow> u128 option) \<Rightarrow> u32 \<Rightarrow> string \<Rightarrow> bool" where
  "accepts parse_str inc i \<longleftrightarrow> parse_str i \<noteq> None \<and> is_local_txn_id parse_str inc i"

lemma reg_scope_cases:
  assumes "reg_scope parse_str inc i owner now r = (r', res)" "sweep now (reg_state r) = (st, taken)"
  obtains (refused) e where "\<not> accepts parse_str inc i" "res = Inl e" "reg_state r' = reg_state r"
  | (ended) "accepts parse_str inc i" "map_of (ended_txns st) i \<noteq> None" "res = Inl (ended_error i)" "reg_state r' = st"
  | (foreign) e where "accepts parse_str inc i" "map_of (ended_txns st) i = None" "map_of (open_txns st) i = Some e" "entry_owner e \<noteq> owner"
      "res = Inl (unknown i)" "reg_state r' = st"
  | (own) e where "accepts parse_str inc i" "map_of (ended_txns st) i = None" "map_of (open_txns st) i = Some e" "entry_owner e = owner"
      "res = Inr (open_scope (entry_open e))"
      "reg_state r' = st\<lparr>open_txns := AList.update i (e\<lparr>last_used := now\<rparr>) (open_txns st)\<rparr>"
  | (fresh) "accepts parse_str inc i" "map_of (ended_txns st) i = None" "map_of (open_txns st) i = None" "res = Inr (scope_new i)"
      "reg_state r' = st\<lparr>open_txns := AList.update i
         \<lparr>entry_owner = owner, entry_open = open_new (scope_new i) owner now, last_used = now\<rparr> (open_txns st)\<rparr>"
proof (cases "accepts parse_str inc i")
  case False
  with assms show ?thesis
    by (cases "parse_str i") (auto simp: accepts_def reg_scope_def validate_id_def not_here_def is_local_txn_id_def intro!: refused)
next
  case True
  then have v: "validate_id parse_str i = Inr ()" "is_local_txn_id parse_str inc i"
    by (auto simp: accepts_def validate_id_def)
  show ?thesis
  proof (cases "map_of (ended_txns st) i")
    case (Some at)
    with assms v True show ?thesis by (intro ended) (auto simp: reg_scope_def)
  next
    case None
    show ?thesis
    proof (cases "map_of (open_txns st) i")
      case o: None
      with assms v True None show ?thesis by (intro fresh) (auto simp: reg_scope_def Let_def)
    next
      case (Some e)
      with assms v True None show ?thesis
        by (cases "entry_owner e = owner") (auto simp: reg_scope_def intro: own foreign)
    qed
  qed
qed

lemma reg_end_cases:
  assumes "reg_end parse_str inc i owner now r = (r', res)" "sweep now (reg_state r) = (st, taken)"
  obtains (refused) e where "\<not> accepts parse_str inc i" "res = Inr (Already e)" "reg_state r' = reg_state r"
  | (foreign) e where "accepts parse_str inc i" "map_of (open_txns st) i = Some e" "entry_owner e \<noteq> owner"
      "res = Inl (unknown i)" "reg_state r' = st"
  | (own) e where "accepts parse_str inc i" "map_of (open_txns st) i = Some e" "entry_owner e = owner" "res = Inr (EndedOpen (entry_open e))"
      "reg_state r' = st\<lparr>open_txns := AList.delete i (open_txns st), ended_txns := AList.update i now (ended_txns st)\<rparr>"
  | (ended) "accepts parse_str inc i" "map_of (open_txns st) i = None" "map_of (ended_txns st) i \<noteq> None"
      "res = Inr (Already (ended_error i))" "reg_state r' = st"
  | (unused) "accepts parse_str inc i" "map_of (open_txns st) i = None" "map_of (ended_txns st) i = None" "res = Inr Unused"
      "reg_state r' = st\<lparr>ended_txns := AList.update i now (ended_txns st)\<rparr>"
proof (cases "accepts parse_str inc i")
  case False
  with assms show ?thesis
    by (cases "parse_str i") (auto simp: accepts_def reg_end_def validate_id_def not_here_def is_local_txn_id_def intro!: refused)
next
  case True
  then have v: "validate_id parse_str i = Inr ()" "is_local_txn_id parse_str inc i"
    by (auto simp: accepts_def validate_id_def)
  show ?thesis
  proof (cases "map_of (open_txns st) i")
    case None
    with assms v True show ?thesis
      by (cases "map_of (ended_txns st) i") (auto simp: reg_end_def intro: ended unused)
  next
    case (Some e)
    with assms v True show ?thesis
      by (cases "entry_owner e = owner") (auto simp: reg_end_def intro: own foreign)
  qed
qed

lemma ended_fold:
  "map_of (fold (\<lambda>(i, e). AList.update i now) xs al) i = (if i \<in> fst ` set xs then Some now else map_of al i)"
  "distinct (map fst al) \<Longrightarrow> distinct (map fst (fold (\<lambda>(i, e). AList.update i now) xs al))"
  by (induction xs arbitrary: al) (auto simp: alist_simps)

lemma reg_wf_update:
  assumes "reg_wf st" "map_of (ended_txns st) i = None" "scope_id (open_scope (entry_open e)) = i"
    "open_owner (entry_open e) = entry_owner e"
  shows "reg_wf (st\<lparr>open_txns := AList.update i e (open_txns st)\<rparr>)"
  using assms by (auto simp: reg_wf_def alist_simps)

lemma reg_wf_end:
  assumes "reg_wf st"
  shows "reg_wf (st\<lparr>open_txns := AList.delete i (open_txns st), ended_txns := AList.update i now (ended_txns st)\<rparr>)"
  using assms by (auto simp: reg_wf_def alist_simps)

lemma reg_wf_entry:
  "reg_wf st \<Longrightarrow> map_of (open_txns st) i = Some e \<Longrightarrow> map_of (ended_txns st) i = None \<and>
     scope_id (open_scope (entry_open e)) = i \<and> open_owner (entry_open e) = entry_owner e"
  by (simp add: reg_wf_def)

lemma reg_exec_wf:
  assumes wf: "reg_wf (reg_state r)" and ok: "op_ok op"
  shows "reg_wf (reg_state (reg_exec parse_str inc (now, op) r))"
proof -
  obtain st taken where sw: "sweep now (reg_state r) = (st, taken)" by fastforce
  note wf' = sweep_spec(3) [OF wf sw]
  show ?thesis
  proof (cases op)
    case (OpScope i owner)
    obtain r' res where run: "reg_scope parse_str inc i owner now r = (r', res)" by fastforce
    from run sw have "reg_wf (reg_state r')"
      by (cases rule: reg_scope_cases) (use wf wf' reg_wf_entry [OF wf'] in \<open>auto intro!: reg_wf_update simp: open_new_def scope_new_def\<close>)
    then show ?thesis by (simp add: OpScope run)
  next
    case (OpEnd i owner)
    obtain r' res where run: "reg_end parse_str inc i owner now r = (r', res)" by fastforce
    from run sw have "reg_wf (reg_state r')"
      by (cases rule: reg_end_cases) (use wf wf' reg_wf_end in \<open>auto simp: reg_wf_def alist_simps\<close>)
    then show ?thesis by (simp add: OpEnd run)
  next
    case (OpReopen owner op')
    then show ?thesis using wf ok by (auto simp: reopen_def Let_def reg_wf_def alist_simps)
  next
    case (OpAbandon i owner)
    then show ?thesis using wf reg_wf_end by (auto simp: abandon_def Let_def split: option.splits)
  next
    case OpAbortAll
    then show ?thesis using wf by (auto simp: abort_all_def Let_def reg_wf_def ended_fold)
  qed (use wf ok in \<open>auto simp: at_end_def finish_def with_scope_def split: option.splits dest: reg_wf_entry intro!: reg_wf_update\<close>)
qed

text \<open>The gauge of open transactions.\<close>

definition gauge_ok :: "'w registry \<Rightarrow> bool" where
  "gauge_ok r \<longleftrightarrow> (\<forall>m. reg_metrics r = Some m \<longrightarrow> transactions_open m = length (open_txns (reg_state r)))"

lemma gauge_spawned [simp]: "gauge_ok (r\<lparr>spawned := y\<rparr>) = gauge_ok r"
  by (simp add: gauge_ok_def)

lemma gauge_record_end [simp]: "gauge_ok (record_end now op out r) = gauge_ok r"
  by (auto simp: record_end_def Let_def gauge_ok_def audit_event_def)

lemma gauge_recording [simp]:
  "gauge_ok (set_open_gauge r)" "gauge_ok (audit_event ev r) = gauge_ok r"
  "gauge_ok (fst (not_here i r)) = gauge_ok r" "gauge_ok (discard_all now xs r) = gauge_ok r"
proof -
  show "gauge_ok (discard_all now xs r) = gauge_ok r"
    by (induction now xs r rule: discard_all.induct) simp_all
qed (auto simp: gauge_ok_def set_open_gauge_def not_here_def audit_event_def Let_def)

lemma length_update_existing: "map_of xs i \<noteq> None \<Longrightarrow> length (AList.update i v xs) = length xs"
  by (induction xs) auto

lemma reg_exec_gauge:
  assumes "gauge_ok r"
  shows "gauge_ok (reg_exec parse_str inc (now, op) r)"
proof (cases op)
  case (OpScope i owner)
  with assms show ?thesis
    by (auto simp: reg_scope_def Let_def split: sum.splits prod.splits option.splits)
       (auto simp: not_here_def gauge_ok_def)
next
  case (OpEnd i owner)
  with assms show ?thesis
    by (auto simp: reg_end_def Let_def split: sum.splits prod.splits option.splits)
       (auto simp: not_here_def gauge_ok_def)
next
  case (OpAtEnd i f)
  with assms show ?thesis by (auto simp: at_end_def gauge_ok_def length_update_existing split: option.splits)
next
  case (OpMutate i f)
  with assms show ?thesis by (auto simp: with_scope_def gauge_ok_def length_update_existing split: option.splits)
qed (use assms in \<open>auto simp: finish_def reopen_def abandon_def abort_all_def Let_def split: option.splits\<close>)

lemma reg_run_wf:
  assumes "reg_wf (reg_state r)" "gauge_ok r" "\<forall>(now, op)\<in>set tr. op_ok op"
  shows "reg_wf (reg_state (reg_run parse_str inc tr r)) \<and> gauge_ok (reg_run parse_str inc tr r)"
  using assms
proof (induction tr arbitrary: r)
  case (Cons x tr)
  obtain now op where x: "x = (now, op)" by fastforce
  with Cons.prems have "reg_wf (reg_state (reg_exec parse_str inc (now, op) r))" "gauge_ok (reg_exec parse_str inc (now, op) r)"
    using reg_exec_wf [of r op] reg_exec_gauge [of r] by auto
  with Cons.IH Cons.prems(3) show ?case by (simp add: reg_run_def x)
qed (simp add: reg_run_def)

text \<open>An ended id stays ended.\<close>

lemma reg_exec_ended:
  assumes wf: "reg_wf (reg_state r)" and at: "map_of (ended_txns (reg_state r)) i = Some at"
    and young: "now - at < ENDED_RETENTION" and "\<not> reopens op i"
  shows "map_of (ended_txns (reg_state (reg_exec parse_str inc (now, op) r))) i = Some at"
proof -
  obtain st taken where sw: "sweep now (reg_state r) = (st, taken)" by fastforce
  have closed: "map_of (open_txns (reg_state r)) i = None"
    using wf at by (cases "map_of (open_txns (reg_state r)) i") (auto simp: reg_wf_def)
  then have st: "map_of (ended_txns st) i = Some at" "map_of (open_txns st) i = None"
    using sweep_spec(1,2) [OF wf sw, of i] at young by simp_all
  show ?thesis
  proof (cases op)
    case (OpScope j owner)
    obtain r' res where run: "reg_scope parse_str inc j owner now r = (r', res)" by fastforce
    from run sw have "map_of (ended_txns (reg_state r')) i = Some at"
      by (cases rule: reg_scope_cases) (use st at in auto)
    then show ?thesis by (simp add: OpScope run)
  next
    case (OpEnd j owner)
    obtain r' res where run: "reg_end parse_str inc j owner now r = (r', res)" by fastforce
    from run sw have "map_of (ended_txns (reg_state r')) i = Some at"
      by (cases rule: reg_end_cases) (use st at in \<open>auto simp: alist_simps\<close>)
    then show ?thesis by (simp add: OpEnd run)
  next
    case OpAbortAll
    have "i \<notin> fst ` set (open_txns (reg_state r))" using closed by (simp add: map_of_eq_None_iff)
    then show ?thesis using at OpAbortAll by (simp add: abort_all_def Let_def ended_fold)
  qed (use at closed assms(4) in \<open>auto simp: at_end_def finish_def reopen_def abandon_def with_scope_def Let_def alist_simps split: option.splits\<close>)
qed

lemma reg_run_ended:
  assumes "reg_wf (reg_state r)" "map_of (ended_txns (reg_state r)) i = Some at"
    "\<forall>(now, op)\<in>set tr. op_ok op \<and> \<not> reopens op i \<and> now - at < ENDED_RETENTION"
  shows "reg_wf (reg_state (reg_run parse_str inc tr r)) \<and>
    map_of (ended_txns (reg_state (reg_run parse_str inc tr r))) i = Some at"
  using assms
proof (induction tr arbitrary: r)
  case (Cons x tr)
  obtain now op where x: "x = (now, op)" by fastforce
  from Cons.prems reg_exec_wf [of r op parse_str inc now] reg_exec_ended [of r i at now op parse_str inc] Cons.IH
  show ?case by (simp add: reg_run_def x)
qed (simp add: reg_run_def)

text \<open>Who gets a scope.\<close>

lemma reg_scope_handed_out:
  assumes "reg_wf (reg_state r)" "reg_scope parse_str inc i owner now r = (r', Inr s)"
  obtains (own) e where "map_of (open_txns (reg_state r)) i = Some e" "expiry now e = None" "entry_owner e = owner"
      "s = open_scope (entry_open e)" "map_of (open_txns (reg_state r')) i = Some (e\<lparr>last_used := now\<rparr>)"
  | (fresh) "map_of (open_txns (reg_state r)) i = None" "s = scope_new i"
      "map_of (open_txns (reg_state r')) i =
         Some \<lparr>entry_owner = owner, entry_open = open_new (scope_new i) owner now, last_used = now\<rparr>"
proof -
  obtain st taken where sw: "sweep now (reg_state r) = (st, taken)" by fastforce
  note spec = sweep_spec(1,2) [OF assms(1) sw, of i]
  from assms(2) sw show thesis
  proof (cases rule: reg_scope_cases)
    case o: (own e)
    then show ?thesis using spec by (intro own [of e]) (auto simp: alist_simps split: option.splits if_splits)
  next
    case f: fresh
    then show ?thesis using spec by (intro fresh) (auto simp: alist_simps split: option.splits if_splits)
  qed simp_all
qed

lemma foreign_scope_refused:
  assumes "reg_wf (reg_state r)" "map_of (open_txns (reg_state r)) i = Some e" "entry_owner e \<noteq> other"
  shows "\<exists>err. snd (reg_scope parse_str inc i other now r) = Inl err"
proof -
  obtain r' res where run: "reg_scope parse_str inc i other now r = (r', res)" by fastforce
  have "\<exists>err. res = Inl err"
  proof (cases res)
    case (Inr s)
    from assms(1) run [unfolded Inr] show ?thesis
      by (cases rule: reg_scope_handed_out) (use assms(2,3) in auto)
  qed simp
  then show ?thesis by (simp add: run)
qed

section \<open>A small registry\<close>

definition example_parse :: "string \<Rightarrow> u128 option" where
  "example_parse i = (if i = ''a'' \<or> i = ''b'' then Some (with_incarnation 1 7) else None)"

lemma example_accepts: "accepts example_parse 7 ''a''" "accepts example_parse 7 ''b''"
  by (simp_all add: accepts_def example_parse_def is_local_txn_id_def)

definition example_registry :: "unit registry" where
  "example_registry = registry_new (Some \<lparr>transactions_open = 0, ended_total = [], not_found_total = 0\<rparr>)"

definition example_trace :: "(millis \<times> unit reg_op) list" where
  "example_trace = [(0, OpScope ''a'' ''alice''), (10, OpAtEnd ''a'' 1), (20, OpEnd ''a'' ''alice''), (30, OpScope ''b'' ''bob'')]"

lemmas example_simps = example_trace_def example_registry_def registry_new_def reg_run_def reg_scope_def reg_end_def at_end_def
  validate_id_def example_parse_def is_local_txn_id_def sweep_def map_filter_simps expiry_def open_new_def
  MAX_LIFETIME_def IDLE_TIMEOUT_def ENDED_RETENTION_def

lemma example_run:
  "map fst (open_txns (reg_state (reg_run example_parse 7 example_trace example_registry))) = [''b'']"
  "map fst (ended_txns (reg_state (reg_run example_parse 7 example_trace example_registry))) = [''a'']"
  by (simp_all add: example_simps Let_def)

definition example_ended :: "unit registry" where
  "example_ended = example_registry\<lparr>reg_state := \<lparr>open_txns = [], ended_txns = [(''a'', 5)]\<rparr>\<rparr>"

lemma example_begin_b:
  "reg_scope example_parse 7 ''b'' ''bob'' 300 example_ended =
     (fst (reg_scope example_parse 7 ''b'' ''bob'' 300 example_ended), Inr (scope_new ''b''))"
proof -
  have "snd (reg_scope example_parse 7 ''b'' ''bob'' 300 example_ended) = Inr (scope_new ''b'')"
    using example_accepts(2)
    by (simp add: accepts_def reg_scope_def validate_id_def example_ended_def sweep_def ENDED_RETENTION_def Let_def map_filter_simps
        split: option.splits)
  then show ?thesis by (metis prod.collapse)
qed


section \<open>Properties\<close>

text \<open>
  C5: in every run of the registry, whatever is called in whatever order, every open transaction is filed
  once, under its own id and the user who opened it; no id is both open and ended; and the gauge shows
  the number of open transactions.
\<close>

theorem registry_well_formed:
  assumes "\<forall>(now, op)\<in>set tr. op_ok op" "gauge_ok (registry_new m)"
    and "r = registry_new m \<or> r = with_audit (registry_new m)"
  shows "reg_wf (reg_state (reg_run parse_str inc tr r)) \<and> gauge_ok (reg_run parse_str inc tr r)"
proof (rule reg_run_wf [OF _ _ assms(1)])
  show "reg_wf (reg_state r)" "gauge_ok r"
    using assms(2,3) by (auto simp: registry_new_def with_audit_def reg_wf_def gauge_ok_def)
qed

theorem registry_well_formed_witness:
  "list_all (op_ok \<circ> snd) example_trace \<and> gauge_ok example_registry \<and>
   reg_wf (reg_state (reg_run example_parse 7 example_trace example_registry)) \<and>
   map fst (open_txns (reg_state (reg_run example_parse 7 example_trace example_registry))) = [''b''] \<and>
   map fst (ended_txns (reg_state (reg_run example_parse 7 example_trace example_registry))) = [''a'']"
proof -
  have ok: "\<forall>(now, op)\<in>set example_trace. op_ok op" by (simp add: example_trace_def)
  have g: "gauge_ok example_registry" by (simp add: example_registry_def gauge_ok_def registry_new_def)
  note wf = registry_well_formed [OF ok g [unfolded example_registry_def], of example_registry example_parse 7, folded example_registry_def]
  moreover have "list_all (op_ok \<circ> snd) example_trace" using ok by (auto simp: list_all_iff)
  ultimately show ?thesis using g example_run by simp
qed

text \<open>
  C6: an id that has ended is refused for the whole retention time: whatever else happens, unless its
  COMMIT failed and put the transaction back, every statement and every COMMIT under it is answered with a
  transaction conflict, by whichever user.
\<close>

theorem ended_id_refused:
  assumes "reg_wf (reg_state r)" "map_of (ended_txns (reg_state r)) i = Some at" "accepts parse_str inc i"
    and "\<forall>(t, op)\<in>set tr. op_ok op \<and> \<not> reopens op i \<and> t - at < ENDED_RETENTION" "now - at < ENDED_RETENTION"
  shows "snd (reg_scope parse_str inc i owner now (reg_run parse_str inc tr r)) = Inl (ended_error i) \<and>
    snd (reg_end parse_str inc i owner now (reg_run parse_str inc tr r)) = Inr (Already (ended_error i)) \<and>
    error_code (ended_error i) = TransactionConflict"
proof -
  let ?r = "reg_run parse_str inc tr r"
  from reg_run_ended [OF assms(1,2,4)] have wf: "reg_wf (reg_state ?r)" and at: "map_of (ended_txns (reg_state ?r)) i = Some at"
    by simp_all
  obtain st taken where sw: "sweep now (reg_state ?r) = (st, taken)" by fastforce
  have "map_of (open_txns (reg_state ?r)) i = None"
    using wf at by (cases "map_of (open_txns (reg_state ?r)) i") (auto simp: reg_wf_def)
  then have st: "map_of (ended_txns st) i = Some at" "map_of (open_txns st) i = None"
    using sweep_spec(1,2) [OF wf sw, of i] at assms(5) by simp_all
  obtain r1 res1 where s: "reg_scope parse_str inc i owner now ?r = (r1, res1)" by fastforce
  from s sw have "res1 = Inl (ended_error i)" by (cases rule: reg_scope_cases) (use st assms(3) in auto)
  moreover obtain r2 res2 where e: "reg_end parse_str inc i owner now ?r = (r2, res2)" by fastforce
  from e sw have "res2 = Inr (Already (ended_error i))" by (cases rule: reg_end_cases) (use st assms(3) in auto)
  ultimately show ?thesis using s e by (simp add: ended_error_def with_code_def)
qed

theorem ended_id_refused_witness:
  "snd (reg_scope example_parse 7 ''a'' ''alice'' 200
      (reg_run example_parse 7 [(100, OpScope ''b'' ''bob'')] example_ended)) = Inl (ended_error ''a'') \<and>
   error_code (ended_error ''a'') = TransactionConflict"
proof -
  have "reg_wf (reg_state example_ended)" "map_of (ended_txns (reg_state example_ended)) ''a'' = Some 5"
    by (simp_all add: example_ended_def reg_wf_def)
  from ended_id_refused [OF this example_accepts(1), of "[(100, OpScope ''b'' ''bob'')]" 200 "''alice''"]
  show ?thesis by (simp add: ENDED_RETENTION_def)
qed

text \<open>
  C7: a scope is handed out only to the user who opened the transaction and only while it is young
  enough: the transaction was opened less than the longest lifetime ago, its use is noted, a scope that
  was not open before starts empty, and no other user is given it, now or later.
\<close>

theorem scope_live_and_owned:
  assumes "reg_wf (reg_state r)" "reg_scope parse_str inc i owner now r = (r', Inr s)"
  shows "\<exists>e. map_of (open_txns (reg_state r')) i = Some e \<and> entry_owner e = owner \<and> open_scope (entry_open e) = s \<and>
      scope_id s = i \<and> last_used e = now \<and> now - opened (entry_open e) < MAX_LIFETIME \<and>
      (case map_of (open_txns (reg_state r)) i of
         None \<Rightarrow> s = scope_new i | Some e0 \<Rightarrow> e = e0\<lparr>last_used := now\<rparr> \<and> now - last_used e0 < IDLE_TIMEOUT) \<and>
      (\<forall>other later. other \<noteq> owner \<longrightarrow> (\<exists>err. snd (reg_scope parse_str inc i other later r') = Inl err))"
proof -
  have "reg_wf (reg_state r')" using reg_exec_wf [of r "OpScope i owner" parse_str inc now] assms by simp
  then have others_refused: "\<exists>err. snd (reg_scope parse_str inc i other later r') = Inl err"
    if "map_of (open_txns (reg_state r')) i = Some e" "entry_owner e \<noteq> other" for e other later
    by (rule foreign_scope_refused [OF _ that])
  from assms(1,2) show ?thesis
  proof (cases rule: reg_scope_handed_out)
    case (own e)
    with others_refused reg_wf_entry [OF assms(1) own(1)] show ?thesis
      by (intro exI [of _ "e\<lparr>last_used := now\<rparr>"]) (auto simp: expiry_def split: if_splits)
  next
    case fresh
    with others_refused show ?thesis
      by (intro exI [of _ "\<lparr>entry_owner = owner, entry_open = open_new (scope_new i) owner now, last_used = now\<rparr>"])
         (auto simp: open_new_def scope_new_def MAX_LIFETIME_def)
  qed
qed

theorem scope_live_and_owned_witness:
  "\<exists>r' s e. reg_scope example_parse 7 ''b'' ''bob'' 300 example_ended = (r', Inr s) \<and>
     map_of (open_txns (reg_state r')) ''b'' = Some e \<and> entry_owner e = ''bob'' \<and> s = scope_new ''b'' \<and>
     (\<exists>err. snd (reg_scope example_parse 7 ''b'' ''alice'' 400 r') = Inl err)"
proof -
  have wf: "reg_wf (reg_state example_ended)" by (simp add: example_ended_def reg_wf_def)
  from scope_live_and_owned [OF wf example_begin_b] show ?thesis by (subst example_begin_b) (auto simp: example_ended_def)
qed



end
