(* ===== verification/Scan_Morsel.thy ===== *)
theory Scan_Morsel
  imports Sqe_Error
begin

text \<open>
  Scan morsels (\<open>sqe-planner/src/scan_morsel.rs\<close>): the sub-file units a distributed scan is cut into.
  A data file is cut either along its row groups (\<open>group_row_groups_into_morsels\<close>) or, without
  reading its footer, into byte ranges (\<open>plan_file_byte_morsels\<close>). Sizes stay \<open>u64\<close>: \<open>start + chunk\<close>
  wraps in the release profile, and for a file within one chunk of \<open>2^64\<close> bytes the loop then never
  ends. The loop is therefore a partial function into \<open>option\<close>, and the lemmas prove that it returns
  for every smaller file and that what it returns tiles the file.
\<close>

definition u64_saturating_add :: "u64 \<Rightarrow> u64 \<Rightarrow> u64" where
  "u64_saturating_add a b = (if unat a + unat b \<le> usize_MAX then a + b else - 1)"

definition u64_saturating_mul :: "u64 \<Rightarrow> u64 \<Rightarrow> u64" where
  "u64_saturating_mul a b = (if unat a * unat b \<le> usize_MAX then a * b else - 1)"

definition SCAN_TASK_VERSION_V1 :: u32 where "SCAN_TASK_VERSION_V1 = 1"
definition SCAN_TASK_VERSION_V2 :: u32 where "SCAN_TASK_VERSION_V2 = 2"
definition SCAN_TASK_VERSION_V3 :: u32 where "SCAN_TASK_VERSION_V3 = 3"
definition SCAN_TASK_VERSION_V4 :: u32 where "SCAN_TASK_VERSION_V4 = 4"
definition SCAN_TASK_VERSION_V5 :: u32 where "SCAN_TASK_VERSION_V5 = 5"
definition SCAN_TASK_VERSION_V6 :: u32 where "SCAN_TASK_VERSION_V6 = 6"

definition SCAN_TASK_VERSION_CURRENT :: u32 where
  "SCAN_TASK_VERSION_CURRENT = SCAN_TASK_VERSION_V6"

definition DEFAULT_MORSEL_TARGET_BYTES :: u64 where
  "DEFAULT_MORSEL_TARGET_BYTES = 128 * 1024 * 1024"

definition DEFAULT_MORSEL_MAX_BYTES :: u64 where
  "DEFAULT_MORSEL_MAX_BYTES = 256 * 1024 * 1024"

lemmas scan_version_defs = SCAN_TASK_VERSION_V1_def SCAN_TASK_VERSION_V2_def SCAN_TASK_VERSION_V3_def
  SCAN_TASK_VERSION_V4_def SCAN_TASK_VERSION_V5_def SCAN_TASK_VERSION_V6_def SCAN_TASK_VERSION_CURRENT_def

text \<open>The fields carry the prefix \<open>m_\<close>, since a scan task has fields of the same names.\<close>

record scan_morsel =
  m_morsel_id :: string
  m_file_path :: string
  m_file_size_bytes :: u64
  m_row_group_start :: u32
  m_row_group_end :: "u32 option"
  m_start_byte :: "u64 option"
  m_end_byte :: "u64 option"
  m_compressed_bytes_estimate :: u64
  m_decoded_bytes_estimate :: u64

record row_group_slice =
  rg_index :: u32
  rg_compressed_bytes :: u64
  rg_offset :: "u64 option"

section \<open>Morsels along row groups\<close>

text \<open>The inner loop: how far the morsel that holds \<open>compressed\<close> bytes grows from group \<open>i\<close> on.\<close>

function grow_morsel :: "row_group_slice list \<Rightarrow> u64 \<Rightarrow> u64 \<Rightarrow> usize \<Rightarrow> u64 \<Rightarrow> u64 \<times> usize" where
  "grow_morsel row_groups target max_b i compressed =
     (if i < length row_groups then
        let nxt = rg_compressed_bytes (row_groups ! i) in
        if target \<le> compressed then (compressed, i)
        else if max_b < u64_saturating_add compressed nxt then (compressed, i)
        else grow_morsel row_groups target max_b (i + 1) (compressed + nxt)
      else (compressed, i))"
  by pat_completeness auto
termination by (relation "measure (\<lambda>(row_groups, target, max_b, i, compressed). length row_groups - i)") auto

declare grow_morsel.simps [simp del]

lemma grow_morsel_ge: "grow_morsel row_groups target max_b i compressed = (c, j) \<Longrightarrow> i \<le> j"
proof (induction row_groups target max_b i compressed rule: grow_morsel.induct)
  case (1 row_groups target max_b i compressed)
  show ?case using 1(2) by (subst (asm) grow_morsel.simps) (auto simp: Let_def split: if_splits dest!: 1(1))
qed

definition row_group_morsel ::
    "string \<Rightarrow> u64 \<Rightarrow> row_group_slice list \<Rightarrow> u64 \<Rightarrow> usize \<Rightarrow> usize \<Rightarrow> u64 \<Rightarrow> scan_morsel" where
  "row_group_morsel path sz row_groups decoded_factor start i compressed =
     (let rg_start = rg_index (row_groups ! start);
          rg_end = rg_index (row_groups ! (i - 1)) + 1;
          end_byte = (case rg_offset (row_groups ! (i - 1)) of
              Some off \<Rightarrow> Some (u64_saturating_add off (rg_compressed_bytes (row_groups ! (i - 1))))
            | None \<Rightarrow> None)
      in \<lparr>m_morsel_id = path @ ''#'' @ show_nat (unat rg_start) @ ''-'' @ show_nat (unat rg_end),
          m_file_path = path, m_file_size_bytes = sz, m_row_group_start = rg_start,
          m_row_group_end = Some rg_end, m_start_byte = rg_offset (row_groups ! start),
          m_end_byte = end_byte, m_compressed_bytes_estimate = compressed,
          m_decoded_bytes_estimate = u64_saturating_mul compressed decoded_factor\<rparr>)"

function group_loop ::
    "string \<Rightarrow> u64 \<Rightarrow> row_group_slice list \<Rightarrow> u64 \<Rightarrow> u64 \<Rightarrow> u64 \<Rightarrow> usize \<Rightarrow> scan_morsel list" where
  "group_loop path sz row_groups target max_b decoded_factor i =
     (if i < length row_groups then
        case grow_morsel row_groups target max_b (i + 1) (rg_compressed_bytes (row_groups ! i)) of
          (compressed, j) \<Rightarrow> row_group_morsel path sz row_groups decoded_factor i j compressed #
            group_loop path sz row_groups target max_b decoded_factor j
      else [])"
  by pat_completeness auto
termination
  by (relation "measure (\<lambda>(path, sz, row_groups, target, max_b, decoded_factor, i). length row_groups - i)")
    (auto dest!: grow_morsel_ge [OF sym])

declare group_loop.simps [simp del]

definition group_row_groups_into_morsels ::
    "string \<Rightarrow> u64 \<Rightarrow> row_group_slice list \<Rightarrow> u64 \<Rightarrow> u64 \<Rightarrow> u64 \<Rightarrow> scan_morsel list" where
  "group_row_groups_into_morsels path sz row_groups target_bytes max_bytes decoded_factor =
     (if row_groups = [] then
        [\<lparr>m_morsel_id = path @ ''#0'', m_file_path = path, m_file_size_bytes = sz, m_row_group_start = 0,
          m_row_group_end = None, m_start_byte = None, m_end_byte = None,
          m_compressed_bytes_estimate = sz,
          m_decoded_bytes_estimate = u64_saturating_mul sz decoded_factor\<rparr>]
      else let target = max target_bytes 1; max_b = max max_bytes target
        in group_loop path sz row_groups target max_b decoded_factor 0)"

section \<open>Morsels by byte range\<close>

definition whole_file_morsel :: "string \<Rightarrow> u64 \<Rightarrow> u64 \<Rightarrow> scan_morsel" where
  "whole_file_morsel path sz decoded_factor =
     \<lparr>m_morsel_id = path @ ''#file'', m_file_path = path, m_file_size_bytes = sz, m_row_group_start = 0,
      m_row_group_end = None, m_start_byte = None, m_end_byte = None,
      m_compressed_bytes_estimate = sz,
      m_decoded_bytes_estimate = u64_saturating_mul sz decoded_factor\<rparr>"

definition byte_morsel :: "string \<Rightarrow> u64 \<Rightarrow> u64 \<Rightarrow> u64 \<Rightarrow> u64 \<Rightarrow> scan_morsel" where
  "byte_morsel path sz decoded_factor start fin =
     \<lparr>m_morsel_id = path @ ''#b'' @ show_nat (unat start) @ ''-'' @ show_nat (unat fin),
      m_file_path = path, m_file_size_bytes = sz, m_row_group_start = 0,
      m_row_group_end = None, m_start_byte = Some start, m_end_byte = Some fin,
      m_compressed_bytes_estimate = fin - start,
      m_decoded_bytes_estimate = u64_saturating_mul (fin - start) decoded_factor\<rparr>"

partial_function (option) byte_loop ::
    "string \<Rightarrow> u64 \<Rightarrow> u64 \<Rightarrow> u64 \<Rightarrow> u64 \<Rightarrow> scan_morsel list option" where
  "byte_loop path sz decoded_factor chunk start =
     (if start < sz then
        let fin = min (start + chunk) sz
        in Option.bind (byte_loop path sz decoded_factor chunk fin)
             (\<lambda>ms. Some (byte_morsel path sz decoded_factor start fin # ms))
      else Some [])"

definition plan_file_byte_morsels ::
    "string \<Rightarrow> u64 \<Rightarrow> u64 \<Rightarrow> u64 \<Rightarrow> u64 \<Rightarrow> bool \<Rightarrow> scan_morsel list option" where
  "plan_file_byte_morsels path sz target_bytes max_bytes decoded_factor allow_subfile_split =
     (let target = max target_bytes 1; max_b = max max_bytes target
      in if \<not> allow_subfile_split \<or> sz \<le> target then Some [whole_file_morsel path sz decoded_factor]
         else byte_loop path sz decoded_factor (min target max_b) 0)"

fun plan_scan_morsels_by_file ::
    "(string \<times> u64) list \<Rightarrow> u64 \<Rightarrow> u64 \<Rightarrow> (string \<Rightarrow> bool) \<Rightarrow> scan_morsel list option" where
  "plan_scan_morsels_by_file [] target_bytes max_bytes allow = Some []"
| "plan_scan_morsels_by_file ((path, sz) # fs) target_bytes max_bytes allow =
     Option.bind (plan_file_byte_morsels path sz target_bytes max_bytes 4 (allow path)) (\<lambda>ms.
     Option.bind (plan_scan_morsels_by_file fs target_bytes max_bytes allow) (\<lambda>rest. Some (ms @ rest)))"

definition plan_scan_morsels :: "(string \<times> u64) list \<Rightarrow> u64 \<Rightarrow> u64 \<Rightarrow> bool \<Rightarrow> scan_morsel list option" where
  "plan_scan_morsels fs target_bytes max_bytes allow_subfile_split =
     plan_scan_morsels_by_file fs target_bytes max_bytes (\<lambda>_. allow_subfile_split)"

text \<open>The bytes of its file a morsel stands for, in order.\<close>

definition morsel_bytes :: "scan_morsel \<Rightarrow> nat list" where
  "morsel_bytes m = (case (m_start_byte m, m_end_byte m) of
       (Some s, Some e) \<Rightarrow> [unat s..<unat e]
     | _ \<Rightarrow> [0..<unat (m_file_size_bytes m)])"

section \<open>Morsel ids\<close>

text \<open>Decimal printing is injective and prints digits only, so an id determines its file and its range.\<close>

definition digits_value :: "string \<Rightarrow> nat" where
  "digits_value s = foldl (\<lambda>v c. v * 10 + (of_char c - 48)) 0 s"

lemma digits_value_show_nat [simp]: "digits_value (show_nat n) = n"
proof (induction n rule: show_nat.induct)
  case (1 n)
  show ?case
    by (cases "n < 10"; subst show_nat.simps)
      (use 1 in \<open>simp_all add: digits_value_def\<close>)
qed

lemma show_nat_inj [simp]: "show_nat a = show_nat b \<longleftrightarrow> a = b"
  by (metis digits_value_show_nat)

lemma char_of_digit_neq:
  assumes "d < (10::nat)" "of_char c < (48::nat) \<or> 57 < (of_char c::nat)"
  shows "c \<noteq> char_of (48 + d)"
proof
  assume "c = char_of (48 + d)"
  then have "(of_char c::nat) = 48 + d" using assms(1) by simp
  with assms show False by simp
qed

lemma show_nat_digits:
  assumes "of_char c < (48::nat) \<or> 57 < (of_char c::nat)"
  shows "c \<notin> set (show_nat n)"
proof (induction n rule: show_nat.induct)
  case (1 n)
  show ?case
    by (cases "n < 10"; subst show_nat.simps)
      (use 1 char_of_digit_neq [OF _ assms] in simp_all)
qed

lemma split_at_unique:
  assumes "p @ c # s = q @ c # t" and "c \<notin> set s" and "c \<notin> set t"
  shows "p = q \<and> s = t"
proof -
  have "takeWhile (\<lambda>x. x \<noteq> c) (rev (p @ c # s)) = rev s"
    using assms(2) by (simp add: takeWhile_append)
  moreover have "takeWhile (\<lambda>x. x \<noteq> c) (rev (q @ c # t)) = rev t"
    using assms(3) by (simp add: takeWhile_append)
  ultimately have "s = t" using assms(1) by (metis rev_rev_ident)
  with assms(1) show ?thesis by simp
qed

definition range_suffix :: "u64 \<Rightarrow> u64 \<Rightarrow> string" where
  "range_suffix a b = CHR ''b'' # show_nat (unat a) @ CHR ''-'' # show_nat (unat b)"

lemma range_suffix_simps [simp]:
  "CHR ''#'' \<notin> set (range_suffix a b)"
  "range_suffix a b \<noteq> ''file''"
  "range_suffix a b = range_suffix c d \<longleftrightarrow> a = c \<and> b = d"
  using split_at_unique [of "show_nat (unat a)" "CHR ''-''" "show_nat (unat b)"
      "show_nat (unat c)" "show_nat (unat d)"] show_nat_digits
  by (auto simp: range_suffix_def append_eq_Cons_conv Cons_eq_append_conv word_unat_eq_iff)

lemma byte_morsel_id:
  "m_morsel_id (byte_morsel path sz f a b) = path @ CHR ''#'' # range_suffix a b"
  by (simp add: byte_morsel_def range_suffix_def)

text \<open>The morsels of one file: the whole file, or a non-empty range of it.\<close>

definition morsel_of :: "string \<Rightarrow> u64 \<Rightarrow> scan_morsel \<Rightarrow> bool" where
  "morsel_of path sz m \<longleftrightarrow> m = whole_file_morsel path sz 4 \<or>
     (\<exists>a b. m = byte_morsel path sz 4 a b \<and> a < b \<and> b \<le> sz)"

lemma morsel_of_id: "morsel_of p sz m \<Longrightarrow> \<exists>s. m_morsel_id m = p @ CHR ''#'' # s \<and> CHR ''#'' \<notin> set s"
  by (auto simp: morsel_of_def byte_morsel_id whole_file_morsel_def)

lemma morsel_of_id_path:
  "morsel_of p sz m \<Longrightarrow> morsel_of q sz' m' \<Longrightarrow> m_morsel_id m = m_morsel_id m' \<Longrightarrow> p = q"
  by (metis morsel_of_id split_at_unique)

lemma morsel_of_file: "morsel_of p sz m \<Longrightarrow> m_file_path m = p \<and> m_file_size_bytes m = sz"
  by (auto simp: morsel_of_def byte_morsel_def whole_file_morsel_def)

section \<open>The byte ranges tile the file\<close>

lemma upt_joins: "i \<le> j \<Longrightarrow> j \<le> k \<Longrightarrow> [i..<j] @ [j..<k] = [i..<k]"
  by (metis le_add_diff_inverse upt_add_eq_append)

lemma byte_loop_done: "\<not> start < sz \<Longrightarrow> byte_loop path sz f chunk start = Some []"
  by (simp add: byte_loop.simps)

lemma byte_loop_step:
  "start < sz \<Longrightarrow> byte_loop path sz f chunk start =
     (let fin = min (start + chunk) sz in Option.bind (byte_loop path sz f chunk fin)
        (\<lambda>ms. Some (byte_morsel path sz f start fin # ms)))"
  by (subst byte_loop.simps) simp

lemma chunk_step:
  fixes start chunk sz :: u64
  assumes "start < sz" "0 < chunk" "unat sz + unat chunk \<le> 2 ^ 64"
  defines "fin \<equiv> min (start + chunk) sz"
  shows "start < fin" "fin \<le> sz" "unat fin = min (unat start + unat chunk) (unat sz)"
proof -
  have "unat (start + chunk) = unat start + unat chunk"
    using assms(1,3) by (simp add: unat_word_ariths word_less_nat_alt)
  then show "unat fin = min (unat start + unat chunk) (unat sz)"
    by (simp add: fin_def min_def word_le_nat_alt)
  with assms(1,2) show "start < fin" by (simp add: word_less_nat_alt)
  show "fin \<le> sz" by (simp add: fin_def)
qed

lemma byte_loop_tiles:
  assumes "0 < chunk" "unat sz + unat chunk \<le> 2 ^ 64"
  shows "start \<le> sz \<Longrightarrow> \<exists>ms. byte_loop path sz 4 chunk start = Some ms \<and>
    concat (map morsel_bytes ms) = [unat start..<unat sz] \<and>
    (\<forall>m \<in> set ms. \<exists>a b. m = byte_morsel path sz 4 a b \<and> start \<le> a \<and> a < b \<and> b \<le> sz \<and> unat b - unat a \<le> unat chunk) \<and>
    distinct (map m_morsel_id ms)"
proof (induction "unat sz - unat start" arbitrary: start rule: less_induct)
  case less
  show ?case
  proof (cases "start < sz")
    case False
    with less.prems show ?thesis by (simp add: byte_loop_done)
  next
    case True
    define fin where "fin = min (start + chunk) sz"
    note st = chunk_step [OF True assms, folded fin_def]
    have "unat sz - unat fin < unat sz - unat start"
      using st True by (auto simp: word_less_nat_alt intro!: diff_less_mono2)
    from less.hyps [OF this st(2)] obtain ms where ms: "byte_loop path sz 4 chunk fin = Some ms"
      "concat (map morsel_bytes ms) = [unat fin..<unat sz]"
      "\<forall>m \<in> set ms. \<exists>a b. m = byte_morsel path sz 4 a b \<and> fin \<le> a \<and> a < b \<and> b \<le> sz \<and> unat b - unat a \<le> unat chunk"
      "distinct (map m_morsel_id ms)" by blast
    have "byte_loop path sz 4 chunk start = Some (byte_morsel path sz 4 start fin # ms)"
      using ms(1) by (simp add: byte_loop_step [OF True] fin_def)
    moreover have "morsel_bytes (byte_morsel path sz 4 start fin) = [unat start..<unat fin]"
      by (simp add: morsel_bytes_def byte_morsel_def)
    then have "concat (map morsel_bytes (byte_morsel path sz 4 start fin # ms)) = [unat start..<unat sz]"
      using ms(2) st(1,2) by (simp add: upt_joins word_less_nat_alt word_le_nat_alt)
    moreover have "\<exists>a b. m = byte_morsel path sz 4 a b \<and> start \<le> a \<and> a < b \<and> b \<le> sz \<and> unat b - unat a \<le> unat chunk"
      if "m \<in> set ms" for m
    proof -
      from bspec [OF ms(3) that] obtain a b where "m = byte_morsel path sz 4 a b" "fin \<le> a" "a < b" "b \<le> sz"
        "unat b - unat a \<le> unat chunk" by blast
      with st(1) show ?thesis by (intro exI [of _ a] exI [of _ b]) auto
    qed
    moreover have "\<exists>a b. byte_morsel path sz 4 start fin = byte_morsel path sz 4 a b \<and> start \<le> a \<and> a < b \<and> b \<le> sz \<and> unat b - unat a \<le> unat chunk"
      using st by (intro exI [of _ start] exI [of _ fin]) simp
    moreover have "m_morsel_id (byte_morsel path sz 4 start fin) \<notin> m_morsel_id ` set ms"
      using ms(3) st(1) by (fastforce simp: byte_morsel_id)
    ultimately show ?thesis using ms(4) by (intro exI [of _ "byte_morsel path sz 4 start fin # ms"]) simp
  qed
qed

lemma plan_file_tiles:
  assumes "unat sz + unat (max target_bytes 1) \<le> 2 ^ 64"
  shows "\<exists>ms. plan_file_byte_morsels path sz target_bytes max_bytes 4 allow = Some ms \<and>
    concat (map morsel_bytes ms) = [0..<unat sz] \<and> (\<forall>m \<in> set ms. morsel_of path sz m) \<and>
    distinct (map m_morsel_id ms) \<and> ms \<noteq> [] \<and> (\<not> allow \<longrightarrow> ms = [whole_file_morsel path sz 4])"
proof (cases "\<not> allow \<or> sz \<le> max target_bytes 1")
  case True
  then show ?thesis
    by (auto simp: plan_file_byte_morsels_def Let_def morsel_of_def morsel_bytes_def whole_file_morsel_def)
next
  case False
  define chunk where "chunk = min (max target_bytes 1) (max max_bytes (max target_bytes 1))"
  have "chunk = max target_bytes 1" by (simp add: chunk_def min_absorb1)
  then have "0 < chunk" "unat sz + unat chunk \<le> 2 ^ 64"
    using assms by (simp_all add: max_def word_less_nat_alt word_le_nat_alt split: if_splits)
  from byte_loop_tiles [OF this, of 0 path] obtain ms where
    ms: "byte_loop path sz 4 chunk 0 = Some ms" "concat (map morsel_bytes ms) = [0..<unat sz]"
      "\<forall>m \<in> set ms. \<exists>a b. m = byte_morsel path sz 4 a b \<and> 0 \<le> a \<and> a < b \<and> b \<le> sz \<and> unat b - unat a \<le> unat chunk"
      "distinct (map m_morsel_id ms)" by auto
  have "0 < unat sz" using False by (simp add: not_le word_less_nat_alt)
  then have "concat (map morsel_bytes ms) \<noteq> []" using ms(2) by simp
  then have "ms \<noteq> []" by auto
  moreover have "plan_file_byte_morsels path sz target_bytes max_bytes 4 allow = Some ms"
    using False ms(1) by (simp add: plan_file_byte_morsels_def Let_def chunk_def)
  moreover have "\<forall>m \<in> set ms. morsel_of path sz m" using ms(3) by (auto simp: morsel_of_def)
  ultimately show ?thesis using ms(2,4) False by simp
qed

lemma plan_scan_morsels_by_file_tiles:
  assumes "\<forall>(path, sz) \<in> set fs. unat sz + unat (max target_bytes 1) \<le> 2 ^ 64"
    and "distinct (map fst fs)"
  shows "\<exists>ms. plan_scan_morsels_by_file fs target_bytes max_bytes allow = Some ms \<and>
    concat (map (\<lambda>m. map (Pair (m_file_path m)) (morsel_bytes m)) ms) =
      concat (map (\<lambda>(path, sz). map (Pair path) [0..<unat sz]) fs) \<and>
    (\<forall>m \<in> set ms. \<exists>path sz. (path, sz) \<in> set fs \<and> morsel_of path sz m \<and>
       (\<not> allow path \<longrightarrow> m = whole_file_morsel path sz 4)) \<and>
    distinct (map m_morsel_id ms) \<and> (fs \<noteq> [] \<longrightarrow> ms \<noteq> [])"
  using assms
proof (induction fs)
  case (Cons f fs)
  obtain path sz where f: "f = (path, sz)" by (cases f)
  from plan_file_tiles [of sz target_bytes path max_bytes "allow path"] Cons.prems(1) f obtain ms1 where
    m1: "plan_file_byte_morsels path sz target_bytes max_bytes 4 (allow path) = Some ms1"
      "concat (map morsel_bytes ms1) = [0..<unat sz]" "\<forall>m \<in> set ms1. morsel_of path sz m"
      "distinct (map m_morsel_id ms1)" "ms1 \<noteq> []"
      "\<not> allow path \<longrightarrow> ms1 = [whole_file_morsel path sz 4]" by auto
  from Cons obtain ms2 where
    m2: "plan_scan_morsels_by_file fs target_bytes max_bytes allow = Some ms2"
      "concat (map (\<lambda>m. map (Pair (m_file_path m)) (morsel_bytes m)) ms2) =
        concat (map (\<lambda>(path, sz). map (Pair path) [0..<unat sz]) fs)"
      "\<forall>m \<in> set ms2. \<exists>path sz. (path, sz) \<in> set fs \<and> morsel_of path sz m \<and>
         (\<not> allow path \<longrightarrow> m = whole_file_morsel path sz 4)"
      "distinct (map m_morsel_id ms2)" by auto
  have "m_file_path m = path" if "m \<in> set ms1" for m
    using m1(3) that morsel_of_file by blast
  then have "map (\<lambda>m. map (Pair (m_file_path m)) (morsel_bytes m)) ms1 = map (map (Pair path)) (map morsel_bytes ms1)"
    by simp
  then have "concat (map (\<lambda>m. map (Pair (m_file_path m)) (morsel_bytes m)) ms1) = map (Pair path) [0..<unat sz]"
    by (simp only: map_concat [symmetric] m1(2))
  moreover have "m_morsel_id ` set ms1 \<inter> m_morsel_id ` set ms2 = {}"
  proof (rule ccontr)
    assume "\<not> ?thesis"
    then obtain a b where ab: "a \<in> set ms1" "b \<in> set ms2" "m_morsel_id a = m_morsel_id b" by fastforce
    then obtain q sz' where "(q, sz') \<in> set fs" "morsel_of q sz' b" using m2(3) by blast
    with ab m1(3) Cons.prems(2) f show False using morsel_of_id_path [of path sz a q sz' b] by force
  qed
  moreover have "\<exists>path sz. (path, sz) \<in> set (f # fs) \<and> morsel_of path sz m \<and>
      (\<not> allow path \<longrightarrow> m = whole_file_morsel path sz 4)" if "m \<in> set (ms1 @ ms2)" for m
  proof (cases "m \<in> set ms1")
    case True
    then have "(path, sz) \<in> set (f # fs) \<and> morsel_of path sz m \<and>
        (\<not> allow path \<longrightarrow> m = whole_file_morsel path sz 4)" using m1(3,6) f by auto
    then show ?thesis by blast
  next
    case False
    with that have "m \<in> set ms2" by simp
    from bspec [OF m2(3) this] obtain q sz' where "(q, sz') \<in> set fs" "morsel_of q sz' m"
      "\<not> allow q \<longrightarrow> m = whole_file_morsel q sz' 4" by blast
    then show ?thesis by (intro exI [of _ q] exI [of _ sz']) simp
  qed
  moreover have "plan_scan_morsels_by_file (f # fs) target_bytes max_bytes allow = Some (ms1 @ ms2)"
    using m1(1) m2(1) f by simp
  ultimately show ?case using m1(4,5) m2(2,4)
    by (intro exI [of _ "ms1 @ ms2"] conjI ballI) (simp_all add: f)
qed simp

text \<open>
  A file within one chunk of \<open>2^64\<close> bytes: the next start wraps around and the loop starts over.
\<close>

lemma unat_pow2: "k < 64 \<Longrightarrow> unat (2 ^ k :: u64) = 2 ^ k"
  using unat_of_nat [of "2 ^ k", where 'a = 64] power_strict_increasing [of k 64 "2 :: nat"]
  by (simp add: take_bit_eq_mod)

lemma byte_loop_wraps:
  assumes "0 < k" "k < 64"
  shows "2 ^ k dvd unat start \<Longrightarrow> byte_loop path (- 1) f (2 ^ k) start = None"
proof -
  define P where "P path sz (f::u64) chunk start (ms::scan_morsel list) \<longleftrightarrow>
    \<not> (sz = - 1 \<and> chunk = (2::u64) ^ k \<and> 2 ^ k dvd unat (start :: u64))" for path :: string and sz f chunk start :: u64 and ms
  have "P path sz f chunk start ms" if "byte_loop path sz f chunk start = Some ms" for path sz f chunk start ms
    using _ that
  proof (rule byte_loop.raw_induct)
    fix loop path sz f chunk start ms
    assume IH: "\<And>path sz f chunk start ms. loop path sz f chunk start = Some ms \<Longrightarrow> P path sz f chunk start ms"
      and body: "(if start < sz then let fin = min (start + chunk) sz in Option.bind (loop path sz f chunk fin)
          (\<lambda>ms. Some (byte_morsel path sz f start fin # ms)) else Some []) = Some ms"
    show "P path sz f chunk start ms"
      unfolding P_def
    proof
      assume h: "sz = - 1 \<and> chunk = 2 ^ k \<and> 2 ^ k dvd unat start"
      have ndvd: "\<not> 2 ^ k dvd (2 ^ 64 - 1 :: nat)"
        using assms(1) dvd_trans [of 2 "2 ^ k" "2 ^ 64 - 1 :: nat"] by (auto simp: dvd_power)
      have "unat (- 1 :: u64) = 2 ^ 64 - 1" by (simp add: unsigned_minus_1_eq_mask mask_eq_exp_minus_1)
      then have "start \<noteq> - 1" using h ndvd by metis
      then have "start < sz" using h by (simp add: word_order.not_eq_extremum)
      moreover have "min (start + chunk) sz = start + 2 ^ k"
        using h by (simp add: min_absorb1)
      ultimately obtain rest where "loop path sz f chunk (start + 2 ^ k) = Some rest"
        using body by (auto simp: Let_def bind_eq_Some_conv)
      from IH [OF this] have "\<not> 2 ^ k dvd unat (start + 2 ^ k)" using h by (simp add: P_def)
      moreover have "unat (2 ^ k :: u64) = 2 ^ k" by (rule unat_pow2 [OF assms(2)])
      then have "unat (start + 2 ^ k) = (unat start + 2 ^ k) mod 2 ^ 64" by (simp add: unat_word_ariths)
      moreover have "(2 ^ k :: nat) dvd 2 ^ 64" using assms(2) by (intro le_imp_power_dvd) simp
      ultimately show False using h by (metis dvd_add dvd_mod dvd_refl)
    qed
  qed
  then show "2 ^ k dvd unat start \<Longrightarrow> byte_loop path (- 1) f (2 ^ k) start = None"
    by (cases "byte_loop path (- 1) f (2 ^ k) start") (auto simp: P_def)
qed

section \<open>The row-group morsels tile the file\<close>

lemma u64_saturating_add_le:
  assumes "u64_saturating_add a b \<le> m" "m \<noteq> - 1"
  shows "unat (a + b) = unat a + unat b" "a + b \<le> m"
proof -
  have le: "unat a + unat b \<le> usize_MAX"
    using assms by (auto simp: u64_saturating_add_def word_order.extremum_unique split: if_splits)
  then show "unat (a + b) = unat a + unat b" by (simp add: unat_word_ariths)
  show "a + b \<le> m" using assms(1) le by (simp add: u64_saturating_add_def)
qed

lemma grow_morsel_sum:
  "grow_morsel row_groups target max_b i compressed = (c, j) \<Longrightarrow> i \<le> length row_groups \<Longrightarrow> max_b \<noteq> - 1 \<Longrightarrow>
    j \<le> length row_groups \<and>
    unat c = unat compressed + (\<Sum>k\<leftarrow>[i..<j]. unat (rg_compressed_bytes (row_groups ! k))) \<and>
    (i < j \<or> compressed \<le> max_b \<longrightarrow> c \<le> max_b)"
proof (induction row_groups target max_b i compressed rule: grow_morsel.induct)
  case (1 row_groups target max_b i compressed)
  let ?nxt = "rg_compressed_bytes (row_groups ! i)"
  show ?case
  proof (cases "i < length row_groups \<and> \<not> target \<le> compressed \<and> \<not> max_b < u64_saturating_add compressed ?nxt")
    case False
    then have "(c, j) = (compressed, i)"
      using 1(2) by (subst (asm) grow_morsel.simps) (simp add: Let_def split: if_splits)
    then show ?thesis using 1(3) by simp
  next
    case True
    then have step: "grow_morsel row_groups target max_b (i + 1) (compressed + ?nxt) = (c, j)"
      using 1(2) by (subst (asm) grow_morsel.simps) (simp add: Let_def)
    have le: "u64_saturating_add compressed ?nxt \<le> max_b" using True leI by blast
    note sum = u64_saturating_add_le [OF le 1(4)]
    have "i + 1 \<le> j" using grow_morsel_ge [OF step] .
    moreover have "(\<Sum>k\<leftarrow>[i..<j]. unat (rg_compressed_bytes (row_groups ! k))) =
        unat ?nxt + (\<Sum>k\<leftarrow>[i + 1..<j]. unat (rg_compressed_bytes (row_groups ! k)))"
      using grow_morsel_ge [OF step] by (simp add: upt_conv_Cons)
    ultimately show ?thesis using 1(1) [OF _ refl _ _ step] True 1(4) sum by simp
  qed
qed

definition row_group_indices :: "scan_morsel \<Rightarrow> nat list" where
  "row_group_indices m = [unat (m_row_group_start m)..<unat (the (m_row_group_end m))]"

text \<open>The estimate of a morsel is the size of its groups, and a morsel of several groups keeps the bound.\<close>

definition sized_morsel :: "row_group_slice list \<Rightarrow> u64 \<Rightarrow> scan_morsel \<Rightarrow> bool" where
  "sized_morsel row_groups max_b m \<longleftrightarrow> m_row_group_end m \<noteq> None \<and> row_group_indices m \<noteq> [] \<and>
     unat (m_compressed_bytes_estimate m) =
       (\<Sum>k\<leftarrow>row_group_indices m. unat (rg_compressed_bytes (row_groups ! k))) \<and>
     (1 < length (row_group_indices m) \<longrightarrow> m_compressed_bytes_estimate m \<le> max_b)"

lemma group_loop_tiles:
  assumes "max_b \<noteq> - 1" "length row_groups < 2 ^ 32"
    and "\<forall>k < length row_groups. rg_index (row_groups ! k) = of_nat k"
  shows "i \<le> length row_groups \<Longrightarrow>
    concat (map row_group_indices (group_loop path sz row_groups target max_b f i)) = [i..<length row_groups] \<and>
    (\<forall>m \<in> set (group_loop path sz row_groups target max_b f i). sized_morsel row_groups max_b m)"
proof (induction "length row_groups - i" arbitrary: i rule: less_induct)
  case less
  show ?case
  proof (cases "i < length row_groups")
    case False
    then show ?thesis using less.prems by (simp add: group_loop.simps)
  next
    case True
    obtain c j where g: "grow_morsel row_groups target max_b (i + 1) (rg_compressed_bytes (row_groups ! i)) = (c, j)"
      by fastforce
    define m where "m = row_group_morsel path sz row_groups f i j c"
    have loop: "group_loop path sz row_groups target max_b f i = m # group_loop path sz row_groups target max_b f j"
      using True g by (subst group_loop.simps) (simp add: m_def)
    have ij: "i < j" "j \<le> length row_groups" "i + 1 < j \<longrightarrow> c \<le> max_b"
      "unat c = unat (rg_compressed_bytes (row_groups ! i)) +
         (\<Sum>k\<leftarrow>[i + 1..<j]. unat (rg_compressed_bytes (row_groups ! k)))"
      using grow_morsel_ge [OF g] grow_morsel_sum [OF g _ assms(1)] True by simp_all
    have m: "m_row_group_start m = of_nat i" "m_row_group_end m = Some (of_nat j)"
      "m_compressed_bytes_estimate m = c"
      using assms(3) ij(1,2) True by (simp_all add: m_def row_group_morsel_def Let_def of_nat_diff)
    have "unat (of_nat i :: u32) = i" "unat (of_nat j :: u32) = j"
      using ij assms(2) by (simp_all add: unat_of_nat take_bit_eq_mod)
    then have idx: "row_group_indices m = [i..<j]" by (simp add: row_group_indices_def m)
    then have "sized_morsel row_groups max_b m"
      using ij by (auto simp: sized_morsel_def m upt_conv_Cons)
    then show ?thesis using less.hyps [OF _ ij(2)] ij(1,2) True unfolding loop
      by (simp add: idx upt_joins diff_less_mono2)
  qed
qed

text \<open>
  C32: Cutting a file along its row groups loses none and repeats none. For a file whose \<open>n\<close> row
  groups are numbered from 0, the index ranges of the morsels, in order, are exactly \<open>0..<n\<close>; every
  morsel is non-empty, its compressed estimate is the exact sum of its groups' sizes (no wrap), and a
  morsel of more than one group stays within \<open>max_bytes\<close> (raised to the target, and the target to 1).
\<close>

theorem row_group_morsels_tile:
  assumes "row_groups \<noteq> []" "length row_groups < 2 ^ 32"
    and "\<forall>k < length row_groups. rg_index (row_groups ! k) = of_nat k"
    and "max max_bytes (max target_bytes 1) \<noteq> - 1"
  shows "concat (map row_group_indices
      (group_row_groups_into_morsels path sz row_groups target_bytes max_bytes decoded_factor)) = [0..<length row_groups] \<and>
    list_all (sized_morsel row_groups (max max_bytes (max target_bytes 1)))
      (group_row_groups_into_morsels path sz row_groups target_bytes max_bytes decoded_factor)"
  using group_loop_tiles [OF assms(4,2,3), of 0 path sz "max target_bytes 1" decoded_factor] assms(1)
  by (simp add: group_row_groups_into_morsels_def list_all_iff Let_def)

definition example_row_groups :: "row_group_slice list" where
  "example_row_groups =
     [\<lparr>rg_index = 0, rg_compressed_bytes = 40, rg_offset = Some 4\<rparr>,
      \<lparr>rg_index = 1, rg_compressed_bytes = 50, rg_offset = Some 44\<rparr>,
      \<lparr>rg_index = 2, rg_compressed_bytes = 300, rg_offset = Some 94\<rparr>]"

theorem row_group_morsels_tile_witness:
  "concat (map row_group_indices
     (group_row_groups_into_morsels ''f'' 400 example_row_groups 100 128 4)) = [0, 1, 2] \<and>
   list_all (sized_morsel example_row_groups 128)
     (group_row_groups_into_morsels ''f'' 400 example_row_groups 100 128 4) \<and>
   map row_group_indices (group_row_groups_into_morsels ''f'' 400 example_row_groups 100 128 4) = [[0, 1], [2]]"
proof -
  have "\<forall>k < length example_row_groups. rg_index (example_row_groups ! k) = of_nat k"
    by (auto simp: example_row_groups_def less_Suc_eq numeral_eq_Suc)
  moreover have "map row_group_indices (group_row_groups_into_morsels ''f'' 400 example_row_groups 100 128 4) = [[0, 1], [2]]"
    by (simp add: example_row_groups_def group_row_groups_into_morsels_def Let_def group_loop.simps
        grow_morsel.simps u64_saturating_add_def row_group_morsel_def row_group_indices_def upt_conv_Cons)
  moreover have "max 128 (max 100 1) = (128 :: u64)" by simp
  ultimately show ?thesis
    using row_group_morsels_tile [of example_row_groups 128 100 "''f''" 400 4]
    by (simp add: example_row_groups_def)
qed

end
