(* ===== verification/Scan_Task.thy ===== *)
theory Scan_Task
  imports Scan_Morsel
begin

text \<open>
  Scan tickets (\<open>sqe-planner/src/scan_task.rs\<close>): the message a coordinator sends a worker, the builder
  that derives its version from the fields it carries, and the checks on both ends. The JSON encoding
  is \<open>serde_json\<close>'s, a parameter (\<open>ticket_json\<close>) of the operations that use it; the theorem that needs
  its round trip names that as a hypothesis.
\<close>

datatype hive_scan_format = Csv | Json | Parquet

record hive_scan_descriptor =
  hive_format :: hive_scan_format
  delimiter :: u8
  quote_char :: "u8 option"
  escape_char :: "u8 option"
  has_header :: bool
  partition_values :: "(string \<times> string) list"
  partition_columns :: "string list"
  full_schema_json :: string

datatype ticket_secret = TicketSecret (expose: string)

definition secret_is_empty :: "ticket_secret \<Rightarrow> bool" where
  "secret_is_empty s \<longleftrightarrow> expose s = []"

definition debug_secret :: "ticket_secret \<Rightarrow> string" where
  "debug_secret s = (if expose s = [] then ''[empty]'' else ''[REDACTED]'')"

text \<open>
  \<open>Vended\<close> carries the access key, the secret key, the session token and the expiry; \<open>Static\<close> the first
  three.
\<close>

datatype scan_credentials =
    WorkerDefault
  | Vended ticket_secret ticket_secret ticket_secret "i64 option"
  | Static ticket_secret ticket_secret ticket_secret

definition static_keys :: "string \<Rightarrow> string \<Rightarrow> string \<Rightarrow> scan_credentials" where
  "static_keys ak sk tok = Static (TicketSecret ak) (TicketSecret sk) (TicketSecret tok)"

definition vended :: "string \<Rightarrow> string \<Rightarrow> string \<Rightarrow> i64 option \<Rightarrow> scan_credentials" where
  "vended ak sk tok e = Vended (TicketSecret ak) (TicketSecret sk) (TicketSecret tok) e"

fun credential_source :: "scan_credentials \<Rightarrow> string" where
  "credential_source WorkerDefault = ''worker_default''"
| "credential_source (Vended _ _ _ _) = ''vended''"
| "credential_source (Static _ _ _) = ''static''"

fun access_key :: "scan_credentials \<Rightarrow> string" where
  "access_key WorkerDefault = []"
| "access_key (Vended ak _ _ _) = expose ak"
| "access_key (Static ak _ _) = expose ak"

fun secret_key :: "scan_credentials \<Rightarrow> string" where
  "secret_key WorkerDefault = []"
| "secret_key (Vended _ sk _ _) = expose sk"
| "secret_key (Static _ sk _) = expose sk"

fun session_token :: "scan_credentials \<Rightarrow> string" where
  "session_token WorkerDefault = []"
| "session_token (Vended _ _ tok _) = expose tok"
| "session_token (Static _ _ tok) = expose tok"

fun credentials_expire_at :: "scan_credentials \<Rightarrow> i64 option" where
  "credentials_expire_at (Vended _ _ _ e) = e"
| "credentials_expire_at _ = None"

fun carries_keys :: "scan_credentials \<Rightarrow> bool" where
  "carries_keys WorkerDefault = False"
| "carries_keys _ = True"

record scan_task =
  version :: u32
  fragment_id :: string
  morsel_id :: "string option"
  data_file_paths :: "string list"
  file_sizes_bytes :: "u64 list"
  row_group_start :: "u32 option"
  row_group_end :: "u32 option"
  start_byte :: "u64 option"
  end_byte :: "u64 option"
  projected_columns :: "string list"
  projected_field_ids :: "u32 list"
  s3_endpoint :: string
  s3_region :: string
  credentials :: scan_credentials
  audience :: string
  expires_at :: i64
  s3_path_style :: bool
  s3_allow_http :: bool
  predicate_proto :: "u8 list option"
  limit :: "usize option"
  hive :: "hive_scan_descriptor option"
  projection_fill :: "u8 list option"
  variant_prunes :: "u8 list option"
  delete_tasks :: "u8 list option"

record scan_storage =
  storage_endpoint :: string
  storage_region :: string
  storage_path_style :: bool
  storage_allow_http :: bool
  storage_credentials :: scan_credentials

section \<open>The version a task needs\<close>

definition is_morsel :: "scan_task \<Rightarrow> bool" where
  "is_morsel t \<longleftrightarrow> row_group_start t \<noteq> None \<or> row_group_end t \<noteq> None \<or> start_byte t \<noteq> None \<or>
     end_byte t \<noteq> None \<or> morsel_id t \<noteq> None"

definition required_version :: "scan_task \<Rightarrow> u32" where
  "required_version t =
     (let r = SCAN_TASK_VERSION_V1;
          r = (if is_morsel t then max r SCAN_TASK_VERSION_V2 else r);
          r = (if hive t \<noteq> None then max r SCAN_TASK_VERSION_V3 else r);
          r = (if projection_fill t \<noteq> None then max r SCAN_TASK_VERSION_V4 else r);
          r = (if variant_prunes t \<noteq> None then max r SCAN_TASK_VERSION_V5 else r);
          r = (if delete_tasks t \<noteq> None then max r SCAN_TASK_VERSION_V6 else r)
      in r)"

definition fields_requiring_version :: "scan_task \<Rightarrow> u32 \<Rightarrow> string list" where
  "fields_requiring_version t required =
     (if SCAN_TASK_VERSION_V2 \<le> required then
        (if morsel_id t \<noteq> None then [''morsel_id''] else []) @
        (if row_group_start t \<noteq> None then [''row_group_start''] else []) @
        (if row_group_end t \<noteq> None then [''row_group_end''] else []) @
        (if start_byte t \<noteq> None then [''start_byte''] else []) @
        (if end_byte t \<noteq> None then [''end_byte''] else [])
      else []) @
     (if SCAN_TASK_VERSION_V3 \<le> required \<and> hive t \<noteq> None then [''hive''] else []) @
     (if SCAN_TASK_VERSION_V4 \<le> required \<and> projection_fill t \<noteq> None then [''projection_fill''] else []) @
     (if SCAN_TASK_VERSION_V5 \<le> required \<and> variant_prunes t \<noteq> None then [''variant_prunes''] else []) @
     (if SCAN_TASK_VERSION_V6 \<le> required \<and> delete_tasks t \<noteq> None then [''delete_tasks''] else [])"

definition show_u32 :: "u32 \<Rightarrow> string" where
  "show_u32 v = show_nat (unat v)"

definition validate_payload :: "scan_task \<Rightarrow> (string, unit) outcome" where
  "validate_payload t =
     (let required = required_version t in
      if version t < required then
        Err (''ScanTask '' @ fragment_id t @ '' declares version '' @ show_u32 (version t) @
          '' but carries v'' @ show_u32 required @ '' fields ['' @
          join '', '' (fields_requiring_version t required) @
          '']; build it with ScanTask::builder so the version is derived'')
      else Ok ())"

definition validate_for_worker :: "scan_task \<Rightarrow> u32 \<Rightarrow> string list \<Rightarrow> (string, unit) outcome" where
  "validate_for_worker t supported_max unknown_fields =
     (if supported_max < version t \<or> version t < SCAN_TASK_VERSION_V1 then
        Err (''unsupported ScanTask version '' @ show_u32 (version t) @ ''; this worker supports '' @
          show_u32 SCAN_TASK_VERSION_V1 @ ''..='' @ show_u32 supported_max)
      else obind (validate_payload t) (\<lambda>_.
        if unknown_fields \<noteq> [] then
          Err (''ScanTask '' @ fragment_id t @ '' (version '' @ show_u32 (version t) @
            '') carries fields this worker does not know ['' @ join '', '' unknown_fields @
            '']; refusing rather than scanning with them dropped'')
        else Ok ()))"

definition validate_version :: "scan_task \<Rightarrow> (string, unit) outcome" where
  "validate_version t =
     (if version t \<in> {SCAN_TASK_VERSION_V1, SCAN_TASK_VERSION_V2, SCAN_TASK_VERSION_V3,
          SCAN_TASK_VERSION_V4, SCAN_TASK_VERSION_V5, SCAN_TASK_VERSION_V6}
      then Ok ()
      else Err (''unsupported ScanTask version '' @ show_u32 (version t) @ ''; this worker supports '' @
        show_u32 SCAN_TASK_VERSION_V1 @ ''..='' @ show_u32 SCAN_TASK_VERSION_CURRENT))"

section \<open>The wire\<close>

text \<open>
  What the ticket code uses of \<open>serde_json\<close>: encoding a task, decoding one, and the top-level keys of a
  JSON text and of a task's JSON value (None when it is not an object).
\<close>

record ticket_json =
  to_vec :: "scan_task \<Rightarrow> (string, u8 list) outcome"
  from_slice :: "u8 list \<Rightarrow> (string, scan_task) outcome"
  input_keys :: "u8 list \<Rightarrow> (string, string list option) outcome"
  task_keys :: "scan_task \<Rightarrow> (string, string list option) outcome"

definition LEGACY_PREDICATE_KEY :: string where
  "LEGACY_PREDICATE_KEY = ''predicate_proto''"

definition from_bytes_with_unknown ::
    "ticket_json \<Rightarrow> u8 list \<Rightarrow> (string, scan_task \<times> string list) outcome" where
  "from_bytes_with_unknown json bytes =
     obind (from_slice json bytes) (\<lambda>task.
     obind (input_keys json bytes) (\<lambda>input.
     obind (task_keys json task) (\<lambda>known.
     Ok (task, case (input, known) of
         (Some input, Some known) \<Rightarrow> filter (\<lambda>k. k \<notin> set known \<and> k \<noteq> LEGACY_PREDICATE_KEY) input
       | _ \<Rightarrow> []))))"

definition decode_for_worker :: "ticket_json \<Rightarrow> u8 list \<Rightarrow> u32 \<Rightarrow> (string, scan_task) outcome" where
  "decode_for_worker json bytes supported_max =
     obind (case from_bytes_with_unknown json bytes of
         Err e \<Rightarrow> Err (''Invalid ScanTask ticket: '' @ e) | r \<Rightarrow> r) (\<lambda>(task, unknown).
     obind (validate_for_worker task supported_max unknown) (\<lambda>_. Ok task))"

definition to_bytes :: "ticket_json \<Rightarrow> scan_task \<Rightarrow> (string, u8 list) outcome" where
  "to_bytes json t = obind (validate_payload t) (\<lambda>_. to_vec json t)"

section \<open>The builder\<close>

type_synonym scan_task_builder = scan_task

definition builder :: "string \<Rightarrow> string list \<Rightarrow> scan_storage \<Rightarrow> scan_task_builder" where
  "builder frag paths storage =
     \<lparr>version = SCAN_TASK_VERSION_V1, fragment_id = frag, morsel_id = None, data_file_paths = paths,
      file_sizes_bytes = [], row_group_start = None, row_group_end = None, start_byte = None,
      end_byte = None, projected_columns = [], projected_field_ids = [],
      s3_endpoint = storage_endpoint storage, s3_region = storage_region storage,
      credentials = storage_credentials storage, audience = [], expires_at = 0,
      s3_path_style = storage_path_style storage, s3_allow_http = storage_allow_http storage,
      predicate_proto = None, limit = None, hive = None, projection_fill = None,
      variant_prunes = None, delete_tasks = None\<rparr>"

definition with_row_groups :: "u32 \<Rightarrow> u32 option \<Rightarrow> scan_task_builder \<Rightarrow> scan_task_builder" where
  "with_row_groups a b t = t\<lparr>row_group_start := Some a, row_group_end := b\<rparr>"

definition with_byte_range :: "u64 \<Rightarrow> u64 \<Rightarrow> scan_task_builder \<Rightarrow> scan_task_builder" where
  "with_byte_range a b t = t\<lparr>start_byte := Some a, end_byte := Some b\<rparr>"

definition with_morsel_id :: "string \<Rightarrow> scan_task_builder \<Rightarrow> scan_task_builder" where
  "with_morsel_id i t = t\<lparr>morsel_id := Some i\<rparr>"

definition with_hive :: "hive_scan_descriptor \<Rightarrow> scan_task_builder \<Rightarrow> scan_task_builder" where
  "with_hive d t = t\<lparr>hive := Some d\<rparr>"

definition with_file_sizes :: "u64 list \<Rightarrow> scan_task_builder \<Rightarrow> scan_task_builder" where
  "with_file_sizes szs t = t\<lparr>file_sizes_bytes := szs\<rparr>"

definition with_projection :: "string list \<Rightarrow> u32 list \<Rightarrow> scan_task_builder \<Rightarrow> scan_task_builder" where
  "with_projection cols ids t = t\<lparr>projected_columns := cols, projected_field_ids := ids\<rparr>"

definition with_predicate_proto :: "u8 list option \<Rightarrow> scan_task_builder \<Rightarrow> scan_task_builder" where
  "with_predicate_proto p t = t\<lparr>predicate_proto := p\<rparr>"

definition with_projection_fill :: "u8 list option \<Rightarrow> scan_task_builder \<Rightarrow> scan_task_builder" where
  "with_projection_fill p t = t\<lparr>projection_fill := p\<rparr>"

definition with_variant_prunes :: "u8 list option \<Rightarrow> scan_task_builder \<Rightarrow> scan_task_builder" where
  "with_variant_prunes p t = t\<lparr>variant_prunes := p\<rparr>"

definition with_delete_tasks :: "u8 list option \<Rightarrow> scan_task_builder \<Rightarrow> scan_task_builder" where
  "with_delete_tasks p t = t\<lparr>delete_tasks := p\<rparr>"

definition with_limit :: "usize option \<Rightarrow> scan_task_builder \<Rightarrow> scan_task_builder" where
  "with_limit n t = t\<lparr>limit := n\<rparr>"

definition with_audience :: "string \<Rightarrow> i64 \<Rightarrow> scan_task_builder \<Rightarrow> scan_task_builder" where
  "with_audience a e t = t\<lparr>audience := a, expires_at := e\<rparr>"

definition build :: "scan_task_builder \<Rightarrow> scan_task" where
  "build t = t\<lparr>version := required_version t\<rparr>"

lemmas builder_defs = builder_def with_row_groups_def with_byte_range_def with_morsel_id_def with_hive_def
  with_file_sizes_def with_projection_def with_predicate_proto_def with_projection_fill_def
  with_variant_prunes_def with_delete_tasks_def with_limit_def with_audience_def build_def

section \<open>No worker drops a field it does not implement\<close>

text \<open>A worker that implements the versions up to \<open>m\<close> implements every version-bound field of the task.\<close>

definition understands :: "u32 \<Rightarrow> scan_task \<Rightarrow> bool" where
  "understands m t \<longleftrightarrow> 1 \<le> m \<and> (is_morsel t \<longrightarrow> 2 \<le> m) \<and> (hive t \<noteq> None \<longrightarrow> 3 \<le> m) \<and>
     (projection_fill t \<noteq> None \<longrightarrow> 4 \<le> m) \<and> (variant_prunes t \<noteq> None \<longrightarrow> 5 \<le> m) \<and>
     (delete_tasks t \<noteq> None \<longrightarrow> 6 \<le> m)"

lemma if_max_le: "(if c then max r v else r) \<le> (m :: 'a :: linorder) \<longleftrightarrow> r \<le> m \<and> (c \<longrightarrow> v \<le> m)"
  by simp

lemma required_version_le: "required_version t \<le> m \<longleftrightarrow> understands m t"
  unfolding required_version_def Let_def if_max_le understands_def scan_version_defs by blast

lemma required_version_build [simp]: "required_version (build t) = required_version t"
  by (simp add: build_def required_version_def is_morsel_def)

lemma version_build [simp]: "version (build t) = required_version t"
  by (simp add: build_def)

lemma required_version_pos: "SCAN_TASK_VERSION_V1 \<le> required_version t"
  using required_version_le [of t "required_version t"] by (simp add: understands_def scan_version_defs)

lemma validate_payload_Ok: "validate_payload t = Ok u \<longleftrightarrow> required_version t \<le> version t"
  by (auto simp: validate_payload_def Let_def)

lemma obind_Ok_iff: "obind m f = Ok y \<longleftrightarrow> (\<exists>x. m = Ok x \<and> f x = Ok y)"
  by (cases m) simp_all

lemma validate_for_worker_Ok:
  "validate_for_worker t m unknown = Ok u \<longleftrightarrow>
     version t \<le> m \<and> SCAN_TASK_VERSION_V1 \<le> version t \<and> required_version t \<le> version t \<and> unknown = []"
  by (auto simp: validate_for_worker_def obind_Ok_iff validate_payload_Ok not_less)

lemma decode_for_worker_Ok:
  "decode_for_worker json bytes m = Ok t \<longleftrightarrow>
     (\<exists>unknown. from_bytes_with_unknown json bytes = Ok (t, unknown) \<and> validate_for_worker t m unknown = Ok ())"
  by (auto simp: decode_for_worker_def obind_Ok_iff split: outcome.splits)

text \<open>
  C13: A worker never executes a ticket with a field it does not implement, and an up-to-date worker
  never refuses one the builder made. Whatever bytes it is handed, a worker that implements versions up
  to \<open>m\<close> accepts a task only if \<open>m\<close> covers every version-bound field the task carries (byte ranges, hive
  descriptor, projection fill, variant prunes, delete files). A task from the builder is never refused
  by \<open>to_bytes\<close>, and once encoded is accepted, unchanged, by exactly the workers that implement its
  fields. The encoding is assumed to decode to the task it came from and to carry no other keys than the
  task's own.
\<close>

theorem ticket_version_gate:
  assumes "from_slice json bytes = Ok (build b)"
    and "to_vec json (build b) = Ok bytes"
    and "input_keys json bytes = task_keys json (build b)"
    and "task_keys json (build b) = Ok (Some ks)"
  shows "(decode_for_worker json any_bytes m = Ok t \<longrightarrow> understands m t) \<and>
    to_bytes json (build b) = Ok bytes \<and>
    (decode_for_worker json bytes m = Ok (build b) \<longleftrightarrow> understands m b) \<and>
    (\<not> understands m b \<longrightarrow> (\<exists>e. decode_for_worker json bytes m = Err e))"
proof -
  have payload: "validate_payload (build b) = Ok ()" by (simp add: validate_payload_Ok)
  have unknown: "from_bytes_with_unknown json bytes = Ok (build b, [])"
    using assms by (auto simp: from_bytes_with_unknown_def filter_empty_conv)
  have "decode_for_worker json bytes m = Ok (build b) \<longleftrightarrow> understands m b"
    by (simp add: decode_for_worker_Ok unknown validate_for_worker_Ok required_version_pos required_version_le)
  moreover have "\<exists>e. decode_for_worker json bytes m = Err e" if "\<not> understands m b"
    using that by (simp add: decode_for_worker_def unknown validate_for_worker_def required_version_le [symmetric] not_le)
  moreover have "understands m t" if "decode_for_worker json any_bytes m = Ok t"
    using that by (auto simp: decode_for_worker_Ok validate_for_worker_Ok required_version_le [symmetric])
  ultimately show ?thesis using assms(2) payload by (simp add: to_bytes_def)
qed

definition example_storage :: scan_storage where
  "example_storage = \<lparr>storage_endpoint = ''http://s3'', storage_region = ''eu'', storage_path_style = True,
     storage_allow_http = True, storage_credentials = WorkerDefault\<rparr>"

definition example_builder :: scan_task_builder where
  "example_builder = with_byte_range 0 100 (builder ''frag'' [''s3://b/f''] example_storage)"

definition example_json :: ticket_json where
  "example_json = \<lparr>to_vec = (\<lambda>t. Ok [7]), from_slice = (\<lambda>bs. if bs = [7] then Ok (build example_builder) else Err ''eof''),
     input_keys = (\<lambda>bs. Ok (Some [''version''])), task_keys = (\<lambda>t. Ok (Some [''version'']))\<rparr>"

theorem ticket_version_gate_witness:
  "to_bytes example_json (build example_builder) = Ok [7] \<and>
   decode_for_worker example_json [7] SCAN_TASK_VERSION_CURRENT = Ok (build example_builder) \<and>
   (\<exists>e. decode_for_worker example_json [7] 1 = Err e)"
proof -
  have "from_slice example_json [7] = Ok (build example_builder)"
    "to_vec example_json (build example_builder) = Ok [7]"
    "input_keys example_json [7] = task_keys example_json (build example_builder)"
    "task_keys example_json (build example_builder) = Ok (Some [''version''])"
    by (simp_all add: example_json_def)
  note gate = ticket_version_gate [OF this]
  have "understands SCAN_TASK_VERSION_CURRENT example_builder" "\<not> understands 1 example_builder"
    by (simp_all add: understands_def scan_version_defs example_builder_def builder_defs is_morsel_def word_le_nat_alt)
  then show ?thesis using gate [of "[7]" SCAN_TASK_VERSION_CURRENT] gate [of "[7]" 1] by blast
qed

end
