(* ===== verification/Scheduler.thy ===== *)
theory Scheduler
  imports Scan_Task
begin

text \<open>
  The fragment scheduler (\<open>sqe-coordinator/src/scheduler.rs\<close>): scan tasks go, largest first, to the
  worker their files hash to, unless that worker is more than a fifth above the least loaded one. Loads
  and hashes are \<open>u64\<close> and wrap. The indexing and the \<open>expect\<close> calls of the source are \<open>Panic\<close> branches of
  the model; the lemmas show that none is reached, that every task is assigned exactly once to a healthy
  worker, and how far the loads can drift apart.
\<close>

record worker_info =
  url :: string
  healthy :: bool
  in_flight_load :: u64

record assignment =
  task_index :: usize
  worker_url :: string

definition estimate_cost :: "scan_task \<Rightarrow> u64" where
  "estimate_cost task =
     (let total_bytes = sum_list (file_sizes_bytes task) in
      if 0 < total_bytes then max (total_bytes div (1024 * 1024)) 1
      else max (of_nat (length (data_file_paths task))) 1)"

definition hash_bytes :: "u64 \<Rightarrow> string \<Rightarrow> u64" where
  "hash_bytes hash bytes = foldl (\<lambda>hash byte. hash * 31 + of_char byte) hash bytes * 31"

definition preferred_worker :: "string list \<Rightarrow> usize \<Rightarrow> usize" where
  "preferred_worker paths num_workers =
     (if num_workers = 0 \<or> paths = [] then 0
      else let hash = foldl hash_bytes 0 paths;
               hash = hash * 31 + of_nat (length paths)
           in unat hash mod num_workers)"

text \<open>The loop state: the load and the index of each healthy worker, and the assignments made.\<close>

type_synonym schedule_state = "(u64 \<times> usize) list \<times> assignment option list"

definition choose_worker :: "scan_task \<Rightarrow> usize \<Rightarrow> (u64 \<times> usize) list \<Rightarrow> usize \<Rightarrow> usize" where
  "choose_worker task num_healthy loads min_pos =
     (let preferred = preferred_worker (data_file_paths task) num_healthy;
          preferred_load = fst (loads ! preferred);
          min_load = fst (loads ! min_pos);
          threshold = min_load + max (min_load div 5) 1
      in if preferred_load \<le> threshold then preferred else min_pos)"

definition assign_task ::
    "scan_task list \<Rightarrow> worker_info list \<Rightarrow> usize \<times> u64 \<Rightarrow> schedule_state \<Rightarrow> (sqe_error, schedule_state) outcome" where
  "assign_task tasks healthy_ws = (\<lambda>(task_idx, cost) (loads, assignments).
     case min_by_key (\<lambda>pos. fst (loads ! pos)) [0..<length loads] of
       None \<Rightarrow> Panic
     | Some min_pos \<Rightarrow>
         if task_idx \<ge> length tasks \<or> task_idx \<ge> length assignments \<or>
            preferred_worker (data_file_paths (tasks ! task_idx)) (length healthy_ws) \<ge> length loads then Panic
         else
           let chosen = choose_worker (tasks ! task_idx) (length healthy_ws) loads min_pos;
               worker_idx = snd (loads ! chosen)
           in if worker_idx \<ge> length healthy_ws then Panic
              else Ok (loads[chosen := (fst (loads ! chosen) + cost, worker_idx)],
                assignments[task_idx := Some \<lparr>task_index = task_idx, worker_url = url (healthy_ws ! worker_idx)\<rparr>]))"

fun assign_tasks ::
    "scan_task list \<Rightarrow> worker_info list \<Rightarrow> (usize \<times> u64) list \<Rightarrow> schedule_state \<Rightarrow>
      (sqe_error, schedule_state) outcome" where
  "assign_tasks tasks healthy_ws [] st = Ok st"
| "assign_tasks tasks healthy_ws (t # ts) st =
     obind (assign_task tasks healthy_ws t st) (assign_tasks tasks healthy_ws ts)"

definition assign :: "scan_task list \<Rightarrow> worker_info list \<Rightarrow> (sqe_error, assignment list option) outcome" where
  "assign tasks workers =
     (let healthy_ws = filter healthy workers in
      if healthy_ws = [] then Ok None
      else if tasks = [] then Ok (Some [])
      else
        let loads = map (\<lambda>i. (in_flight_load (healthy_ws ! i), i)) [0..<length healthy_ws];
            indexed_tasks = sort_by_key_reverse snd (map (\<lambda>i. (i, estimate_cost (tasks ! i))) [0..<length tasks])
        in obind (assign_tasks tasks healthy_ws indexed_tasks (loads, replicate (length tasks) None))
             (\<lambda>(loads, assignments).
                if None \<in> set assignments then Panic else Ok (Some (map the assignments))))"

section \<open>Every task goes to one healthy worker\<close>

lemma preferred_worker_less: "0 < n \<Longrightarrow> preferred_worker paths n < n"
  by (simp add: preferred_worker_def Let_def)

lemma estimate_cost_pos: "1 \<le> estimate_cost t"
  by (simp add: estimate_cost_def Let_def)

definition state_ok :: "scan_task list \<Rightarrow> worker_info list \<Rightarrow> usize set \<Rightarrow> schedule_state \<Rightarrow> bool" where
  "state_ok tasks hw pending = (\<lambda>(loads, assignments).
     length loads = length hw \<and> map snd loads = [0..<length hw] \<and> length assignments = length tasks \<and>
     (\<forall>i < length tasks. if i \<in> pending then assignments ! i = None
        else \<exists>w \<in> set hw. assignments ! i = Some \<lparr>task_index = i, worker_url = url w\<rparr>))"

text \<open>One step: which worker is chosen and what it does to the state.\<close>

lemma assign_task_step:
  assumes "state_ok tasks hw pending (loads, asg)" "hw \<noteq> []" "i < length tasks"
  shows "\<exists>p k. p < length hw \<and> k < length hw \<and> (\<forall>j < length hw. fst (loads ! p) \<le> fst (loads ! j)) \<and>
    (k = p \<or> fst (loads ! k) \<le> fst (loads ! p) + max (fst (loads ! p) div 5) 1) \<and>
    assign_task tasks hw (i, c) (loads, asg) = Ok (loads[k := (fst (loads ! k) + c, k)],
      asg[i := Some \<lparr>task_index = i, worker_url = url (hw ! k)\<rparr>])"
proof -
  have len: "length loads = length hw" "length asg = length tasks" and idx: "map snd loads = [0..<length hw]"
    using assms(1) by (simp_all add: state_ok_def)
  obtain p where p: "min_by_key (\<lambda>pos. fst (loads ! pos)) [0..<length loads] = Some p"
    using min_by_key_exists [of "[0..<length loads]" "\<lambda>pos. fst (loads ! pos)"] assms(2) len by auto
  from min_by_key_Some [OF p] have pmin: "p < length hw" "\<forall>j < length hw. fst (loads ! p) \<le> fst (loads ! j)"
    using len by auto
  define k where "k = choose_worker (tasks ! i) (length hw) loads p"
  have k: "k < length hw" "k = p \<or> fst (loads ! k) \<le> fst (loads ! p) + max (fst (loads ! p) div 5) 1"
    using pmin(1) preferred_worker_less [of "length hw" "data_file_paths (tasks ! i)"] assms(2)
    by (auto simp: k_def choose_worker_def Let_def)
  have "snd (loads ! k) = k" using arg_cong [OF idx, of "\<lambda>xs. xs ! k"] k(1) len by simp
  then have "assign_task tasks hw (i, c) (loads, asg) = Ok (loads[k := (fst (loads ! k) + c, k)],
      asg[i := Some \<lparr>task_index = i, worker_url = url (hw ! k)\<rparr>])"
    using p k(1) assms(2,3) len preferred_worker_less [of "length hw" "data_file_paths (tasks ! i)"]
    by (simp add: assign_task_def Let_def k_def [symmetric] not_le)
  with pmin k show ?thesis by blast
qed

lemma state_ok_step:
  assumes "state_ok tasks hw (insert i pending) (loads, asg)" "i \<notin> pending" "k < length hw" "i < length tasks"
  shows "state_ok tasks hw pending (loads[k := (c, k)], asg[i := Some \<lparr>task_index = i, worker_url = url (hw ! k)\<rparr>])"
proof -
  have "map snd (loads[k := (c, k)]) = [0..<length hw]"
    using assms(1,3) by (simp add: state_ok_def map_update list_update_same_conv)
  with assms show ?thesis by (auto simp: state_ok_def nth_list_update)
qed

lemma assign_tasks_Ok:
  assumes "hw \<noteq> []"
  shows "state_ok tasks hw (fst ` set ts) st \<Longrightarrow> distinct (map fst ts) \<Longrightarrow> fst ` set ts \<subseteq> {..<length tasks} \<Longrightarrow>
    \<exists>st'. assign_tasks tasks hw ts st = Ok st' \<and> state_ok tasks hw {} st'"
proof (induction ts arbitrary: st)
  case (Cons t ts)
  obtain i c where t: "t = (i, c)" by (cases t)
  obtain loads asg where st: "st = (loads, asg)" by (cases st)
  from Cons.prems t st have ok: "state_ok tasks hw (insert i (fst ` set ts)) (loads, asg)"
    and i: "i < length tasks" "i \<notin> fst ` set ts" by auto
  from assign_task_step [OF ok assms i(1), of c] obtain k where k: "k < length hw"
    "assign_task tasks hw (i, c) (loads, asg) = Ok (loads[k := (fst (loads ! k) + c, k)],
      asg[i := Some \<lparr>task_index = i, worker_url = url (hw ! k)\<rparr>])" by blast
  from Cons.IH [OF state_ok_step [OF ok i(2) k(1) i(1)]] Cons.prems show ?case
    by (simp add: t st k(2))
qed simp

abbreviation indexed_costs :: "scan_task list \<Rightarrow> (usize \<times> u64) list" where
  "indexed_costs tasks \<equiv> sort_by_key_reverse snd (map (\<lambda>i. (i, estimate_cost (tasks ! i))) [0..<length tasks])"

abbreviation initial_state :: "scan_task list \<Rightarrow> worker_info list \<Rightarrow> schedule_state" where
  "initial_state tasks hw \<equiv>
     (map (\<lambda>i. (in_flight_load (hw ! i), i)) [0..<length hw], replicate (length tasks) None)"

lemma indexed_costs:
  "set (indexed_costs tasks) = {(i, estimate_cost (tasks ! i)) | i. i < length tasks}"
  "distinct (map fst (indexed_costs tasks))"
  "fst ` set (indexed_costs tasks) = {..<length tasks}"
  by (auto simp: sort_by_key_reverse_def distinct_map inj_on_def image_iff)

lemma initial_state_ok: "state_ok tasks hw (fst ` set (indexed_costs tasks)) (initial_state tasks hw)"
  unfolding indexed_costs(3) by (simp add: state_ok_def comp_def)

lemma assign_runs:
  assumes "filter healthy workers \<noteq> []" "tasks \<noteq> []"
  obtains loads asg where
    "assign_tasks tasks (filter healthy workers) (indexed_costs tasks) (initial_state tasks (filter healthy workers)) =
       Ok (loads, asg)"
    "state_ok tasks (filter healthy workers) {} (loads, asg)" "None \<notin> set asg"
    "assign tasks workers = Ok (Some (map the asg))"
proof -
  from assign_tasks_Ok [OF assms(1) initial_state_ok indexed_costs(2), of tasks] obtain loads asg where
    run: "assign_tasks tasks (filter healthy workers) (indexed_costs tasks) (initial_state tasks (filter healthy workers)) =
       Ok (loads, asg)" "state_ok tasks (filter healthy workers) {} (loads, asg)"
    by (auto simp: indexed_costs(3))
  then have "None \<notin> set asg" by (fastforce simp: state_ok_def in_set_conv_nth)
  with run assms show ?thesis by (intro that) (simp_all add: assign_def Let_def)
qed

lemma assign_healthy:
  assumes "w \<in> set workers" "healthy w"
  shows "\<exists>as. assign tasks workers = Ok (Some as) \<and> map task_index as = [0..<length tasks] \<and>
     list_all (\<lambda>a. \<exists>w. w \<in> set workers \<and> healthy w \<and> url w = worker_url a) as"
proof (cases "tasks = []")
  case True
  with assms show ?thesis by (auto simp: assign_def Let_def filter_empty_conv)
next
  case False
  have ne: "filter healthy workers \<noteq> []" using assms by (auto simp: filter_empty_conv)
  obtain loads asg where
    st: "assign_tasks tasks (filter healthy workers) (indexed_costs tasks) (initial_state tasks (filter healthy workers)) =
       Ok (loads, asg)" "state_ok tasks (filter healthy workers) {} (loads, asg)" "None \<notin> set asg"
      "assign tasks workers = Ok (Some (map the asg))"
    by (rule assign_runs [OF ne False])
  have "map task_index (map the asg) = [0..<length tasks]"
    using st(2) by (fastforce simp: state_ok_def intro!: nth_equalityI)
  moreover have "list_all (\<lambda>a. \<exists>w. w \<in> set workers \<and> healthy w \<and> url w = worker_url a) (map the asg)"
    using st(2) by (fastforce simp: state_ok_def list_all_length)
  ultimately show ?thesis using st(4) by auto
qed

text \<open>
  C28: Scheduling never panics, and never loses or repeats a task. With no healthy worker it reports
  that there is none; otherwise its result has exactly one assignment per task, in task order, each to a
  worker of the input that is healthy.
\<close>

theorem assign_complete:
  "if \<exists>w. w \<in> set workers \<and> healthy w
   then \<exists>as. assign tasks workers = Ok (Some as) \<and> map task_index as = [0..<length tasks] \<and>
     list_all (\<lambda>a. \<exists>w. w \<in> set workers \<and> healthy w \<and> url w = worker_url a) as
   else assign tasks workers = Ok None"
proof (cases "\<exists>w. w \<in> set workers \<and> healthy w")
  case True
  then show ?thesis using assign_healthy [of _ workers tasks] by auto
next
  case False
  then show ?thesis by (auto simp: assign_def Let_def filter_empty_conv)
qed

section \<open>How far loads drift apart\<close>

text \<open>The load of a worker once the given assignments are in flight.\<close>

definition load_after :: "scan_task list \<Rightarrow> assignment option list \<Rightarrow> worker_info \<Rightarrow> nat" where
  "load_after tasks asg w = unat (in_flight_load w) +
     (\<Sum>i<length tasks. case asg ! i of
        Some a \<Rightarrow> if worker_url a = url w then unat (estimate_cost (tasks ! i)) else 0 | None \<Rightarrow> 0)"

definition load_limit :: "scan_task list \<Rightarrow> worker_info list \<Rightarrow> bool" where
  "load_limit tasks hw \<longleftrightarrow>
     list_all (\<lambda>w. unat (in_flight_load w) + (\<Sum>t\<leftarrow>tasks. unat (estimate_cost t)) < 2 ^ 63) hw"

text \<open>
  The bound: a worker that got a task is above any other worker by at most a fifth of the other's load
  (at least 1) plus the cost \<open>C\<close> of one task.
\<close>

definition within_reach :: "nat \<Rightarrow> nat \<Rightarrow> nat \<Rightarrow> bool" where
  "within_reach C l l' \<longleftrightarrow> l \<le> l' + max (l' div 5) 1 + C"

lemma within_reach_mono: "within_reach C l a \<Longrightarrow> a \<le> b \<Longrightarrow> within_reach C l b"
  unfolding within_reach_def using div_le_mono [of a b 5] by linarith

lemma load_after_step:
  assumes "asg ! i = None" "i < length tasks" "length asg = length tasks"
  shows "load_after tasks (asg[i := Some a]) w =
    load_after tasks asg w + (if worker_url a = url w then unat (estimate_cost (tasks ! i)) else 0)"
proof -
  let ?f = "\<lambda>asg j. case asg ! j of
      Some a \<Rightarrow> if worker_url a = url w then unat (estimate_cost (tasks ! j)) else 0 | None \<Rightarrow> 0"
  have "(\<Sum>j<length tasks. ?f (asg[i := Some a]) j) =
      (\<Sum>j<length tasks. ?f asg j + (if j = i then ?f (asg[i := Some a]) i else 0))"
    using assms by (intro sum.cong) (auto simp: nth_list_update)
  also have "\<dots> = (\<Sum>j<length tasks. ?f asg j) + ?f (asg[i := Some a]) i"
    using assms(2) by (simp add: sum.distrib)
  finally show ?thesis using assms by (simp add: load_after_def)
qed

lemma load_after_bound:
  assumes "load_limit tasks hw" "w \<in> set hw"
  shows "load_after tasks asg w < 2 ^ 63"
proof -
  have "(\<Sum>i<length tasks. case asg ! i of
      Some a \<Rightarrow> if worker_url a = url w then unat (estimate_cost (tasks ! i)) else 0 | None \<Rightarrow> 0) \<le>
      (\<Sum>i<length tasks. unat (estimate_cost (tasks ! i)))"
    by (intro sum_mono) (auto split: option.splits)
  also have "\<dots> = (\<Sum>t\<leftarrow>tasks. unat (estimate_cost t))"
    by (simp add: sum_list_sum_nth atLeast0LessThan)
  finally show ?thesis using assms by (auto simp: load_after_def load_limit_def list_all_iff)
qed

lemma unat_threshold:
  assumes "unat (m :: u64) < 2 ^ 63"
  shows "unat (m + max (m div 5) 1) = unat m + max (unat m div 5) 1"
proof -
  have "unat (max (m div 5) 1) = max (unat m div 5) 1"
    by (simp add: max_def word_le_nat_alt unat_div)
  moreover have "unat m + max (unat m div 5) 1 < 2 ^ 64"
    using assms div_le_dividend [of "unat m" 5] by (simp add: max_def) linarith
  ultimately show ?thesis by (simp add: unat_word_ariths)
qed

text \<open>
  The loop keeps, beside \<open>state_ok\<close>: the loads it tracks are the loads the assignments give, and every
  worker that has a task is within reach of every other worker.
\<close>

definition balanced :: "nat \<Rightarrow> scan_task list \<Rightarrow> worker_info list \<Rightarrow> schedule_state \<Rightarrow> bool" where
  "balanced C tasks hw = (\<lambda>(loads, asg).
     (\<forall>k < length hw. unat (fst (loads ! k)) = load_after tasks asg (hw ! k)) \<and>
     (\<forall>k < length hw. \<forall>j < length hw. (\<exists>a. Some a \<in> set asg \<and> worker_url a = url (hw ! k)) \<longrightarrow>
        within_reach C (load_after tasks asg (hw ! k)) (load_after tasks asg (hw ! j))))"

lemma balancedD:
  "balanced C tasks hw (loads, asg) \<Longrightarrow> k < length hw \<Longrightarrow> j < length hw \<Longrightarrow> Some a \<in> set asg \<Longrightarrow>
   worker_url a = url (hw ! k) \<Longrightarrow>
   within_reach C (load_after tasks asg (hw ! k)) (load_after tasks asg (hw ! j))"
  by (auto simp: balanced_def)

lemma balanced_step:
  assumes ok: "state_ok tasks hw (insert i pending) (loads, asg)" and bal: "balanced C tasks hw (loads, asg)"
    and i: "i < length tasks" and lim: "load_limit tasks hw" and dist: "distinct (map url hw)"
    and C: "unat (estimate_cost (tasks ! i)) \<le> C"
    and p: "p < length hw" "\<forall>j < length hw. fst (loads ! p) \<le> fst (loads ! j)"
    and k: "k < length hw" "k = p \<or> fst (loads ! k) \<le> fst (loads ! p) + max (fst (loads ! p) div 5) 1"
  defines "asg' \<equiv> asg[i := Some \<lparr>task_index = i, worker_url = url (hw ! k)\<rparr>]"
  shows "balanced C tasks hw (loads[k := (fst (loads ! k) + estimate_cost (tasks ! i), k)], asg')"
proof -
  let ?L = "\<lambda>j. load_after tasks asg (hw ! j)" and ?L' = "\<lambda>j. load_after tasks asg' (hw ! j)"
  have len: "length loads = length hw" "length asg = length tasks" and free: "asg ! i = None"
    using ok i by (auto simp: state_ok_def)
  have L: "unat (fst (loads ! j)) = ?L j" if "j < length hw" for j
    using bal that by (simp add: balanced_def)
  have url_eq: "url (hw ! k) = url (hw ! j) \<longleftrightarrow> j = k" if "j < length hw" for j
    using nth_eq_iff_index_eq [OF dist, of k j] k(1) that by auto
  have L': "?L' j = ?L j + (if j = k then unat (estimate_cost (tasks ! i)) else 0)" if "j < length hw" for j
    using load_after_step [OF free i len(2), of "\<lparr>task_index = i, worker_url = url (hw ! k)\<rparr>" "hw ! j"] url_eq [OF that]
    by (simp add: asg'_def)
  have small: "?L' j < 2 ^ 63" "?L j < 2 ^ 63" if "j < length hw" for j
    using load_after_bound [OF lim] that by simp_all
  have low: "?L p \<le> ?L j" if "j < length hw" for j
    using p(2) [rule_format, OF that] L [OF that] L [OF p(1)] by (simp add: word_le_nat_alt)
  have "?L k \<le> ?L p + max (?L p div 5) 1"
    using k(2) L [OF k(1)] L [OF p(1)] unat_threshold [of "fst (loads ! p)"] small(2) [OF p(1)]
    by (auto simp: word_le_nat_alt)
  then have reach_k: "within_reach C (?L' k) (?L p)" using C L' [OF k(1)] by (simp add: within_reach_def)
  have loads': "unat (fst (loads[k := (fst (loads ! k) + estimate_cost (tasks ! i), k)] ! j)) = ?L' j"
    if "j < length hw" for j
    using L' [OF that] L [OF that] small(1) [OF that] len(1) k(1) by (cases "j = k") (simp_all add: unat_word_ariths)
  have grows: "?L j \<le> ?L' j" if "j < length hw" for j using L' [OF that] by simp
  have "within_reach C (?L' m) (?L' j)"
    if "m < length hw" "j < length hw" "Some a \<in> set asg'" "worker_url a = url (hw ! m)" for m j a
  proof (cases "m = k")
    case True
    then show ?thesis
      using within_reach_mono [OF reach_k] low [OF that(2)] grows [OF that(2)] by simp
  next
    case False
    then have "Some a \<in> set asg"
      using that(3,4) url_eq [OF that(1)] by (auto simp: asg'_def dest!: subsetD [OF set_update_subset_insert])
    then have "within_reach C (?L m) (?L j)" using bal that by (auto simp: balanced_def)
    then show ?thesis using within_reach_mono grows [OF that(2)] L' [OF that(1)] False by simp
  qed
  with loads' show ?thesis by (auto simp: balanced_def)
qed

lemma assign_tasks_balanced:
  assumes "hw \<noteq> []" "load_limit tasks hw" "distinct (map url hw)"
    and "\<forall>t \<in> set tasks. unat (estimate_cost t) \<le> C"
  shows "assign_tasks tasks hw ts st = Ok st' \<Longrightarrow> state_ok tasks hw (fst ` set ts) st \<Longrightarrow>
    balanced C tasks hw st \<Longrightarrow> distinct (map fst ts) \<Longrightarrow>
    set ts \<subseteq> {(i, estimate_cost (tasks ! i)) | i. i < length tasks} \<Longrightarrow> balanced C tasks hw st'"
proof (induction ts arbitrary: st)
  case (Cons t ts)
  obtain i where t: "t = (i, estimate_cost (tasks ! i))" "i < length tasks" using Cons.prems(5) by auto
  obtain loads asg where st: "st = (loads, asg)" by (cases st)
  from Cons.prems t st have ok: "state_ok tasks hw (insert i (fst ` set ts)) (loads, asg)"
    and i: "i \<notin> fst ` set ts" by auto
  from assign_task_step [OF ok assms(1) t(2), of "estimate_cost (tasks ! i)"] obtain p k where
    p: "p < length hw" "\<forall>j < length hw. fst (loads ! p) \<le> fst (loads ! j)"
    and k: "k < length hw" "k = p \<or> fst (loads ! k) \<le> fst (loads ! p) + max (fst (loads ! p) div 5) 1"
    and step: "assign_task tasks hw (i, estimate_cost (tasks ! i)) (loads, asg) =
      Ok (loads[k := (fst (loads ! k) + estimate_cost (tasks ! i), k)],
        asg[i := Some \<lparr>task_index = i, worker_url = url (hw ! k)\<rparr>])" by blast
  have "unat (estimate_cost (tasks ! i)) \<le> C" using assms(4) t(2) by simp
  from balanced_step [OF ok Cons.prems(3) [unfolded st] t(2) assms(2,3) this p k]
    state_ok_step [OF ok i k(1) t(2)] Cons show ?case by (simp add: t st step)
qed simp

text \<open>
  C29: Affinity costs little balance. Where worker urls are distinct and no load comes near \<open>2^63\<close>, every
  worker that got a task ends up no further above any other healthy worker than a fifth of that worker's
  load (at least 1) plus the cost of the most expensive task; loads count what was in flight before and
  the estimated cost of every task assigned.
\<close>

theorem assign_balanced:
  assumes "assign tasks workers = Ok (Some as)"
    and "distinct (map url (filter healthy workers))" and "load_limit tasks (filter healthy workers)"
    and "list_all (\<lambda>t. unat (estimate_cost t) \<le> C) tasks"
    and "a \<in> set as" and "w \<in> set workers" "healthy w" "url w = worker_url a"
    and "w' \<in> set workers" "healthy w'"
  shows "load_after tasks (map Some as) w \<le>
    load_after tasks (map Some as) w' + max (load_after tasks (map Some as) w' div 5) 1 + C"
proof -
  let ?hw = "filter healthy workers"
  have ne: "?hw \<noteq> []" "tasks \<noteq> []" using assms by (auto simp: assign_def Let_def filter_empty_conv split: if_splits)
  obtain loads asg where
    run: "assign_tasks tasks ?hw (indexed_costs tasks) (initial_state tasks ?hw) = Ok (loads, asg)"
      "state_ok tasks ?hw {} (loads, asg)" "None \<notin> set asg" "assign tasks workers = Ok (Some (map the asg))"
    by (rule assign_runs [OF ne])
  have "map the asg = as" using run(4) assms(1) by simp
  moreover have "map (\<lambda>x. Some (the x)) asg = map id asg"
    using run(3) by (intro map_cong) (auto, metis option.collapse)
  ultimately have as: "asg = map Some as" by (auto simp: comp_def)
  have init: "balanced C tasks ?hw (initial_state tasks ?hw)"
    by (auto simp: balanced_def load_after_def)
  have bal: "balanced C tasks ?hw (loads, asg)"
    using assign_tasks_balanced [OF ne(1) assms(3,2) _ run(1) initial_state_ok init indexed_costs(2)] assms(4)
    by (simp add: indexed_costs(1) list_all_iff)
  have "w \<in> set ?hw" "w' \<in> set ?hw" using assms(6,7,9,10) by simp_all
  then obtain k j where kj: "k < length ?hw" "?hw ! k = w" "j < length ?hw" "?hw ! j = w'"
    unfolding in_set_conv_nth by blast
  have "Some a \<in> set asg" using assms(5) by (simp add: as)
  from balancedD [OF bal kj(1,3) this] have "within_reach C (load_after tasks asg w) (load_after tasks asg w')"
    by (simp add: kj assms(8))
  then show ?thesis by (simp add: as within_reach_def)
qed

definition example_tasks :: "scan_task list" where
  "example_tasks =
     [build (with_file_sizes [52428800] (builder ''t0'' [''a''] example_storage)),
      build (with_file_sizes [104857600] (builder ''t1'' [''b''] example_storage))]"

definition example_workers :: "worker_info list" where
  "example_workers =
     [\<lparr>url = ''w0'', healthy = True, in_flight_load = 10\<rparr>, \<lparr>url = ''w1'', healthy = False, in_flight_load = 0\<rparr>,
      \<lparr>url = ''w2'', healthy = True, in_flight_load = 30\<rparr>]"

lemma example_costs: "map estimate_cost example_tasks = [50, 100]"
  by (simp add: example_tasks_def estimate_cost_def builder_defs Let_def)

lemma example_preferred:
  "preferred_worker [''a''] (Suc (Suc 0)) = 0" "preferred_worker [''b''] (Suc (Suc 0)) = 1"
  by (simp_all add: preferred_worker_def hash_bytes_def Let_def flip: numeral_2_eq_2)

lemma example_assign: "assign example_tasks example_workers =
    Ok (Some [\<lparr>task_index = 0, worker_url = ''w2''\<rparr>, \<lparr>task_index = 1, worker_url = ''w0''\<rparr>])"
  by (simp add: assign_def example_workers_def example_tasks_def estimate_cost_def builder_defs Let_def
      sort_by_key_reverse_def upt_conv_Cons assign_task_def choose_worker_def example_preferred)

theorem assign_balanced_witness:
  "load_after example_tasks (map Some [\<lparr>task_index = 0, worker_url = ''w2''\<rparr>, \<lparr>task_index = 1, worker_url = ''w0''\<rparr>])
     \<lparr>url = ''w0'', healthy = True, in_flight_load = 10\<rparr> = 110 \<and>
   110 \<le> 80 + max (80 div 5) 1 + (100 :: nat)"
proof -
  let ?as = "[\<lparr>task_index = 0, worker_url = ''w2''\<rparr>, \<lparr>task_index = 1, worker_url = ''w0''\<rparr>]"
  let ?w0 = "\<lparr>url = ''w0'', healthy = True, in_flight_load = 10\<rparr>"
  let ?w2 = "\<lparr>url = ''w2'', healthy = True, in_flight_load = 30\<rparr>"
  have costs: "estimate_cost (example_tasks ! 0) = 50" "estimate_cost (example_tasks ! 1) = 100"
    "length example_tasks = 2"
    by (simp_all add: example_tasks_def estimate_cost_def builder_defs Let_def)
  have loads: "load_after example_tasks (map Some ?as) ?w0 = 110" "load_after example_tasks (map Some ?as) ?w2 = 80"
    using costs by (simp_all add: load_after_def lessThan_nat_numeral lessThan_Suc)
  have "list_all (\<lambda>t. unat (estimate_cost t) \<le> 100) example_tasks"
    "load_limit example_tasks (filter healthy example_workers)"
    by (simp_all add: example_tasks_def example_workers_def estimate_cost_def builder_defs Let_def load_limit_def)
  then show ?thesis
    using assign_balanced [OF example_assign, of 100 "\<lparr>task_index = 1, worker_url = ''w0''\<rparr>" ?w0 ?w2] loads
    by (simp add: example_workers_def)
qed

end
