(* ===== verification/Bin_Packing.thy ===== *)
theory Bin_Packing
  imports Sqe_Error "HOL-Library.Multiset"
begin

text \<open>
  Bin packing of scan units into tasks (\<open>sqe-planner/src/splitter.rs\<close>). A unit is a name with a size;
  the largest go first, each to the emptiest bin it still fits, else to a new bin, else, once
  \<open>max_bins\<close> bins exist, to the emptiest bin. The lemmas show that packing is a partition of the units
  for every input, and how far a bin may exceed the target. The function returns no \<open>Result\<close>; its model
  has one, in the caller's error type, to tell a panic apart.
\<close>

type_synonym pack_unit = "string \<times> u64"
type_synonym bin = "u64 \<times> pack_unit list"

definition add_to_bin :: "usize \<Rightarrow> pack_unit \<Rightarrow> bin list \<Rightarrow> bin list" where
  "add_to_bin idx f bins = bins[idx := (fst (bins ! idx) + snd f, snd (bins ! idx) @ [f])]"

definition best_fit :: "u64 \<Rightarrow> u64 \<Rightarrow> bin list \<Rightarrow> usize option" where
  "best_fit target sz bins = min_by_key (\<lambda>i. fst (bins ! i))
     (filter (\<lambda>i. fst (bins ! i) + sz \<le> target) [0..<length bins])"

definition smallest_bin :: "bin list \<Rightarrow> usize option" where
  "smallest_bin bins = min_by_key (\<lambda>i. fst (bins ! i)) [0..<length bins]"

definition pack_file :: "u64 \<Rightarrow> usize \<Rightarrow> bin list \<Rightarrow> pack_unit \<Rightarrow> (sqe_error, bin list) outcome" where
  "pack_file target max_bins bins f =
     (case best_fit target (snd f) bins of
        Some idx \<Rightarrow> Ok (add_to_bin idx f bins)
      | None \<Rightarrow>
          if length bins < max_bins then Ok (bins @ [(snd f, [f])])
          else case smallest_bin bins of
            Some idx \<Rightarrow> Ok (add_to_bin idx f bins)
          | None \<Rightarrow> Panic)"

fun pack_files :: "u64 \<Rightarrow> usize \<Rightarrow> pack_unit list \<Rightarrow> bin list \<Rightarrow> (sqe_error, bin list) outcome" where
  "pack_files target max_bins [] bins = Ok bins"
| "pack_files target max_bins (f # fs) bins =
     obind (pack_file target max_bins bins f) (pack_files target max_bins fs)"

definition bin_pack_files :: "pack_unit list \<Rightarrow> u64 \<Rightarrow> usize \<Rightarrow> (sqe_error, pack_unit list list) outcome" where
  "bin_pack_files fs target_size_bytes max_bins =
     (if fs = [] \<or> max_bins = 0 then Ok []
      else obind (pack_files target_size_bytes max_bins (sort_by_key_reverse snd fs) [])
        (\<lambda>bins. Ok (map snd bins)))"

section \<open>Packing is a partition\<close>

definition units_of :: "bin list \<Rightarrow> pack_unit multiset" where
  "units_of bins = mset (concat (map snd bins))"

definition sizes :: "pack_unit list \<Rightarrow> nat" where
  "sizes fs = (\<Sum>f\<leftarrow>fs. unat (snd f))"

text \<open>Bins are non-empty and at most \<open>max_bins\<close>.\<close>

definition bins_ok :: "usize \<Rightarrow> bin list \<Rightarrow> bool" where
  "bins_ok max_bins bins \<longleftrightarrow> length bins \<le> max_bins \<and> (\<forall>b \<in> set bins. snd b \<noteq> [])"

text \<open>
  Totals are the true sizes, and a bin above the target is a single unit that is larger than the target
  by itself, unless all \<open>max_bins\<close> bins are in use.
\<close>

definition bins_sized :: "u64 \<Rightarrow> usize \<Rightarrow> bin list \<Rightarrow> bool" where
  "bins_sized target max_bins bins \<longleftrightarrow>
     (\<forall>b \<in> set bins. unat (fst b) = sizes (snd b) \<and>
        (fst b \<le> target \<or> length (snd b) = 1 \<or> length bins = max_bins))"

lemma smallest_bin_Some: "smallest_bin bins = Some i \<Longrightarrow> i < length bins"
  by (auto simp: smallest_bin_def dest: min_by_key_Some)

lemma best_fit_Some: "best_fit target sz bins = Some i \<Longrightarrow> i < length bins \<and> fst (bins ! i) + sz \<le> target"
  by (auto simp: best_fit_def dest: min_by_key_Some)

lemma units_of_add_to_bin: "i < length bins \<Longrightarrow> units_of (add_to_bin i f bins) = add_mset f (units_of bins)"
  by (induction bins arbitrary: i) (auto simp: units_of_def add_to_bin_def nth_Cons split: nat.splits)

lemma bins_ok_add_to_bin: "bins_ok m bins \<Longrightarrow> bins_ok m (add_to_bin i f bins)"
  by (auto simp: bins_ok_def add_to_bin_def dest!: subsetD [OF set_update_subset_insert])

lemma pack_file_Ok:
  assumes "0 < max_bins" "bins_ok max_bins bins"
  shows "\<exists>bins'. pack_file target max_bins bins f = Ok bins' \<and> bins_ok max_bins bins' \<and>
    units_of bins' = add_mset f (units_of bins)"
proof (cases "best_fit target (snd f) bins")
  case (Some i)
  then show ?thesis using assms best_fit_Some [OF Some]
    by (simp add: pack_file_def bins_ok_add_to_bin units_of_add_to_bin)
next
  case None
  show ?thesis
  proof (cases "length bins < max_bins")
    case True
    with None assms show ?thesis by (auto simp: pack_file_def bins_ok_def units_of_def)
  next
    case False
    with assms have "bins \<noteq> []" by auto
    then obtain i where i: "smallest_bin bins = Some i"
      using min_by_key_exists [of "[0..<length bins]" "\<lambda>i. fst (bins ! i)"] by (auto simp: smallest_bin_def)
    from smallest_bin_Some [OF this] False None i assms(2) show ?thesis
      by (simp add: pack_file_def bins_ok_add_to_bin units_of_add_to_bin)
  qed
qed

lemma pack_files_Ok:
  assumes "0 < max_bins"
  shows "bins_ok max_bins bins \<Longrightarrow> \<exists>bins'. pack_files target max_bins fs bins = Ok bins' \<and>
    bins_ok max_bins bins' \<and> units_of bins' = mset fs + units_of bins"
proof (induction fs arbitrary: bins)
  case (Cons f fs)
  from pack_file_Ok [OF assms Cons.prems, of target f] obtain b1 where
    "pack_file target max_bins bins f = Ok b1" "bins_ok max_bins b1" "units_of b1 = add_mset f (units_of bins)"
    by blast
  with Cons.IH [of b1] show ?case by auto
qed simp

lemma bin_pack_files_Ok:
  assumes "0 < max_bins"
  shows "\<exists>groups. bin_pack_files fs target max_bins = Ok groups \<and> mset (concat groups) = mset fs \<and>
    length groups \<le> max_bins \<and> [] \<notin> set groups"
proof (cases "fs = []")
  case False
  from pack_files_Ok [OF assms, of "[]" target "sort_by_key_reverse snd fs"] obtain bins where
    "pack_files target max_bins (sort_by_key_reverse snd fs) [] = Ok bins" "bins_ok max_bins bins"
    "units_of bins = mset fs" by (auto simp: bins_ok_def units_of_def sort_by_key_reverse_def)
  with False assms show ?thesis
    by (auto simp: bin_pack_files_def bins_ok_def units_of_def)
qed (simp add: bin_pack_files_def)

section \<open>How full a bin gets\<close>

lemma bins_sized_add:
  assumes "bins_sized target m bins" "i < length bins" "sizes (snd (bins ! i)) + unat (snd f) < 2 ^ 64"
    and "fst (bins ! i) + snd f \<le> target \<or> length bins = m"
  shows "bins_sized target m (add_to_bin i f bins)"
proof -
  have "unat (fst (bins ! i) + snd f) = sizes (snd (bins ! i) @ [f])"
    using assms(1-3) by (simp add: bins_sized_def sizes_def unat_word_ariths)
  with assms show ?thesis
    by (auto simp: bins_sized_def add_to_bin_def dest!: subsetD [OF set_update_subset_insert])
qed

lemma sizes_mset: "sizes fs = sum_mset (image_mset (\<lambda>f. unat (snd f)) (mset fs))"
  by (induction fs) (simp_all add: sizes_def)

lemma sizes_append [simp]: "sizes (xs @ ys) = sizes xs + sizes ys"
  by (simp add: sizes_def)

lemma sizes_Cons [simp]: "sizes (x # xs) = unat (snd x) + sizes xs"
  by (simp add: sizes_def)

lemma sizes_Nil [simp]: "sizes [] = 0"
  by (simp add: sizes_def)

lemma bin_sizes_le: "b \<in> set bins \<Longrightarrow> sizes (snd b) \<le> sizes (concat (map snd bins))"
  by (induction bins) auto

lemma pack_file_sized:
  assumes "pack_file target m bins f = Ok bins'" "bins_sized target m bins" "bins_ok m bins"
    and "sizes (concat (map snd bins)) + unat (snd f) < 2 ^ 64"
  shows "bins_sized target m bins'"
proof -
  have room: "sizes (snd (bins ! i)) + unat (snd f) < 2 ^ 64" if "i < length bins" for i
    using bin_sizes_le [of "bins ! i" bins] that assms(4) by simp
  show ?thesis
  proof (cases "best_fit target (snd f) bins")
    case (Some i)
    with assms(1) best_fit_Some [OF Some] show ?thesis
      by (auto simp: pack_file_def intro!: bins_sized_add [OF assms(2)] room)
  next
    case None
    show ?thesis
    proof (cases "length bins < m")
      case True
      with assms(1,2) None show ?thesis by (auto simp: pack_file_def bins_sized_def)
    next
      case False
      with assms(1) None obtain i where i: "smallest_bin bins = Some i" "bins' = add_to_bin i f bins"
        by (auto simp: pack_file_def split: option.splits)
      from False assms(3) have "length bins = m" by (simp add: bins_ok_def)
      with bins_sized_add [OF assms(2) smallest_bin_Some [OF i(1)] room [OF smallest_bin_Some [OF i(1)]]] i(2)
      show ?thesis by simp
    qed
  qed
qed

lemma pack_files_sized:
  assumes "0 < m"
  shows "pack_files target m fs bins = Ok bins' \<Longrightarrow> bins_sized target m bins \<Longrightarrow> bins_ok m bins \<Longrightarrow>
    sizes fs + sizes (concat (map snd bins)) < 2 ^ 64 \<Longrightarrow> bins_sized target m bins'"
proof (induction fs arbitrary: bins)
  case (Cons f fs)
  from pack_file_Ok [OF assms Cons.prems(3), of target f] obtain b1 where
    b1: "pack_file target m bins f = Ok b1" "bins_ok m b1" "units_of b1 = add_mset f (units_of bins)" by blast
  have "sizes (concat (map snd b1)) = sizes (concat (map snd bins)) + unat (snd f)"
    using b1(3) by (simp add: sizes_mset units_of_def)
  with b1 Cons show ?case
    by (intro Cons.IH [of b1]) (auto intro!: pack_file_sized [OF b1(1)])
qed simp

text \<open>
  C31: Packing loses no scan unit and repeats none. For every list of units (and at least one bin
  allowed) packing returns, it makes at most \<open>max_bins\<close> groups, none empty, and the groups together hold
  exactly the given units. Where the sizes add up to less than \<open>2^64\<close>, a group larger than the target is
  a single unit, unless all \<open>max_bins\<close> groups are in use.
\<close>

theorem bin_pack_files_partition:
  assumes "0 < max_bins"
  shows "\<exists>groups. bin_pack_files fs target max_bins = Ok groups \<and> mset (concat groups) = mset fs \<and>
    length groups \<le> max_bins \<and> [] \<notin> set groups \<and>
    (sizes fs < 2 ^ 64 \<longrightarrow> (\<forall>g \<in> set groups. sizes g \<le> unat target \<or> length g = 1 \<or> length groups = max_bins))"
proof (cases "fs = []")
  case False
  from pack_files_Ok [OF assms, of "[]" target "sort_by_key_reverse snd fs"] obtain bins where
    bins: "pack_files target max_bins (sort_by_key_reverse snd fs) [] = Ok bins" "bins_ok max_bins bins"
    "units_of bins = mset fs" by (auto simp: bins_ok_def units_of_def sort_by_key_reverse_def)
  then have groups: "bin_pack_files fs target max_bins = Ok (map snd bins)"
    using False assms by (simp add: bin_pack_files_def)
  have "bins_sized target max_bins bins" if "sizes fs < 2 ^ 64"
    using pack_files_sized [OF assms bins(1)] that
    by (simp add: bins_sized_def bins_ok_def sizes_mset sort_by_key_reverse_def)
  then have "sizes fs < 2 ^ 64 \<longrightarrow>
      (\<forall>b \<in> set bins. sizes (snd b) \<le> unat target \<or> length (snd b) = 1 \<or> length bins = max_bins)"
    by (metis bins_sized_def word_le_nat_alt)
  then show ?thesis using bins(2,3) groups
    by (intro exI [of _ "map snd bins"]) (auto simp: bins_ok_def units_of_def)
qed (simp add: bin_pack_files_def)

theorem bin_pack_files_partition_witness:
  "bin_pack_files [(''a'', 10), (''b'', 70), (''c'', 40), (''d'', 50)] 100 8 =
     Ok [[(''b'', 70), (''a'', 10)], [(''d'', 50), (''c'', 40)]] \<and>
   (\<exists>groups. bin_pack_files [(''a'', 10), (''b'', 70), (''c'', 40), (''d'', 50)] 100 8 = Ok groups \<and>
      mset (concat groups) = mset [(''a'', 10), (''b'', 70), (''c'', 40), (''d'', 50)])"
proof -
  have "bin_pack_files [(''a'', 10), (''b'', 70), (''c'', 40), (''d'', 50)] 100 8 =
     Ok [[(''b'', 70), (''a'', 10)], [(''d'', 50), (''c'', 40)]]"
    by code_simp
  then show ?thesis
    using bin_pack_files_partition [of 8 "[(''a'', 10), (''b'', 70), (''c'', 40), (''d'', 50)]" 100] by auto
qed

end
