(* ===== verification/Scan_Distribution.thy ===== *)
theory Scan_Distribution
  imports Scheduler Bin_Packing
begin

text \<open>
  Distributing an Iceberg scan: the load tracker of \<open>sqe-coordinator/src/worker_registry.rs\<close> and the
  task-building half of \<open>distribute_iceberg_scan\<close> in \<open>sqe-coordinator/src/query_handler.rs\<close>, which
  composes the morsel planner, the bin packer, the ticket builder and the scheduler. What the scan node
  provides (files, projection, predicate, encoded prunes) is input. Three things come from other
  crates and are parameters: the JSON encoding of the planner's delete tasks (\<open>enc\<close>), the supply of
  fresh UUIDs (\<open>now_v7\<close>, by number) and the opaque delete task itself (a type variable).
\<close>

section \<open>The load tracker\<close>

text \<open>Per worker url: fragments in flight and the load they carry.\<close>

type_synonym worker_load_tracker = "string \<rightharpoonup> u32 \<times> u64"

record reservation_guard =
  guard_url :: string
  guard_load :: u64

definition in_flight :: "worker_load_tracker \<Rightarrow> string \<Rightarrow> u32" where
  "in_flight tr u = (case tr u of Some (cnt, load) \<Rightarrow> cnt | None \<Rightarrow> 0)"

definition tracked_load :: "worker_load_tracker \<Rightarrow> string \<Rightarrow> u64" where
  "tracked_load tr u = (case tr u of Some (cnt, load) \<Rightarrow> load | None \<Rightarrow> 0)"

definition reserve_load :: "worker_load_tracker \<Rightarrow> string \<Rightarrow> u64 \<Rightarrow> reservation_guard \<times> worker_load_tracker" where
  "reserve_load tr u load =
     (let (c, l) = (case tr u of Some e \<Rightarrow> e | None \<Rightarrow> (0, 0))
      in (\<lparr>guard_url = u, guard_load = load\<rparr>, tr(u \<mapsto> (c + 1, l + load))))"

definition reserve :: "worker_load_tracker \<Rightarrow> string \<Rightarrow> reservation_guard \<times> worker_load_tracker" where
  "reserve tr u = reserve_load tr u 0"

definition u64_saturating_sub :: "u64 \<Rightarrow> u64 \<Rightarrow> u64" where
  "u64_saturating_sub a b = (if b \<le> a then a - b else 0)"

definition drop_guard :: "worker_load_tracker \<Rightarrow> reservation_guard \<Rightarrow> worker_load_tracker" where
  "drop_guard tr g =
     (case tr (guard_url g) of
        None \<Rightarrow> tr
      | Some (prev, load) \<Rightarrow>
          let cnt = (if prev = 0 then prev - 1 + 1 else prev - 1)
          in tr(guard_url g \<mapsto> (cnt, u64_saturating_sub load (guard_load g))))"

section \<open>From files to tickets\<close>

record scan_inputs =
  inp_projected_cols :: "string list"
  inp_field_ids :: "u32 list"
  inp_projection_fill :: "u8 list option"
  inp_variant_prunes :: "u8 list option"
  inp_predicate_proto :: "u8 list option"
  inp_scan_limit :: "usize option"
  inp_storage :: scan_storage
  inp_target_size_bytes :: u64

definition encode_deletes ::
    "('d list \<Rightarrow> (string, u8 list) outcome) \<Rightarrow> (string \<rightharpoonup> 'd) \<Rightarrow> string list \<Rightarrow> (sqe_error, u8 list option) outcome" where
  "encode_deletes enc dels paths =
     (let tasks = List.map_filter dels paths in
      if tasks = [] then Ok None
      else case enc tasks of
          Ok bytes \<Rightarrow> Ok (Some bytes)
        | Err e \<Rightarrow> Err (with_code InternalError (''encoding delete files for a scan task: '' @ e))
        | Panic \<Rightarrow> Panic)"

definition common_fields :: "scan_inputs \<Rightarrow> u8 list option \<Rightarrow> scan_task_builder \<Rightarrow> scan_task_builder" where
  "common_fields inp deletes t =
     with_limit (inp_scan_limit inp) (with_delete_tasks deletes
       (with_variant_prunes (inp_variant_prunes inp) (with_projection_fill (inp_projection_fill inp)
         (with_predicate_proto (inp_predicate_proto inp)
           (with_projection (inp_projected_cols inp) (inp_field_ids inp) t)))))"

definition whole_files_task ::
    "('d list \<Rightarrow> (string, u8 list) outcome) \<Rightarrow> scan_inputs \<Rightarrow> (string \<rightharpoonup> 'd) \<Rightarrow> string \<Rightarrow> scan_morsel list \<Rightarrow>
      (sqe_error, scan_task) outcome" where
  "whole_files_task enc inp dels uuid ms =
     (let paths = map m_file_path ms in
      obind (encode_deletes enc dels paths) (\<lambda>deletes.
      Ok (build (common_fields inp deletes
        (with_file_sizes (map m_file_size_bytes ms) (builder uuid paths (inp_storage inp)))))))"

definition range_task ::
    "('d list \<Rightarrow> (string, u8 list) outcome) \<Rightarrow> scan_inputs \<Rightarrow> (string \<rightharpoonup> 'd) \<Rightarrow> string \<Rightarrow> scan_morsel \<Rightarrow>
      (sqe_error, scan_task) outcome" where
  "range_task enc inp dels uuid m =
     obind (encode_deletes enc dels [m_file_path m]) (\<lambda>deletes.
     let b = common_fields inp deletes (with_file_sizes [m_file_size_bytes m]
           (with_morsel_id (m_morsel_id m) (builder uuid [m_file_path m] (inp_storage inp))));
         b = (case (m_start_byte m, m_end_byte m) of
             (Some start, Some fin) \<Rightarrow> with_byte_range start fin b
           | _ \<Rightarrow> b)
     in Ok (build b))"

fun range_tasks ::
    "('d list \<Rightarrow> (string, u8 list) outcome) \<Rightarrow> scan_inputs \<Rightarrow> (string \<rightharpoonup> 'd) \<Rightarrow> (nat \<Rightarrow> string) \<Rightarrow> nat \<Rightarrow>
      scan_morsel list \<Rightarrow> (sqe_error, scan_task list) outcome" where
  "range_tasks enc inp dels now_v7 n [] = Ok []"
| "range_tasks enc inp dels now_v7 n (m # ms) =
     obind (range_task enc inp dels (now_v7 n) m) (\<lambda>t.
     obind (range_tasks enc inp dels now_v7 (n + 1) ms) (\<lambda>ts. Ok (t # ts)))"

definition is_whole_file :: "scan_morsel \<Rightarrow> bool" where
  "is_whole_file m \<longleftrightarrow> m_start_byte m = None \<and> m_end_byte m = None"

definition group_tasks ::
    "('d list \<Rightarrow> (string, u8 list) outcome) \<Rightarrow> scan_inputs \<Rightarrow> (string \<rightharpoonup> 'd) \<Rightarrow> (nat \<Rightarrow> string) \<Rightarrow>
      (string \<rightharpoonup> scan_morsel) \<Rightarrow> nat \<Rightarrow> pack_unit list \<Rightarrow> (sqe_error, scan_task list) outcome" where
  "group_tasks enc inp dels now_v7 morsel_by_id n grp =
     (let ms = List.map_filter (\<lambda>(i, _). morsel_by_id i) grp in
      if ms = [] then Ok []
      else if list_all is_whole_file ms
        then obind (whole_files_task enc inp dels (now_v7 n) ms) (\<lambda>t. Ok [t])
        else range_tasks enc inp dels now_v7 n ms)"

fun build_scan_tasks ::
    "('d list \<Rightarrow> (string, u8 list) outcome) \<Rightarrow> scan_inputs \<Rightarrow> (string \<rightharpoonup> 'd) \<Rightarrow> (nat \<Rightarrow> string) \<Rightarrow>
      (string \<rightharpoonup> scan_morsel) \<Rightarrow> nat \<Rightarrow> pack_unit list list \<Rightarrow> (sqe_error, scan_task list) outcome" where
  "build_scan_tasks enc inp dels now_v7 by_id n [] = Ok []"
| "build_scan_tasks enc inp dels now_v7 by_id n (g # gs) =
     (if g = [] then build_scan_tasks enc inp dels now_v7 by_id n gs
      else obind (group_tasks enc inp dels now_v7 by_id n g) (\<lambda>ts.
        obind (build_scan_tasks enc inp dels now_v7 by_id (n + length ts) gs) (\<lambda>rest. Ok (ts @ rest))))"

text \<open>None: the morsel planner does not return.\<close>

definition plan_scan_tasks ::
    "('d list \<Rightarrow> (string, u8 list) outcome) \<Rightarrow> scan_inputs \<Rightarrow> (string \<rightharpoonup> 'd) \<Rightarrow> (nat \<Rightarrow> string) \<Rightarrow>
      (string \<times> u64) list \<Rightarrow> usize \<Rightarrow> (sqe_error, scan_task list) outcome option" where
  "plan_scan_tasks enc inp dels now_v7 file_info num_workers =
     (let morsel_target = min DEFAULT_MORSEL_TARGET_BYTES (inp_target_size_bytes inp);
          morsel_max = max DEFAULT_MORSEL_MAX_BYTES morsel_target
      in map_option (\<lambda>morsels.
        let max_bins = max (max (wrapping_mul num_workers 32) (wrapping_mul num_workers 3)) 1;
            morsel_units = map (\<lambda>m. (m_morsel_id m, max (m_compressed_bytes_estimate m) 1)) morsels;
            morsel_by_id = map_of (rev (map (\<lambda>m. (m_morsel_id m, m)) morsels))
        in obind (bin_pack_files morsel_units (inp_target_size_bytes inp) max_bins) (\<lambda>groups.
           obind (build_scan_tasks enc inp dels now_v7 morsel_by_id 0 groups) (\<lambda>tasks.
           if tasks = [] then
             Err (with_code InternalError (''morsel planning produced no scan tasks from '' @
               show_nat (length file_info) @ '' data files''))
           else Ok tasks)))
        (plan_scan_morsels_by_file file_info morsel_target morsel_max (\<lambda>path. dels path = None)))"

section \<open>Scheduling and reserving\<close>

text \<open>The reservations are keyed by fragment id.\<close>

fun reserve_all ::
    "(scan_task \<times> string) list \<Rightarrow> worker_load_tracker \<Rightarrow> (string \<rightharpoonup> reservation_guard) \<Rightarrow>
      worker_load_tracker \<times> (string \<rightharpoonup> reservation_guard)" where
  "reserve_all [] tr guards = (tr, guards)"
| "reserve_all ((task, u) # rest) tr guards =
     (let (g, tr') = reserve_load tr u (estimate_cost task)
      in reserve_all rest
           (case guards (fragment_id task) of Some old \<Rightarrow> drop_guard tr' old | None \<Rightarrow> tr')
           (guards(fragment_id task \<mapsto> g)))"

definition distribute_iceberg_scan ::
    "('d list \<Rightarrow> (string, u8 list) outcome) \<Rightarrow> scan_inputs \<Rightarrow> (string \<rightharpoonup> 'd) \<Rightarrow> (nat \<Rightarrow> string) \<Rightarrow>
      (string \<times> u64) list \<Rightarrow> string list \<Rightarrow> worker_load_tracker \<Rightarrow>
      (sqe_error, scan_task list \<times> string list \<times> worker_load_tracker \<times> (string \<rightharpoonup> reservation_guard)) outcome option" where
  "distribute_iceberg_scan enc inp dels now_v7 file_info healthy_urls tr =
     map_option (\<lambda>planned.
       obind planned (\<lambda>tasks.
       let worker_infos = map (\<lambda>u. \<lparr>url = u, healthy = True, in_flight_load = tracked_load tr u\<rparr>) healthy_urls
       in obind (assign tasks worker_infos) (\<lambda>assigned. case assigned of
          None \<Rightarrow> Err (with_code ExecutionFailed (''scheduling '' @ show_nat (length tasks) @
            '' scan tasks failed: no healthy workers available''))
        | Some assignments \<Rightarrow>
            let worker_urls = map worker_url assignments;
                (tr', guards) = reserve_all (zip tasks worker_urls) tr Map.empty
            in Ok (tasks, worker_urls, tr', guards))))
       (plan_scan_tasks enc inp dels now_v7 file_info (length healthy_urls))"

section \<open>What the tasks read\<close>

text \<open>
  The bytes a worker reads for a task, with their file: the byte range of the first file, or all of every
  file.
\<close>

definition task_reads :: "scan_task \<Rightarrow> (string \<times> nat) list" where
  "task_reads t = (case (start_byte t, end_byte t) of
       (Some a, Some b) \<Rightarrow> map (Pair (hd (data_file_paths t))) [unat a..<unat b]
     | _ \<Rightarrow> concat (map (\<lambda>(path, sz). map (Pair path) [0..<unat sz]) (zip (data_file_paths t) (file_sizes_bytes t))))"

definition morsel_reads :: "scan_morsel \<Rightarrow> (string \<times> nat) list" where
  "morsel_reads m = map (Pair (m_file_path m)) (morsel_bytes m)"

definition file_bytes :: "(string \<times> u64) list \<Rightarrow> (string \<times> nat) list" where
  "file_bytes fs = concat (map (\<lambda>(path, sz). map (Pair path) [0..<unat sz]) fs)"

definition encodes :: "('d list \<Rightarrow> (string, u8 list) outcome) \<Rightarrow> bool" where
  "encodes enc \<longleftrightarrow> (\<forall>ds. \<exists>bs. enc ds = Ok bs)"

lemma encode_deletes_Ok:
  assumes "encodes enc"
  shows "\<exists>d. encode_deletes enc dels paths = Ok d"
proof -
  obtain bs where "enc (List.map_filter dels paths) = Ok bs" using assms by (auto simp: encodes_def)
  then show ?thesis by (simp add: encode_deletes_def Let_def)
qed

lemmas task_defs = builder_defs common_fields_def

lemma common_fields_simps [simp]:
  "start_byte (common_fields inp d t) = start_byte t" "end_byte (common_fields inp d t) = end_byte t"
  "data_file_paths (common_fields inp d t) = data_file_paths t"
  "file_sizes_bytes (common_fields inp d t) = file_sizes_bytes t"
  "delete_tasks (common_fields inp d t) = d"
  by (simp_all add: task_defs)

lemma whole_files_task_reads:
  assumes "whole_files_task enc inp dels u ms = Ok t" "list_all is_whole_file ms"
  shows "task_reads t = concat (map morsel_reads ms)"
proof -
  have "data_file_paths t = map m_file_path ms" "file_sizes_bytes t = map m_file_size_bytes ms"
    "start_byte t = None" "end_byte t = None"
    using assms(1) by (auto simp: whole_files_task_def Let_def obind_Ok_iff builder_defs common_fields_def)
  then have "task_reads t = concat (map (\<lambda>m. map (Pair (m_file_path m)) [0..<unat (m_file_size_bytes m)]) ms)"
    by (simp add: task_reads_def zip_map_map comp_def zip_same_conv_map)
  also have "\<dots> = concat (map morsel_reads ms)"
    using assms(2) by (intro arg_cong [of _ _ concat] map_cong)
      (auto simp: list_all_iff is_whole_file_def morsel_reads_def morsel_bytes_def)
  finally show ?thesis .
qed

lemma range_task_reads:
  assumes "range_task enc inp dels u m = Ok t"
  shows "task_reads t = morsel_reads m"
  using assms
  by (auto simp: range_task_def obind_Ok_iff Let_def task_reads_def morsel_reads_def morsel_bytes_def builder_defs
      common_fields_def split: option.splits)

text \<open>
  The load a ranged task is scheduled and reserved with is that of its whole file: a file cut into \<open>n\<close>
  ranges weighs \<open>n\<close> times its size.
\<close>

lemma range_task_cost:
  assumes "range_task enc inp dels u m = Ok t" "0 < m_file_size_bytes m"
  shows "estimate_cost t = max (m_file_size_bytes m div (1024 * 1024)) 1"
proof -
  have "file_sizes_bytes t = [m_file_size_bytes m]"
    using assms(1)
    by (cases "m_start_byte m"; cases "m_end_byte m"; auto simp: range_task_def obind_Ok_iff task_defs)
  with assms(2) show ?thesis by (simp add: estimate_cost_def)
qed

lemma range_tasks_reads:
  "range_tasks enc inp dels now_v7 n ms = Ok ts \<Longrightarrow> concat (map task_reads ts) = concat (map morsel_reads ms)"
  by (induction ms arbitrary: n ts) (auto simp: obind_Ok_iff range_task_reads)

abbreviation group_morsels :: "(string \<rightharpoonup> scan_morsel) \<Rightarrow> pack_unit list \<Rightarrow> scan_morsel list" where
  "group_morsels by_id grp \<equiv> List.map_filter (\<lambda>(i, _). by_id i) grp"

lemma group_tasks_reads:
  "group_tasks enc inp dels now_v7 by_id n g = Ok ts \<Longrightarrow>
   concat (map task_reads ts) = concat (map morsel_reads (group_morsels by_id g))"
  by (auto simp: group_tasks_def Let_def obind_Ok_iff dest: whole_files_task_reads range_tasks_reads split: if_splits)

lemma build_scan_tasks_reads:
  "build_scan_tasks enc inp dels now_v7 by_id n gs = Ok ts \<Longrightarrow>
   concat (map task_reads ts) = concat (map morsel_reads (group_morsels by_id (concat gs)))"
proof (induction gs arbitrary: n ts)
  case (Cons g gs)
  then show ?case
    by (auto simp: obind_Ok_iff List.map_filter_def dest!: group_tasks_reads split: if_splits)
qed (simp add: List.map_filter_def)

lemma range_tasks_Ok: "encodes enc \<Longrightarrow> \<exists>ts. range_tasks enc inp dels now_v7 n ms = Ok ts \<and> length ts = length ms"
proof (induction ms arbitrary: n)
  case (Cons m ms)
  obtain d where "encode_deletes enc dels [m_file_path m] = Ok d" using encode_deletes_Ok [OF Cons.prems] by blast
  with Cons.IH [OF Cons.prems, of "n + 1"] show ?case by (auto simp: range_task_def Let_def)
qed simp

lemma group_tasks_Ok:
  assumes "encodes enc"
  shows "\<exists>ts. group_tasks enc inp dels now_v7 by_id n g = Ok ts \<and> (group_morsels by_id g \<noteq> [] \<longrightarrow> ts \<noteq> [])"
proof -
  let ?ms = "group_morsels by_id g"
  obtain d where "encode_deletes enc dels (map m_file_path ?ms) = Ok d" using encode_deletes_Ok [OF assms] by blast
  moreover obtain ts where "range_tasks enc inp dels now_v7 n ?ms = Ok ts" "length ts = length ?ms"
    using range_tasks_Ok [OF assms] by blast
  ultimately show ?thesis by (auto simp: group_tasks_def whole_files_task_def Let_def)
qed

lemma build_scan_tasks_Ok:
  assumes "encodes enc"
  shows "\<exists>ts. build_scan_tasks enc inp dels now_v7 by_id n gs = Ok ts \<and>
    (group_morsels by_id (concat gs) \<noteq> [] \<longrightarrow> ts \<noteq> [])"
proof (induction gs arbitrary: n)
  case (Cons g gs)
  from group_tasks_Ok [OF assms] obtain ts where
    ts: "group_tasks enc inp dels now_v7 by_id n g = Ok ts" "group_morsels by_id g \<noteq> [] \<longrightarrow> ts \<noteq> []" by blast
  from Cons obtain rest where rest: "build_scan_tasks enc inp dels now_v7 by_id (if g = [] then n else n + length ts) gs = Ok rest"
    "group_morsels by_id (concat gs) \<noteq> [] \<longrightarrow> rest \<noteq> []" by blast
  have "group_morsels by_id (concat (g # gs)) = group_morsels by_id g @ group_morsels by_id (concat gs)"
    by (simp add: List.map_filter_def)
  then show ?case using ts rest by (cases "g = []") (auto simp: List.map_filter_def)
qed (simp add: List.map_filter_def)

section \<open>Looking morsels up by id\<close>

lemma mset_map_filter: "mset xs = mset ys \<Longrightarrow> mset (List.map_filter f xs) = mset (List.map_filter f ys)"
  by (simp add: List.map_filter_def)

lemma mset_concat_map: "mset xs = mset ys \<Longrightarrow> mset (concat (map f xs)) = mset (concat (map f ys))"
  by (simp add: mset_concat flip: sum_mset_sum_list)

lemma morsel_lookup:
  assumes "distinct (map m_morsel_id ms)"
  shows "m \<in> set ms \<Longrightarrow> map_of (rev (map (\<lambda>m. (m_morsel_id m, m)) ms)) (m_morsel_id m) = Some m"
    and "map_of (rev (map (\<lambda>m. (m_morsel_id m, m)) ms)) i = Some m \<Longrightarrow> m \<in> set ms"
  using assms by (auto simp: map_of_eq_Some_iff rev_map comp_def distinct_map dest!: map_of_SomeD)

lemma group_morsels_units:
  assumes "\<forall>m \<in> set ms. by_id (m_morsel_id m) = Some m"
  shows "group_morsels by_id (map (\<lambda>m. (m_morsel_id m, sz m)) ms) = ms"
  using assms by (induction ms) (auto simp: List.map_filter_def)

section \<open>The scan as a whole\<close>

definition plannable :: "(string \<times> u64) list \<Rightarrow> bool" where
  "plannable fs \<longleftrightarrow> distinct (map fst fs) \<and> list_all (\<lambda>(path, sz). unat sz + 2 ^ 27 \<le> 2 ^ 64) fs"

lemma plan_morsels:
  assumes "plannable fs"
  shows "\<exists>ms. plan_scan_morsels_by_file fs (min DEFAULT_MORSEL_TARGET_BYTES target) max_bytes allow = Some ms \<and>
    concat (map morsel_reads ms) = file_bytes fs \<and> distinct (map m_morsel_id ms) \<and> (fs \<noteq> [] \<longrightarrow> ms \<noteq> []) \<and>
    (\<forall>m \<in> set ms. \<not> allow (m_file_path m) \<longrightarrow> is_whole_file m)"
proof -
  let ?t = "max (min DEFAULT_MORSEL_TARGET_BYTES target) 1"
  have "?t \<le> DEFAULT_MORSEL_TARGET_BYTES" by (simp add: DEFAULT_MORSEL_TARGET_BYTES_def)
  then have "unat ?t \<le> 2 ^ 27" by (simp add: word_le_nat_alt DEFAULT_MORSEL_TARGET_BYTES_def)
  then have "\<forall>(path, sz) \<in> set fs. unat sz + unat ?t \<le> 2 ^ 64"
    using assms by (fastforce simp: plannable_def list_all_iff)
  moreover have "distinct (map fst fs)" using assms by (simp add: plannable_def)
  ultimately obtain ms where ms:
    "plan_scan_morsels_by_file fs (min DEFAULT_MORSEL_TARGET_BYTES target) max_bytes allow = Some ms"
    "concat (map (\<lambda>m. map (Pair (m_file_path m)) (morsel_bytes m)) ms) =
      concat (map (\<lambda>(path, sz). map (Pair path) [0..<unat sz]) fs)"
    "\<forall>m \<in> set ms. \<exists>path sz. (path, sz) \<in> set fs \<and> morsel_of path sz m \<and> (\<not> allow path \<longrightarrow> m = whole_file_morsel path sz 4)"
    "distinct (map m_morsel_id ms)" "fs \<noteq> [] \<longrightarrow> ms \<noteq> []"
    using plan_scan_morsels_by_file_tiles by blast
  have "is_whole_file m" if "m \<in> set ms" "\<not> allow (m_file_path m)" for m
  proof -
    from ms(3) that(1) obtain path sz where "morsel_of path sz m" "\<not> allow path \<longrightarrow> m = whole_file_morsel path sz 4"
      by blast
    with that(2) morsel_of_file show ?thesis by (metis is_whole_file_def scan_morsel.select_convs(6,7) whole_file_morsel_def)
  qed
  with ms show ?thesis by (simp add: morsel_reads_def [abs_def] file_bytes_def)
qed

lemma plan_scan_tasks_reads:
  assumes "plannable fs" "fs \<noteq> []" "encodes enc"
  shows "\<exists>ts. plan_scan_tasks enc inp dels now_v7 fs n = Some (Ok ts) \<and> ts \<noteq> [] \<and>
    mset (concat (map task_reads ts)) = mset (file_bytes fs)"
proof -
  let ?max = "max DEFAULT_MORSEL_MAX_BYTES (min DEFAULT_MORSEL_TARGET_BYTES (inp_target_size_bytes inp))"
  obtain ms where ms: "plan_scan_morsels_by_file fs (min DEFAULT_MORSEL_TARGET_BYTES (inp_target_size_bytes inp))
      ?max (\<lambda>path. dels path = None) = Some ms" "concat (map morsel_reads ms) = file_bytes fs"
    "distinct (map m_morsel_id ms)" "ms \<noteq> []"
    using plan_morsels [OF assms(1)] assms(2) by blast
  define units where "units = map (\<lambda>m. (m_morsel_id m, max (m_compressed_bytes_estimate m) 1)) ms"
  define by_id where "by_id = map_of (rev (map (\<lambda>m. (m_morsel_id m, m)) ms))"
  define bins where "bins = max (max (wrapping_mul n 32) (wrapping_mul n 3)) 1"
  have "0 < bins" by (simp add: bins_def)
  from bin_pack_files_Ok [OF this, of units "inp_target_size_bytes inp"] obtain groups where
    groups: "bin_pack_files units (inp_target_size_bytes inp) bins = Ok groups" "mset (concat groups) = mset units"
    by blast
  have "mset (group_morsels by_id (concat groups)) = mset (group_morsels by_id units)"
    by (rule mset_map_filter [OF groups(2)])
  also have "group_morsels by_id units = ms"
    unfolding units_def by_id_def using morsel_lookup(1) [OF ms(3)] by (intro group_morsels_units) blast
  finally have mset: "mset (group_morsels by_id (concat groups)) = mset ms" .
  then have "group_morsels by_id (concat groups) \<noteq> []" using ms(4) by auto
  then obtain ts where ts: "build_scan_tasks enc inp dels now_v7 by_id 0 groups = Ok ts" "ts \<noteq> []"
    using build_scan_tasks_Ok [OF assms(3)] by blast
  have "mset (concat (map task_reads ts)) = mset (file_bytes fs)"
    unfolding build_scan_tasks_reads [OF ts(1)] ms(2) [symmetric] by (rule mset_concat_map [OF mset])
  moreover have "plan_scan_tasks enc inp dels now_v7 fs n = Some (Ok ts)"
    using ms(1) groups(1) ts unfolding units_def by_id_def bins_def
    by (simp add: plan_scan_tasks_def Let_def)
  ultimately show ?thesis using ts(2) by blast
qed

text \<open>
  C11: A distributed scan reads every byte of every data file exactly once. For data files with distinct
  paths, none within 128 MiB of \<open>2^64\<close> bytes, and at least one healthy worker, distributing the scan
  succeeds, whatever the sizes, the packing target and the loads are; every task has exactly one worker,
  a healthy one; and what all the tasks together read, as a multiset of (file, byte) pairs, is exactly
  the bytes of the files. Cutting into byte ranges, packing, the lookup of morsels by id and the two
  shapes of tickets therefore neither drop nor duplicate data.
\<close>

theorem distributed_scan_exact:
  assumes "plannable file_info" "file_info \<noteq> []" "encodes enc" "healthy_urls \<noteq> []"
  shows "\<exists>tasks urls tr' guards.
    distribute_iceberg_scan enc inp dels now_v7 file_info healthy_urls tr = Some (Ok (tasks, urls, tr', guards)) \<and>
    mset (concat (map task_reads tasks)) = mset (file_bytes file_info) \<and> distinct (file_bytes file_info) \<and>
    length urls = length tasks \<and> set urls \<subseteq> set healthy_urls"
proof -
  obtain tasks where tasks: "plan_scan_tasks enc inp dels now_v7 file_info (length healthy_urls) = Some (Ok tasks)"
    "mset (concat (map task_reads tasks)) = mset (file_bytes file_info)"
    using plan_scan_tasks_reads [OF assms(1-3)] by blast
  define ws where "ws = map (\<lambda>u. \<lparr>url = u, healthy = True, in_flight_load = tracked_load tr u\<rparr>) healthy_urls"
  have "hd ws \<in> set ws" "healthy (hd ws)" using assms(4) by (simp_all add: ws_def hd_map)
  from assign_healthy [OF this, of tasks] obtain as where as: "assign tasks ws = Ok (Some as)"
    "map task_index as = [0..<length tasks]" "list_all (\<lambda>a. \<exists>w. w \<in> set ws \<and> healthy w \<and> url w = worker_url a) as"
    by blast
  have "set (map worker_url as) \<subseteq> set healthy_urls" using as(3) by (auto simp: list_all_iff ws_def)
  moreover have "length (map worker_url as) = length tasks" using arg_cong [OF as(2), of length] by simp
  moreover have "distinct (file_bytes file_info)"
    using assms(1) unfolding plannable_def file_bytes_def
    by (induction file_info) (auto simp: distinct_map inj_on_def image_iff)
  moreover obtain tr' guards where "reserve_all (zip tasks (map worker_url as)) tr Map.empty = (tr', guards)"
    by (cases "reserve_all (zip tasks (map worker_url as)) tr Map.empty")
  then have "distribute_iceberg_scan enc inp dels now_v7 file_info healthy_urls tr =
      Some (Ok (tasks, map worker_url as, tr', guards))"
    using tasks(1) as(1) by (simp add: distribute_iceberg_scan_def Let_def ws_def)
  ultimately show ?thesis using tasks(2) by blast
qed

definition example_inputs :: scan_inputs where
  "example_inputs = \<lparr>inp_projected_cols = [''id''], inp_field_ids = [1], inp_projection_fill = None,
     inp_variant_prunes = None, inp_predicate_proto = None, inp_scan_limit = None,
     inp_storage = example_storage, inp_target_size_bytes = 100\<rparr>"

definition example_files :: "(string \<times> u64) list" where
  "example_files = [(''a'', 250), (''b'', 30), (''c'', 400)]"

definition example_deletes :: "string \<rightharpoonup> nat" where
  "example_deletes = [''c'' \<mapsto> 7]"

definition example_enc :: "nat list \<Rightarrow> (string, u8 list) outcome" where
  "example_enc ds = Ok (map of_nat ds)"

lemma example_plannable: "plannable example_files" "example_files \<noteq> []" "encodes example_enc"
  by (simp_all add: plannable_def example_files_def encodes_def example_enc_def)

theorem distributed_scan_exact_witness:
  "\<exists>tasks urls tr' guards.
    distribute_iceberg_scan example_enc example_inputs example_deletes show_nat example_files [''w0'', ''w1''] Map.empty =
      Some (Ok (tasks, urls, tr', guards)) \<and>
    mset (concat (map task_reads tasks)) = mset (file_bytes example_files)"
  using distributed_scan_exact [OF example_plannable, of "[''w0'', ''w1'']" example_inputs example_deletes show_nat Map.empty]
  by fastforce

section \<open>Delete files travel with their data files\<close>

definition carries_deletes ::
    "('d list \<Rightarrow> (string, u8 list) outcome) \<Rightarrow> (string \<rightharpoonup> 'd) \<Rightarrow> scan_task \<Rightarrow> bool" where
  "carries_deletes enc dels t \<longleftrightarrow> (\<forall>p d. p \<in> set (data_file_paths t) \<and> dels p = Some d \<longrightarrow>
     (\<exists>ds bs. d \<in> set ds \<and> enc ds = Ok bs \<and> delete_tasks t = Some bs) \<and> start_byte t = None \<and> end_byte t = None)"

lemma encode_deletes_Some:
  assumes "encode_deletes enc dels paths = Ok x" "p \<in> set paths" "dels p = Some d"
  shows "\<exists>ds bs. d \<in> set ds \<and> enc ds = Ok bs \<and> x = Some bs"
proof -
  have d: "d \<in> set (List.map_filter dels paths)" using assms(2,3) by (force simp: List.map_filter_def)
  then have "List.map_filter dels paths \<noteq> []" by auto
  with assms(1) obtain bs where "enc (List.map_filter dels paths) = Ok bs" "x = Some bs"
    by (auto simp: encode_deletes_def Let_def split: outcome.splits)
  with d show ?thesis by blast
qed

lemma whole_files_task_deletes:
  assumes "whole_files_task enc inp dels u ms = Ok t"
  shows "carries_deletes enc dels t"
proof -
  obtain x where "encode_deletes enc dels (map m_file_path ms) = Ok x" "delete_tasks t = x"
    "data_file_paths t = map m_file_path ms" "start_byte t = None" "end_byte t = None"
    using assms by (auto simp: whole_files_task_def Let_def obind_Ok_iff task_defs)
  then show ?thesis using encode_deletes_Some [of enc dels "map m_file_path ms"]
    unfolding carries_deletes_def by metis
qed

lemma range_task_deletes:
  assumes "range_task enc inp dels u m = Ok t" "dels (m_file_path m) \<noteq> None \<Longrightarrow> is_whole_file m"
  shows "carries_deletes enc dels t"
proof -
  obtain d where d: "encode_deletes enc dels [m_file_path m] = Ok d"
    using assms(1) by (auto simp: range_task_def obind_Ok_iff)
  have x: "delete_tasks t = d" "data_file_paths t = [m_file_path m]"
    "is_whole_file m \<longrightarrow> start_byte t = None \<and> end_byte t = None"
    using assms(1) by (cases "m_start_byte m"; cases "m_end_byte m"; auto simp: range_task_def d task_defs is_whole_file_def)+
  have "(\<exists>ds bs. d \<in> set ds \<and> enc ds = Ok bs \<and> delete_tasks t = Some bs) \<and> start_byte t = None \<and> end_byte t = None"
    if "dels (m_file_path m) = Some d" for d
    using encode_deletes_Some [OF d, of "m_file_path m"] that x(1,3) assms(2) by auto
  then show ?thesis by (simp add: carries_deletes_def x(2))
qed

lemma range_tasks_deletes:
  "range_tasks enc inp dels now_v7 n ms = Ok ts \<Longrightarrow>
   (\<And>m. m \<in> set ms \<Longrightarrow> dels (m_file_path m) \<noteq> None \<Longrightarrow> is_whole_file m) \<Longrightarrow>
   t \<in> set ts \<Longrightarrow> carries_deletes enc dels t"
proof (induction ms arbitrary: n ts)
  case (Cons m ms)
  then obtain u us where u: "range_task enc inp dels (now_v7 n) m = Ok u"
    "range_tasks enc inp dels now_v7 (n + 1) ms = Ok us" "ts = u # us" by (auto simp: obind_Ok_iff)
  from range_task_deletes [OF u(1)] Cons.prems(2) have "carries_deletes enc dels u" by simp
  with Cons.IH [OF u(2)] Cons.prems(2,3) u(3) show ?case by auto
qed simp

lemma build_scan_tasks_deletes:
  assumes "\<And>i m. by_id i = Some m \<Longrightarrow> dels (m_file_path m) \<noteq> None \<Longrightarrow> is_whole_file m"
  shows "build_scan_tasks enc inp dels now_v7 by_id n gs = Ok ts \<Longrightarrow> t \<in> set ts \<Longrightarrow> carries_deletes enc dels t"
proof (induction gs arbitrary: n ts)
  case (Cons g gs)
  have "is_whole_file m" if "m \<in> set (group_morsels by_id g)" "dels (m_file_path m) \<noteq> None" for m
    using that assms by (auto simp: List.map_filter_def)
  then have "carries_deletes enc dels t"
    if "group_tasks enc inp dels now_v7 by_id n g = Ok us" "t \<in> set us" for us
    using that range_tasks_deletes [of enc inp dels now_v7 n "group_morsels by_id g" us t]
    by (auto simp: group_tasks_def Let_def obind_Ok_iff whole_files_task_deletes split: if_splits)
  with Cons show ?case by (auto simp: obind_Ok_iff split: if_splits)
qed simp

text \<open>
  C12: No distributed scan returns deleted rows. In every task of a planned scan, each data file that
  has delete files is read whole, the ticket carries an encoding of delete tasks that include the
  file's own, and only workers that implement ticket version 6, the version that has delete tasks,
  accept the ticket.
\<close>

theorem deletes_travel:
  assumes "plannable file_info"
    and "plan_scan_tasks enc inp dels now_v7 file_info num_workers = Some (Ok tasks)"
    and "t \<in> set tasks" and "p \<in> set (data_file_paths t)" and "dels p = Some d"
  shows "(\<exists>ds bs. d \<in> set ds \<and> enc ds = Ok bs \<and> delete_tasks t = Some bs) \<and>
    start_byte t = None \<and> end_byte t = None \<and>
    (decode_for_worker json bytes m = Ok t \<longrightarrow> SCAN_TASK_VERSION_V6 \<le> m)"
proof -
  let ?max = "max DEFAULT_MORSEL_MAX_BYTES (min DEFAULT_MORSEL_TARGET_BYTES (inp_target_size_bytes inp))"
  obtain ms where ms: "plan_scan_morsels_by_file file_info (min DEFAULT_MORSEL_TARGET_BYTES (inp_target_size_bytes inp))
      ?max (\<lambda>path. dels path = None) = Some ms" "distinct (map m_morsel_id ms)"
    "\<forall>m \<in> set ms. \<not> dels (m_file_path m) = None \<longrightarrow> is_whole_file m"
    using plan_morsels [OF assms(1)] by blast
  define by_id where "by_id = map_of (rev (map (\<lambda>m. (m_morsel_id m, m)) ms))"
  obtain groups where "build_scan_tasks enc inp dels now_v7 by_id 0 groups = Ok tasks"
    using assms(2) ms(1) unfolding plan_scan_tasks_def Let_def by_id_def by (auto simp: obind_Ok_iff split: if_splits)
  moreover have "is_whole_file m" if "by_id i = Some m" "dels (m_file_path m) \<noteq> None" for i m
    using morsel_lookup(2) [OF ms(2)] ms(3) that by (auto simp: by_id_def)
  ultimately have "carries_deletes enc dels t" using assms(3) build_scan_tasks_deletes by blast
  then have c: "(\<exists>ds bs. d \<in> set ds \<and> enc ds = Ok bs \<and> delete_tasks t = Some bs) \<and> start_byte t = None \<and> end_byte t = None"
    using assms(4,5) unfolding carries_deletes_def by blast
  then have "required_version t \<le> m \<Longrightarrow> SCAN_TASK_VERSION_V6 \<le> m"
    by (auto simp: required_version_le understands_def SCAN_TASK_VERSION_V6_def)
  moreover have "required_version t \<le> m" if "decode_for_worker json bytes m = Ok t"
    using that by (auto simp: decode_for_worker_Ok validate_for_worker_Ok)
  ultimately show ?thesis using c by blast
qed

definition example_delete_task :: scan_task where
  "example_delete_task = build (common_fields example_inputs (Some [7])
     (with_file_sizes [40] (builder (show_nat 0) [''c''] example_storage)))"

lemma example_delete_plan:
  "plan_scan_tasks example_enc example_inputs example_deletes show_nat [(''c'', 40)] 1 = Some (Ok [example_delete_task])"
  by (simp add: plan_scan_tasks_def example_inputs_def DEFAULT_MORSEL_TARGET_BYTES_def DEFAULT_MORSEL_MAX_BYTES_def
      plan_file_byte_morsels_def Let_def example_deletes_def whole_file_morsel_def bin_pack_files_def
      sort_by_key_reverse_def pack_file_def best_fit_def wrapping_mul_def group_tasks_def List.map_filter_def
      is_whole_file_def whole_files_task_def encode_deletes_def example_enc_def example_delete_task_def)

theorem deletes_travel_witness:
  "plan_scan_tasks example_enc example_inputs example_deletes show_nat [(''c'', 40)] 1 = Some (Ok [example_delete_task]) \<and>
   (\<exists>ds bs. 7 \<in> set ds \<and> example_enc ds = Ok bs \<and> delete_tasks example_delete_task = Some bs)"
proof -
  have "plannable [(''c'', 40)]" by (simp add: plannable_def)
  moreover have "data_file_paths example_delete_task = [''c'']"
    by (simp add: example_delete_task_def task_defs)
  moreover have "example_deletes ''c'' = Some 7" by (simp add: example_deletes_def)
  ultimately show ?thesis
    using deletes_travel [OF _ example_delete_plan, of example_delete_task "''c''" 7] example_delete_plan by simp
qed

section \<open>Reservations are exact\<close>

text \<open>
  The tracker with the guards alive: a reservation adds a guard, dropping a guard removes it. The counters
  are 32 and 64 bits wide, so what is alive at once must fit them.
\<close>

definition alive_load :: "reservation_guard multiset \<Rightarrow> nat" where
  "alive_load G = (\<Sum>g\<in>#G. unat (guard_load g))"

inductive tracked :: "worker_load_tracker \<Rightarrow> reservation_guard multiset \<Rightarrow> bool" where
  new: "tracked Map.empty {#}"
| reserved: "tracked tr G \<Longrightarrow> reserve_load tr u l = (g, tr') \<Longrightarrow> size G + 1 < 2 ^ 32 \<Longrightarrow>
    alive_load G + unat l < 2 ^ 64 \<Longrightarrow> tracked tr' (add_mset g G)"
| dropped: "tracked tr (add_mset g G) \<Longrightarrow> tracked (drop_guard tr g) G"

definition exact_tracker :: "worker_load_tracker \<Rightarrow> reservation_guard multiset \<Rightarrow> bool" where
  "exact_tracker tr G \<longleftrightarrow> size G < 2 ^ 32 \<and> alive_load G < 2 ^ 64 \<and>
     (\<forall>u. unat (in_flight tr u) = size (filter_mset (\<lambda>g. guard_url g = u) G) \<and>
        unat (tracked_load tr u) = alive_load (filter_mset (\<lambda>g. guard_url g = u) G))"

lemma alive_load_simps [simp]: "alive_load {#} = 0" "alive_load (add_mset g G) = unat (guard_load g) + alive_load G"
  by (simp_all add: alive_load_def)

lemma alive_load_filter: "alive_load (filter_mset P G) \<le> alive_load G"
  by (induction G) auto

lemma exact_reserved:
  assumes "exact_tracker tr G" "reserve_load tr u l = (g, tr')" "size G + 1 < 2 ^ 32" "alive_load G + unat l < 2 ^ 64"
  shows "exact_tracker tr' (add_mset g G)"
proof -
  let ?F = "filter_mset (\<lambda>g. guard_url g = u) G"
  have g: "guard_url g = u" "guard_load g = l" and tr': "tr' = tr(u \<mapsto> (in_flight tr u + 1, tracked_load tr u + l))"
    using assms(2) by (auto simp: reserve_load_def in_flight_def tracked_load_def split: option.splits prod.splits)
  have "size ?F + 1 < 2 ^ 32" "alive_load ?F + unat l < 2 ^ 64"
    using size_filter_mset_lesseq [of "\<lambda>g. guard_url g = u" G] alive_load_filter [of "\<lambda>g. guard_url g = u" G] assms(3,4)
    by linarith+
  with assms(1) have "unat (in_flight tr u + 1) = size ?F + 1" "unat (tracked_load tr u + l) = alive_load ?F + unat l"
    by (simp_all add: exact_tracker_def unat_word_ariths)
  then show ?thesis using assms(1,3,4) g
    by (auto simp: exact_tracker_def tr' in_flight_def tracked_load_def)
qed

lemma exact_dropped:
  assumes "exact_tracker tr (add_mset g G)"
  shows "exact_tracker (drop_guard tr g) G"
proof -
  let ?u = "guard_url g"
  obtain c l where cl: "tr ?u = Some (c, l)" using assms
    by (cases "tr ?u") (auto simp: exact_tracker_def in_flight_def dest!: spec [of _ ?u])
  have c: "unat c = size (filter_mset (\<lambda>x. guard_url x = ?u) G) + 1"
    and l: "unat l = unat (guard_load g) + alive_load (filter_mset (\<lambda>x. guard_url x = ?u) G)"
    using assms cl by (auto simp: exact_tracker_def in_flight_def tracked_load_def dest!: spec [of _ ?u])
  then have "c \<noteq> 0" "guard_load g \<le> l" by (auto simp: word_le_nat_alt)
  then have d: "drop_guard tr g = tr(?u \<mapsto> (c - 1, l - guard_load g))" "unat (c - 1) = unat c - 1"
      "unat (l - guard_load g) = unat l - unat (guard_load g)"
    by (simp_all add: drop_guard_def cl u64_saturating_sub_def unat_sub unat_minus_one)
  show ?thesis using assms c l
    by (auto simp: exact_tracker_def d in_flight_def tracked_load_def)
qed

text \<open>
  C30: The loads the scheduler reads are exactly the loads in flight. After any sequence of reservations
  and dropped guards, in any order, that stays within the counters' widths, the tracker holds for every
  worker the number and the summed cost of the guards still alive: nothing lingers and nothing is
  released twice.
\<close>

theorem reservations_exact:
  "tracked tr G \<Longrightarrow>
    unat (in_flight tr u) = size (filter_mset (\<lambda>g. guard_url g = u) G) \<and>
    unat (tracked_load tr u) = (\<Sum>g\<in>#filter_mset (\<lambda>g. guard_url g = u) G. unat (guard_load g))"
proof -
  assume "tracked tr G"
  then have "exact_tracker tr G"
  proof induction
    case new
    then show ?case by (simp add: exact_tracker_def in_flight_def tracked_load_def)
  qed (use exact_reserved exact_dropped in blast)+
  then show ?thesis by (simp add: exact_tracker_def alive_load_def)
qed

theorem reservations_exact_witness:
  "\<exists>tr. tracked tr {#\<lparr>guard_url = ''w'', guard_load = 250\<rparr>#} \<and> in_flight tr ''w'' = 1 \<and> tracked_load tr ''w'' = 250"
proof -
  let ?g = "\<lambda>l. \<lparr>guard_url = ''w'', guard_load = l\<rparr>"
  have "tracked [''w'' \<mapsto> (1, 500)] {#?g 500#}"
    by (rule reserved [OF new, where u = "''w''" and l = 500]) (simp_all add: reserve_load_def)
  from reserved [OF this, where u = "''w''" and l = 250 and g = "?g 250" and tr' = "[''w'' \<mapsto> (2, 750)]"]
  have "tracked [''w'' \<mapsto> (2, 750)] (add_mset (?g 500) {#?g 250#})"
    by (simp add: reserve_load_def add_mset_commute)
  from dropped [OF this] have t: "tracked (drop_guard [''w'' \<mapsto> (2, 750)] (?g 500)) {#?g 250#}" .
  from reservations_exact [OF t, of "''w''"] t show ?thesis
    by (intro exI [of _ "drop_guard [''w'' \<mapsto> (2, 750)] (?g 500)"]) (simp add: word_unat_eq_iff)
qed

end
