(* ===== verification/Session.thy ===== *)
theory Session
  imports Sqe_Error
begin

text \<open>
  Sessions and authentication: \<open>Session\<close> of \<open>sqe-core/src/session.rs\<close>, the credentials, identities and
  errors of \<open>sqe-auth/src/provider.rs\<close>, the provider chain of \<open>sqe-auth/src/chain.rs\<close> and the
  conversion of an identity to a session (\<open>sqe-auth/src/identity_session.rs\<close>). Times are microseconds
  since the epoch; a function that reads the clock takes the reading. A provider is a trait object, so it
  is a function argument; so are fresh UUIDs, and the conversions of the chrono crate.
\<close>

type_synonym datetime = int
type_synonym secret_string = string

text \<open>
  Chrono: \<open>Duration::from_std\<close> of a number of seconds (None: out of range) and \<open>Duration::seconds\<close>
  (None: panics).
\<close>

record chrono =
  chrono_from_std :: "nat \<Rightarrow> int option"
  chrono_seconds :: "int \<Rightarrow> int option"

record credential_bundle =
  cb_access_token :: secret_string
  cb_refresh_token :: "secret_string option"
  cb_expiry :: datetime

record session_user =
  username :: string
  roles :: "string list"
  subject :: "string option"
  email :: "string option"
  groups :: "string list"

record session =
  s_id :: string
  s_user :: session_user
  s_access_token :: secret_string
  s_refresh_token :: "secret_string option"
  s_token_expiry :: datetime
  s_created_at :: datetime
  s_last_activity :: datetime
  s_default_catalog :: "string option"
  s_default_schema :: "string option"
  s_source :: "string option"
  s_peer_ip :: "string option"
  s_write_branch :: "string option"
  s_compression_codec :: "string option"
  s_transaction_id :: "string option"
  s_client_transaction :: bool
  s_maintenance_authority :: bool

definition principal_id :: "session_user \<Rightarrow> string" where
  "principal_id u = (case subject u of Some s \<Rightarrow> s | None \<Rightarrow> username u)"

definition session_new ::
    "string \<Rightarrow> datetime \<Rightarrow> string \<Rightarrow> secret_string \<Rightarrow> secret_string option \<Rightarrow> datetime \<Rightarrow> string list \<Rightarrow> session" where
  "session_new uuid now name access refresh expiry rs =
     \<lparr>s_id = uuid,
      s_user = \<lparr>username = name, roles = rs, subject = None, email = None, groups = []\<rparr>,
      s_access_token = access, s_refresh_token = refresh, s_token_expiry = expiry,
      s_created_at = now, s_last_activity = now, s_default_catalog = None, s_default_schema = None,
      s_source = None, s_peer_ip = None, s_write_branch = None, s_compression_codec = None,
      s_transaction_id = None, s_client_transaction = False, s_maintenance_authority = False\<rparr>"

definition rotate_credentials :: "credential_bundle \<Rightarrow> session \<Rightarrow> session" where
  "rotate_credentials c s = s\<lparr>s_access_token := cb_access_token c, s_refresh_token := cb_refresh_token c,
     s_token_expiry := cb_expiry c\<rparr>"

definition session_set_write_branch :: "string option \<Rightarrow> session \<Rightarrow> session" where
  "session_set_write_branch b s = s\<lparr>s_write_branch := b\<rparr>"

definition session_set_default_scope :: "string option \<Rightarrow> string \<Rightarrow> session \<Rightarrow> session" where
  "session_set_default_scope cat sch s =
     (let s = (if cat \<noteq> None then s\<lparr>s_default_catalog := cat\<rparr> else s) in s\<lparr>s_default_schema := Some sch\<rparr>)"

definition with_catalog :: "string option \<Rightarrow> session \<Rightarrow> session" where
  "with_catalog c s = s\<lparr>s_default_catalog := c\<rparr>"

definition with_schema :: "string option \<Rightarrow> session \<Rightarrow> session" where
  "with_schema c s = s\<lparr>s_default_schema := c\<rparr>"

definition with_source :: "string option \<Rightarrow> session \<Rightarrow> session" where
  "with_source c s = s\<lparr>s_source := c\<rparr>"

definition with_peer_ip :: "string option \<Rightarrow> session \<Rightarrow> session" where
  "with_peer_ip c s = s\<lparr>s_peer_ip := c\<rparr>"

definition with_compression_codec :: "string option \<Rightarrow> session \<Rightarrow> session" where
  "with_compression_codec c s = s\<lparr>s_compression_codec := c\<rparr>"

definition with_transaction_id :: "string option \<Rightarrow> session \<Rightarrow> session" where
  "with_transaction_id t s = s\<lparr>s_transaction_id := t, s_client_transaction := False\<rparr>"

definition with_client_transaction_id :: "string \<Rightarrow> session \<Rightarrow> session" where
  "with_client_transaction_id t s = s\<lparr>s_transaction_id := Some t, s_client_transaction := True\<rparr>"

definition in_client_transaction :: "session \<Rightarrow> bool" where
  "in_client_transaction s \<longleftrightarrow> s_client_transaction s \<and> s_transaction_id s \<noteq> None"

definition with_identity :: "string option \<Rightarrow> string option \<Rightarrow> string list \<Rightarrow> session \<Rightarrow> session" where
  "with_identity sub mail grps s = s\<lparr>s_user := (s_user s)\<lparr>subject := sub, email := mail, groups := grps\<rparr>\<rparr>"

definition with_maintenance_authority :: "bool \<Rightarrow> session \<Rightarrow> session" where
  "with_maintenance_authority yes s = s\<lparr>s_maintenance_authority := yes\<rparr>"

definition std_duration :: "chrono \<Rightarrow> nat \<Rightarrow> int" where
  "std_duration ch secs = (case chrono_from_std ch secs of Some d \<Rightarrow> d | None \<Rightarrow> 0)"

definition is_token_expiring :: "chrono \<Rightarrow> datetime \<Rightarrow> nat \<Rightarrow> session \<Rightarrow> bool" where
  "is_token_expiring ch now buffer s \<longleftrightarrow> s_token_expiry s \<le> now + std_duration ch buffer"

definition touch :: "datetime \<Rightarrow> session \<Rightarrow> session" where
  "touch now s = s\<lparr>s_last_activity := now\<rparr>"

definition is_idle :: "chrono \<Rightarrow> datetime \<Rightarrow> nat \<Rightarrow> session \<Rightarrow> bool" where
  "is_idle ch now timeout s \<longleftrightarrow> std_duration ch timeout < now - s_last_activity s"

definition is_absolute_expired :: "chrono \<Rightarrow> datetime \<Rightarrow> nat \<Rightarrow> session \<Rightarrow> bool" where
  "is_absolute_expired ch now timeout s \<longleftrightarrow> std_duration ch timeout < now - s_created_at s"

section \<open>Authentication\<close>

record flight_credentials =
  fc_username :: "string option"
  fc_password :: "secret_string option"
  fc_bearer_token :: "secret_string option"
  fc_client_cert_cn :: "string option"
  fc_peer_ip :: "string option"

definition no_credentials :: flight_credentials where
  "no_credentials = \<lparr>fc_username = None, fc_password = None, fc_bearer_token = None,
     fc_client_cert_cn = None, fc_peer_ip = None\<rparr>"

record identity =
  user_id :: string
  display_name :: string
  id_roles :: "string list"
  id_subject :: "string option"
  id_email :: "string option"
  id_groups :: "string list"
  catalog_token :: "secret_string option"
  id_refresh_token :: "secret_string option"
  id_expires_at :: "datetime option"
  scopes :: "string list"

datatype auth_error = NotMyCredentials | AuthFailed string | AuthInternal string | RateLimited

fun display_auth_error :: "auth_error \<Rightarrow> string" where
  "display_auth_error NotMyCredentials = ''credentials not handled by this provider''"
| "display_auth_error (AuthFailed msg) = ''authentication failed: '' @ msg"
| "display_auth_error (AuthInternal err) = ''internal auth error: '' @ err"
| "display_auth_error RateLimited = ''authentication rate limit''"

type_synonym auth_provider = "flight_credentials \<Rightarrow> (auth_error, identity) outcome"

fun chain_authenticate_from :: "auth_provider list \<Rightarrow> auth_provider" where
  "chain_authenticate_from [] creds = Err (AuthFailed ''no provider accepted the credentials'')"
| "chain_authenticate_from (p # ps) creds =
     (case p creds of
        Ok i \<Rightarrow> Ok i
      | Err NotMyCredentials \<Rightarrow> chain_authenticate_from ps creds
      | Err (AuthFailed m) \<Rightarrow> Err (AuthFailed m)
      | Err (AuthInternal m) \<Rightarrow> Err (AuthInternal m)
      | Err RateLimited \<Rightarrow> Err RateLimited
      | Panic \<Rightarrow> Panic)"

definition chain_authenticate :: "auth_provider list \<Rightarrow> auth_provider" where
  "chain_authenticate providers creds =
     (if providers = [] then Err (AuthFailed ''no auth providers configured'')
      else chain_authenticate_from providers creds)"

fun chain_authenticate_oauth :: "auth_provider list \<Rightarrow> auth_provider" where
  "chain_authenticate_oauth [] creds = Err (AuthFailed ''no provider can validate OAuth bearer claims'')"
| "chain_authenticate_oauth (p # ps) creds =
     (case p creds of Err NotMyCredentials \<Rightarrow> chain_authenticate_oauth ps creds | result \<Rightarrow> result)"

definition DEFAULT_SESSION_LIFETIME :: int where
  "DEFAULT_SESSION_LIFETIME = 3600 * 1000000"

definition session_expiry :: "datetime \<Rightarrow> identity \<Rightarrow> datetime" where
  "session_expiry now i = (case id_expires_at i of Some e \<Rightarrow> e | None \<Rightarrow> now + DEFAULT_SESSION_LIFETIME)"

definition into_session :: "string \<Rightarrow> datetime \<Rightarrow> string option \<Rightarrow> identity \<Rightarrow> session" where
  "into_session uuid now fallback i =
     (let expiry = session_expiry now i;
          tok = (case catalog_token i of Some t \<Rightarrow> t | None \<Rightarrow> (case fallback of Some t \<Rightarrow> t | None \<Rightarrow> []))
      in with_identity (id_subject i) (id_email i) (id_groups i)
           (session_new uuid now (user_id i) tok (id_refresh_token i) expiry (id_roles i)))"

definition to_session :: "string \<Rightarrow> datetime \<Rightarrow> string option \<Rightarrow> identity \<Rightarrow> session" where
  "to_session uuid now fallback i = into_session uuid now fallback i"

section \<open>The chain\<close>

text \<open>A chain answers with the first provider that claims the credentials, and no provider after it is asked.\<close>

lemma chain_first_claim:
  assumes "\<forall>p \<in> set before. p creds = Err NotMyCredentials" "p creds \<noteq> Err NotMyCredentials"
  shows "chain_authenticate (before @ p # after) creds = p creds"
proof -
  have "chain_authenticate_from (before @ p # after) creds = p creds"
    using assms by (induction before) (auto split: outcome.splits auth_error.splits)
  then show ?thesis by (simp add: chain_authenticate_def)
qed

lemma chain_fails_closed:
  "\<forall>p \<in> set ps. p creds = Err NotMyCredentials \<Longrightarrow> \<exists>m. chain_authenticate ps creds = Err (AuthFailed m)"
proof -
  assume "\<forall>p \<in> set ps. p creds = Err NotMyCredentials"
  then have "chain_authenticate_from ps creds = Err (AuthFailed ''no provider accepted the credentials'')"
    by (induction ps) auto
  then show ?thesis by (simp add: chain_authenticate_def)
qed

lemma into_session_simps [simp]:
  "s_id (into_session uuid now fb i) = uuid"
  "s_created_at (into_session uuid now fb i) = now"
  "s_transaction_id (into_session uuid now fb i) = None"
  "s_user (into_session uuid now fb i) = \<lparr>username = user_id i, roles = id_roles i, subject = id_subject i,
     email = id_email i, groups = id_groups i\<rparr>"
  by (simp_all add: into_session_def Let_def with_identity_def session_new_def)

end
