(* ===== verification/Session_Manager.thy ===== *)
theory Session_Manager
  imports Session "HOL-Library.AList" "HOL-Library.Multiset"
begin

text \<open>
  The session manager (\<open>sqe-coordinator/src/session_manager.rs\<close>): sessions keyed by id, the index from
  bearer tokens to sessions, the cap with its least-recently-active eviction, expiry and the hook that
  sees every session that ends. The concurrent maps are maps; the one that is iterated, the sessions, is an
  association list whose order stands for the unspecified iteration order, and the lemmas hold for every
  order. Each method is one step, with one clock reading; \<open>update_session\<close> is also split at the point
  where it lets go of the map, which shows a race. Metrics and logs are left out. The SHA-256 of a token
  (\<open>fingerprint\<close>), the auth provider and the token cache of the legacy authenticator are arguments.
\<close>

record session_manager =
  sessions :: "(string \<times> session) list"
  last_activity :: "string \<rightharpoonup> int"
  by_token :: "string \<rightharpoonup> string"
  token_of :: "string \<rightharpoonup> string"
  max_sessions :: usize
  hook_set :: bool
  hook_calls :: "session list"

definition DEFAULT_MAX_SESSIONS :: usize where
  "DEFAULT_MAX_SESSIONS = 10000"

definition manager_new :: session_manager where
  "manager_new = \<lparr>sessions = [], last_activity = Map.empty, by_token = Map.empty, token_of = Map.empty,
     max_sessions = DEFAULT_MAX_SESSIONS, hook_set = False, hook_calls = []\<rparr>"

definition with_max_sessions :: "usize \<Rightarrow> session_manager \<Rightarrow> session_manager" where
  "with_max_sessions n m = m\<lparr>max_sessions := n\<rparr>"

definition session_count :: "session_manager \<Rightarrow> usize" where
  "session_count m = length (sessions m)"

definition on_session_end :: "session_manager \<Rightarrow> session_manager" where
  "on_session_end m = m\<lparr>hook_set := True\<rparr>"

definition session_ended :: "session \<Rightarrow> session_manager \<Rightarrow> session_manager" where
  "session_ended s m = (if hook_set m then m\<lparr>hook_calls := hook_calls m @ [s]\<rparr> else m)"

definition forget_token :: "string \<Rightarrow> session_manager \<Rightarrow> session_manager" where
  "forget_token i m = (case token_of m i of
       None \<Rightarrow> m
     | Some fp \<Rightarrow> m\<lparr>token_of := (token_of m)(i := None), by_token := (by_token m)(fp := None)\<rparr>)"

text \<open>The four calls every path makes that removes a session, in their order.\<close>

definition drop_session :: "string \<Rightarrow> session \<Rightarrow> session_manager \<Rightarrow> session_manager" where
  "drop_session i s m =
     (let m = m\<lparr>sessions := AList.delete i (sessions m)\<rparr>;
          m = session_ended s m;
          m = m\<lparr>last_activity := (last_activity m)(i := None)\<rparr>
      in forget_token i m)"

definition activity_micros :: "session_manager \<Rightarrow> string \<Rightarrow> int" where
  "activity_micros m i = (case last_activity m i of Some t \<Rightarrow> t | None \<Rightarrow> 0)"

lemma drop_session_simps [simp]:
  "sessions (drop_session i s m) = AList.delete i (sessions m)"
  "max_sessions (drop_session i s m) = max_sessions m" "hook_set (drop_session i s m) = hook_set m"
  by (simp_all add: drop_session_def Let_def session_ended_def forget_token_def split: option.splits)

function evict_to_make_room :: "session_manager \<Rightarrow> session_manager" where
  "evict_to_make_room m =
     (if max_sessions m = 0 \<or> length (sessions m) < max_sessions m then m
      else case min_by_key (\<lambda>(i, s). activity_micros m i) (sessions m) of
          None \<Rightarrow> m
        | Some (i, s) \<Rightarrow>
            case map_of (sessions m) i of
              Some s' \<Rightarrow> evict_to_make_room (drop_session i s' m)
            | None \<Rightarrow> m)"
  by pat_completeness auto
termination
proof (relation "measure (\<lambda>m. length (sessions m))")
  fix m p i s s'
  assume "min_by_key (\<lambda>(i, s). activity_micros m i) (sessions m) = Some p" "(i, s) = p"
  then have "i \<in> fst ` set (sessions m)" by (auto dest!: min_by_key_Some simp: image_iff) force
  then show "(drop_session i s' m, m) \<in> measure (\<lambda>m. length (sessions m))"
    by (auto simp: AList.delete_eq length_filter_less)
qed simp

declare evict_to_make_room.simps [simp del]

definition authenticate_credentials ::
    "auth_provider \<Rightarrow> string \<Rightarrow> datetime \<Rightarrow> flight_credentials \<Rightarrow> session_manager \<Rightarrow>
      (sqe_error, session) outcome \<times> session_manager" where
  "authenticate_credentials provider uuid now creds m =
     (case provider creds of
        Err RateLimited \<Rightarrow> (Err (with_code ResourceExhausted ''authentication rate limit''), m)
      | Err e \<Rightarrow> (Err (Auth (display_auth_error e)), m)
      | Panic \<Rightarrow> (Panic, m)
      | Ok identity \<Rightarrow>
          let s = to_session uuid now None identity;
              m = evict_to_make_room m;
              m = m\<lparr>sessions := AList.update (s_id s) s (sessions m)\<rparr>;
              m = m\<lparr>last_activity := (last_activity m)(s_id s \<mapsto> now)\<rparr>
          in (Ok s, m))"

definition record_activity :: "datetime \<Rightarrow> string \<Rightarrow> session_manager \<Rightarrow> session_manager" where
  "record_activity now i m = m\<lparr>last_activity := (last_activity m)(i \<mapsto> now)\<rparr>"

text \<open>\<open>cached\<close>: the token cache of the legacy authenticator, None without one.\<close>

definition get_session ::
    "(string \<rightharpoonup> credential_bundle) option \<Rightarrow> datetime \<Rightarrow> string \<Rightarrow> session_manager \<Rightarrow>
      session option \<times> session_manager" where
  "get_session cached now i m =
     (case map_of (sessions m) i of
        None \<Rightarrow> (None, m)
      | Some s \<Rightarrow>
          (case Option.bind cached (\<lambda>c. c i) of
             Some c \<Rightarrow>
               if cb_access_token c \<noteq> s_access_token s then
                 let updated = rotate_credentials c s;
                     m = m\<lparr>sessions := AList.update i updated (sessions m)\<rparr>
                 in (Some updated, record_activity now i m)
               else (Some s, record_activity now i m)
           | None \<Rightarrow>
               if s_token_expiry s \<le> now then (None, drop_session i s m)
               else (Some s, record_activity now i m)))"

definition session_for_bearer ::
    "(string \<Rightarrow> string) \<Rightarrow> auth_provider \<Rightarrow> (string \<rightharpoonup> credential_bundle) option \<Rightarrow> string \<Rightarrow> datetime \<Rightarrow>
      string \<Rightarrow> string option \<Rightarrow> session_manager \<Rightarrow> (sqe_error, session \<times> bool) outcome \<times> session_manager" where
  "session_for_bearer fingerprint provider cached uuid now tok peer m =
     (let fp = fingerprint tok;
          (hit, m) = (case by_token m fp of
              None \<Rightarrow> (None, m)
            | Some i \<Rightarrow>
                (case get_session cached now i m of
                   (Some s, m) \<Rightarrow> (Some s, m)
                 | (None, m) \<Rightarrow>
                     (None, m\<lparr>by_token := (by_token m)(fp := None), token_of := (token_of m)(i := None)\<rparr>)))
      in case hit of
           Some s \<Rightarrow> (Ok (s, False), m)
         | None \<Rightarrow>
             (case authenticate_credentials provider uuid now
                 (no_credentials\<lparr>fc_bearer_token := Some tok, fc_peer_ip := peer\<rparr>) m of
                (Ok s, m) \<Rightarrow> (Ok (s, True),
                   m\<lparr>by_token := (by_token m)(fp \<mapsto> s_id s), token_of := (token_of m)(s_id s \<mapsto> fp)\<rparr>)
              | (Err e, m) \<Rightarrow> (Err e, m)
              | (Panic, m) \<Rightarrow> (Panic, m)))"

definition authenticate ::
    "auth_provider \<Rightarrow> string \<Rightarrow> datetime \<Rightarrow> string \<Rightarrow> string \<Rightarrow> session_manager \<Rightarrow>
      (sqe_error, session) outcome \<times> session_manager" where
  "authenticate provider uuid now name pw m =
     authenticate_credentials provider uuid now (no_credentials\<lparr>fc_username := Some name, fc_password := Some pw\<rparr>) m"

text \<open>\<open>update_session\<close> and its two halves: it copies the session, then, the map released, inserts the copy.\<close>

definition update_read :: "string \<Rightarrow> session_manager \<Rightarrow> session option" where
  "update_read i m = map_of (sessions m) i"

definition update_write :: "datetime \<Rightarrow> string \<Rightarrow> session \<Rightarrow> session_manager \<Rightarrow> session_manager" where
  "update_write now i s m = record_activity now i (m\<lparr>sessions := AList.update i s (sessions m)\<rparr>)"

definition update_session ::
    "datetime \<Rightarrow> string \<Rightarrow> (session \<Rightarrow> session) \<Rightarrow> session_manager \<Rightarrow> bool \<times> session_manager" where
  "update_session now i f m =
     (case update_read i m of None \<Rightarrow> (False, m) | Some s \<Rightarrow> (True, update_write now i (f s) m))"

definition set_write_branch :: "datetime \<Rightarrow> string \<Rightarrow> string option \<Rightarrow> session_manager \<Rightarrow> bool \<times> session_manager" where
  "set_write_branch now i b m = update_session now i (session_set_write_branch b) m"

definition set_default_scope ::
    "datetime \<Rightarrow> string \<Rightarrow> string option \<Rightarrow> string \<Rightarrow> session_manager \<Rightarrow> bool \<times> session_manager" where
  "set_default_scope now i cat sch m = update_session now i (session_set_default_scope cat sch) m"

definition set_transaction_id :: "datetime \<Rightarrow> string \<Rightarrow> string option \<Rightarrow> session_manager \<Rightarrow> bool \<times> session_manager" where
  "set_transaction_id now i t m = update_session now i (\<lambda>s. s\<lparr>s_transaction_id := t\<rparr>) m"

definition remove_session :: "string \<Rightarrow> session_manager \<Rightarrow> session_manager" where
  "remove_session i m = (case map_of (sessions m) i of Some s \<Rightarrow> drop_session i s m | None \<Rightarrow> m)"

definition last_activity_at :: "session_manager \<Rightarrow> string \<Rightarrow> datetime \<Rightarrow> datetime" where
  "last_activity_at m i fallback = (case last_activity m i of Some t \<Rightarrow> t | None \<Rightarrow> fallback)"

fun sweep_ids :: "string list \<Rightarrow> nat \<Rightarrow> session_manager \<Rightarrow> nat \<times> session_manager" where
  "sweep_ids [] removed m = (removed, m)"
| "sweep_ids (i # is) removed m =
     (case map_of (sessions m) i of
        Some s \<Rightarrow> sweep_ids is (removed + 1) (drop_session i s m)
      | None \<Rightarrow> sweep_ids is removed m)"

text \<open>The idle timeout is cast to \<open>i64\<close>; \<open>Duration::seconds\<close> panics on what it cannot hold.\<close>

definition sweep_expired_sessions ::
    "chrono \<Rightarrow> datetime \<Rightarrow> u64 \<Rightarrow> u64 \<Rightarrow> session_manager \<Rightarrow> (sqe_error, nat \<times> session_manager) outcome" where
  "sweep_expired_sessions ch now idle_timeout_secs absolute_timeout_secs m =
     (case chrono_seconds ch (sint idle_timeout_secs) of
        None \<Rightarrow> Panic
      | Some idle_timeout \<Rightarrow>
          let expired_ids = map fst (filter (\<lambda>(i, s).
                idle_timeout < now - last_activity_at m i (s_last_activity s) \<or>
                is_absolute_expired ch now (unat absolute_timeout_secs) s) (sessions m))
          in Ok (sweep_ids expired_ids 0 m))"

section \<open>Runs\<close>

text \<open>
  A run is a sequence of method calls. Every call brings its clock reading, what the provider and the
  token cache answer at that moment, and a fresh UUID where one may be drawn. The log holds, for every
  session created, the bearer token it was created for (if any), its id and its user.
\<close>

datatype session_op =
    Login auth_provider flight_credentials string datetime
  | Bearer auth_provider "(string \<rightharpoonup> credential_bundle) option" string "string option" string datetime
  | Lookup "(string \<rightharpoonup> credential_bundle) option" string datetime
  | SetWriteBranch string "string option" datetime
  | SetDefaultScope string "string option" string datetime
  | SetTransactionId string "string option" datetime
  | Close string
  | Sweep u64 u64 datetime

type_synonym created_log = "(string option \<times> string \<times> session_user) list"

fun session_exec :: "(string \<Rightarrow> string) \<Rightarrow> chrono \<Rightarrow> session_op \<Rightarrow> session_manager \<times> created_log \<Rightarrow>
    session_manager \<times> created_log" where
  "session_exec fp ch (Login p creds uuid now) (m, log) =
     (case authenticate_credentials p uuid now creds m of
        (Ok s, m') \<Rightarrow> (m', log @ [(None, s_id s, s_user s)]) | (_, m') \<Rightarrow> (m', log))"
| "session_exec fp ch (Bearer p cached tok peer uuid now) (m, log) =
     (case session_for_bearer fp p cached uuid now tok peer m of
        (Ok (s, True), m') \<Rightarrow> (m', log @ [(Some tok, s_id s, s_user s)]) | (_, m') \<Rightarrow> (m', log))"
| "session_exec fp ch (Lookup cached i now) (m, log) = (snd (get_session cached now i m), log)"
| "session_exec fp ch (SetWriteBranch i b now) (m, log) = (snd (set_write_branch now i b m), log)"
| "session_exec fp ch (SetDefaultScope i c sch now) (m, log) = (snd (set_default_scope now i c sch m), log)"
| "session_exec fp ch (SetTransactionId i t now) (m, log) = (snd (set_transaction_id now i t m), log)"
| "session_exec fp ch (Close i) (m, log) = (remove_session i m, log)"
| "session_exec fp ch (Sweep idle absolute now) (m, log) =
     (case sweep_expired_sessions ch now idle absolute m of Ok (n, m') \<Rightarrow> (m', log) | _ \<Rightarrow> (m, log))"

definition log_ids :: "created_log \<Rightarrow> string list" where
  "log_ids log = map (\<lambda>(t, i, u). i) log"

fun draws_fresh :: "session_op \<Rightarrow> created_log \<Rightarrow> bool" where
  "draws_fresh (Login p creds uuid now) log \<longleftrightarrow> uuid \<notin> set (log_ids log)"
| "draws_fresh (Bearer p cached tok peer uuid now) log \<longleftrightarrow> uuid \<notin> set (log_ids log)"
| "draws_fresh _ log \<longleftrightarrow> True"

fun session_run :: "(string \<Rightarrow> string) \<Rightarrow> chrono \<Rightarrow> session_op list \<Rightarrow> session_manager \<times> created_log \<Rightarrow>
    (session_manager \<times> created_log) option" where
  "session_run fp ch [] st = Some st"
| "session_run fp ch (op # ops) st =
     (if draws_fresh op (snd st) then session_run fp ch ops (session_exec fp ch op st) else None)"

definition manager_start :: "usize \<Rightarrow> session_manager" where
  "manager_start cap = on_session_end (with_max_sessions cap manager_new)"

section \<open>The invariant\<close>

definition live :: "session_manager \<Rightarrow> string set" where
  "live m = fst ` set (sessions m)"

definition inverse_maps :: "('a \<rightharpoonup> 'b) \<Rightarrow> ('b \<rightharpoonup> 'a) \<Rightarrow> bool" where
  "inverse_maps f g \<longleftrightarrow> (\<forall>a b. f a = Some b \<longleftrightarrow> g b = Some a)"

lemma inverse_maps_forget:
  assumes "inverse_maps f g"
  shows "inverse_maps (case g b of None \<Rightarrow> f | Some a \<Rightarrow> f(a := None)) (g(b := None))"
proof (cases "g b")
  case None
  then have "g(b := None) = g" by auto
  with assms None show ?thesis by simp
next
  case (Some a)
  then have "f a = Some b" using assms by (simp add: inverse_maps_def)
  with assms Some show ?thesis by (auto simp: inverse_maps_def) (metis option.inject)+
qed

lemma inverse_maps_link:
  assumes "inverse_maps f g" "f a = None" "g b = None"
  shows "inverse_maps (f(a \<mapsto> b)) (g(b \<mapsto> a))"
proof -
  have iff: "f x = Some y \<longleftrightarrow> g y = Some x" for x y using assms(1) by (simp add: inverse_maps_def)
  have "g y \<noteq> Some a" "f x \<noteq> Some b" for x y
    using iff [of a y] iff [of x b] assms(2,3) by simp_all
  with assms(1) show ?thesis by (auto simp: inverse_maps_def)
qed

definition manager_wf :: "session_manager \<Rightarrow> bool" where
  "manager_wf m \<longleftrightarrow> distinct (map fst (sessions m)) \<and> (\<forall>(i, s) \<in> set (sessions m). s_id s = i) \<and>
     dom (last_activity m) = live m \<and> dom (token_of m) \<subseteq> live m \<and>
     inverse_maps (by_token m) (token_of m) \<and>
     (max_sessions m = 0 \<or> length (sessions m) \<le> max_sessions m)"

definition accounted :: "(string \<Rightarrow> string) \<Rightarrow> session_manager \<Rightarrow> created_log \<Rightarrow> bool" where
  "accounted fp m log \<longleftrightarrow> hook_set m \<and> distinct (log_ids log) \<and>
     mset (log_ids log) = mset (map fst (sessions m)) + mset (map s_id (hook_calls m)) \<and>
     (\<forall>i s. map_of (sessions m) i = Some s \<longrightarrow> (\<exists>t. (t, i, s_user s) \<in> set log)) \<and>
     (\<forall>f i. by_token m f = Some i \<longrightarrow> (\<exists>tok u. fp tok = f \<and> (Some tok, i, u) \<in> set log))"

lemma live_map_of: "i \<in> live m \<longleftrightarrow> map_of (sessions m) i \<noteq> None"
  by (simp add: live_def map_of_eq_None_iff)

lemma drop_session_more [simp]:
  "hook_set m \<Longrightarrow> hook_calls (drop_session i s m) = hook_calls m @ [s]"
  "last_activity (drop_session i s m) = (last_activity m)(i := None)"
  "token_of (drop_session i s m) = (token_of m)(i := None)"
  "by_token (drop_session i s m) = (case token_of m i of None \<Rightarrow> by_token m | Some f \<Rightarrow> (by_token m)(f := None))"
  by (auto simp: drop_session_def Let_def session_ended_def forget_token_def split: option.splits)

lemma mset_delete:
  assumes "distinct (map fst xs)" "map_of xs i = Some s"
  shows "mset (map fst xs) = add_mset i (mset (map fst (AList.delete i xs)))"
proof -
  have "i \<in> set (map fst xs)" using assms(2) by (metis domI dom_map_of_conv_image_fst list.set_map)
  then have "mset (map fst xs) = add_mset i (mset (remove1 i (map fst xs)))" by simp
  also have "remove1 i (map fst xs) = filter ((\<noteq>) i) (map fst xs)"
    using assms(1) by (simp add: distinct_remove1_removeAll removeAll_filter_not_eq)
  also have "\<dots> = map fst (AList.delete i xs)"
    by (simp add: AList.delete_eq filter_map comp_def split_def)
  finally show ?thesis .
qed

lemma drop_session_inv:
  assumes "manager_wf m" "accounted fp m log" "map_of (sessions m) i = Some s"
  shows "manager_wf (drop_session i s m)" "accounted fp (drop_session i s m) log"
proof -
  have "live (drop_session i s m) = live m - {i}"
    by (auto simp: live_def AList.delete_eq image_iff split_def)
  moreover have "length (AList.delete i (sessions m)) \<le> length (sessions m)" by (rule length_delete_le)
  moreover have "inverse_maps (by_token (drop_session i s m)) (token_of (drop_session i s m))"
    using assms(1) by (simp add: manager_wf_def inverse_maps_forget)
  moreover have "distinct (map fst (AList.delete i (sessions m)))" "set (AList.delete i (sessions m)) \<subseteq> set (sessions m)"
    using assms(1) distinct_delete [of "sessions m" i] by (auto simp: manager_wf_def) (auto simp: AList.delete_eq)
  ultimately show "manager_wf (drop_session i s m)"
    using assms(1) by (auto simp: manager_wf_def)
  have "s_id s = i" using assms(1,3) by (auto simp: manager_wf_def dest!: map_of_SomeD)
  then have "mset (map fst (sessions m)) = add_mset (s_id s) (mset (map fst (AList.delete i (sessions m))))"
    using assms(1,3) mset_delete by (fastforce simp: manager_wf_def)
  with assms(2) show "accounted fp (drop_session i s m) log"
    by (auto simp: accounted_def delete_conv' split: option.splits if_splits)
qed

lemma set_update_distinct:
  "distinct (map fst xs) \<Longrightarrow> set (AList.update k v xs) = insert (k, v) {p \<in> set xs. fst p \<noteq> k}"
  by (induction xs) (auto simp: image_iff)

lemma map_fst_update_live: "k \<in> fst ` set xs \<Longrightarrow> map fst (AList.update k v xs) = map fst xs"
  by (simp add: update_keys)

lemma map_fst_update_new: "k \<notin> fst ` set xs \<Longrightarrow> map fst (AList.update k v xs) = map fst xs @ [k]"
  by (simp add: update_keys)

lemma update_write_inv:
  assumes "manager_wf m" "accounted fp m log" "map_of (sessions m) i = Some s"
    and "s_id s' = s_id s" "s_user s' = s_user s"
  shows "manager_wf (update_write now i s' m)" "accounted fp (update_write now i s' m) log"
proof -
  have i: "i \<in> live m" using assms(3) by (simp add: live_map_of)
  then have keys: "map fst (AList.update i s' (sessions m)) = map fst (sessions m)"
    by (simp add: map_fst_update_live live_def)
  then have len: "length (AList.update i s' (sessions m)) = length (sessions m)"
    by (metis length_map)
  have live: "live (update_write now i s' m) = live m"
    using keys by (simp add: update_write_def record_activity_def live_def) (metis list.set_map)
  have "s_id s' = i" using assms(1,3,4) by (auto simp: manager_wf_def dest!: map_of_SomeD)
  then have "\<forall>(k, x) \<in> set (AList.update i s' (sessions m)). s_id x = k"
    using assms(1) by (auto simp: manager_wf_def set_update_distinct)
  with assms(1) i keys len live show "manager_wf (update_write now i s' m)"
    by (auto simp: manager_wf_def update_write_def record_activity_def)
  show "accounted fp (update_write now i s' m) log"
    using assms(2,3,5) keys by (auto simp: accounted_def update_write_def record_activity_def update_conv')
qed

lemma record_activity_inv:
  assumes "manager_wf m" "accounted fp m log" "i \<in> live m"
  shows "manager_wf (record_activity now i m)" "accounted fp (record_activity now i m) log"
  using assms by (auto simp: manager_wf_def accounted_def record_activity_def live_def)

lemma get_session_inv:
  assumes "manager_wf m" "accounted fp m log"
  shows "manager_wf (snd (get_session cached now i m))" "accounted fp (snd (get_session cached now i m)) log"
proof -
  have "manager_wf (snd (get_session cached now i m)) \<and> accounted fp (snd (get_session cached now i m)) log"
  proof (cases "map_of (sessions m) i")
    case (Some s)
    then have "i \<in> live m" by (simp add: live_map_of)
    moreover have "record_activity now i (m\<lparr>sessions := AList.update i x (sessions m)\<rparr>) = update_write now i x m" for x
      by (simp add: update_write_def)
    ultimately show ?thesis
      using Some assms drop_session_inv [OF assms Some] record_activity_inv [OF assms]
        update_write_inv [OF assms Some, of "rotate_credentials _ s"]
      by (auto simp: get_session_def rotate_credentials_def Let_def split: option.splits)
  qed (simp add: get_session_def assms)
  then show "manager_wf (snd (get_session cached now i m))" "accounted fp (snd (get_session cached now i m)) log" by auto
qed

lemma update_session_inv:
  assumes "manager_wf m" "accounted fp m log" "\<And>s. s_id (f s) = s_id s" "\<And>s. s_user (f s) = s_user s"
  shows "manager_wf (snd (update_session now i f m)) \<and> accounted fp (snd (update_session now i f m)) log"
  using assms update_write_inv [OF assms(1,2)]
  by (auto simp: update_session_def update_read_def split: option.splits)

lemma remove_session_inv:
  assumes "manager_wf m" "accounted fp m log"
  shows "manager_wf (remove_session i m) \<and> accounted fp (remove_session i m) log"
  using assms drop_session_inv [OF assms] by (auto simp: remove_session_def split: option.splits)

lemma sweep_ids_inv:
  "manager_wf m \<Longrightarrow> accounted fp m log \<Longrightarrow> sweep_ids is n m = (n', m') \<Longrightarrow> manager_wf m' \<and> accounted fp m' log"
  by (induction "is" arbitrary: n m) (auto split: option.splits dest: drop_session_inv)

lemma evict_inv:
  "manager_wf m \<Longrightarrow> accounted fp m log \<Longrightarrow>
    manager_wf (evict_to_make_room m) \<and> accounted fp (evict_to_make_room m) log \<and>
    max_sessions (evict_to_make_room m) = max_sessions m \<and>
    (max_sessions m = 0 \<or> length (sessions (evict_to_make_room m)) < max_sessions m)"
proof (induction m rule: evict_to_make_room.induct)
  case (1 m)
  show ?case
  proof (cases "max_sessions m = 0 \<or> length (sessions m) < max_sessions m")
    case True
    then have "evict_to_make_room m = m" by (subst evict_to_make_room.simps) simp
    with True 1(2,3) show ?thesis by simp
  next
    case False
    then have "sessions m \<noteq> []" by auto
    then obtain i s where p: "min_by_key (\<lambda>(i, s). activity_micros m i) (sessions m) = Some (i, s)"
      using min_by_key_exists by (metis surj_pair)
    then have "(i, s) \<in> set (sessions m)" by (auto dest: min_by_key_Some)
    with 1(2) have s: "map_of (sessions m) i = Some s" by (simp add: manager_wf_def)
    have "evict_to_make_room m = evict_to_make_room (drop_session i s m)"
      using False p s by (subst evict_to_make_room.simps) simp
    with 1(1) [OF False p refl s] drop_session_inv [OF 1(2,3) s] show ?thesis by simp
  qed
qed

lemma by_token_dropped:
  assumes "manager_wf m" "by_token m f = Some i"
  shows "by_token (drop_session i s m) f = None \<and> token_of (drop_session i s m) i = None"
  using assms by (auto simp: manager_wf_def inverse_maps_def)

lemma by_token_evicted: "by_token m f = None \<Longrightarrow> by_token (evict_to_make_room m) f = None"
proof (induction m rule: evict_to_make_room.induct)
  case (1 m)
  then show ?case
    by (subst evict_to_make_room.simps) (auto split: option.splits if_splits)
qed

lemma insert_session_inv:
  fixes now :: datetime
  assumes "manager_wf m" "accounted fp m log" "max_sessions m = 0 \<or> length (sessions m) < max_sessions m"
    and "s_id s \<notin> set (log_ids log)"
  defines "m' \<equiv> m\<lparr>sessions := AList.update (s_id s) s (sessions m), last_activity := (last_activity m)(s_id s \<mapsto> now)\<rparr>"
  shows "manager_wf m' \<and> accounted fp m' (log @ [(t, s_id s, s_user s)]) \<and>
    token_of m' (s_id s) = None \<and> s_id s \<in> live m'"
proof (intro conjI)
  have "mset (log_ids log) = mset (map fst (sessions m)) + mset (map s_id (hook_calls m))"
    using assms(2) by (simp add: accounted_def)
  then have "set (log_ids log) = set (map fst (sessions m)) \<union> set (map s_id (hook_calls m))"
    by (metis set_mset_mset set_mset_union)
  with assms(4) have new: "s_id s \<notin> fst ` set (sessions m)" by auto
  note keys = map_fst_update_new [OF new, of s]
  have len: "length (AList.update (s_id s) s (sessions m)) = length (sessions m) + 1"
    using arg_cong [OF keys, of length] by simp
  have live: "live m' = insert (s_id s) (live m)"
    using arg_cong [OF keys, of set] by (simp add: m'_def live_def)
  show "token_of m' (s_id s) = None"
    using assms(1) new by (auto simp: manager_wf_def m'_def live_def)
  show "s_id s \<in> live m'" by (simp add: live)
  have "\<forall>(k, x) \<in> set (AList.update (s_id s) s (sessions m)). s_id x = k"
    using assms(1) by (auto simp: manager_wf_def set_update_distinct)
  with assms(1,3) keys len live new show "manager_wf m'"
    by (auto simp: manager_wf_def m'_def)
  show "accounted fp m' (log @ [(t, s_id s, s_user s)])"
    using assms(2,4) keys by (auto simp: accounted_def m'_def update_conv' log_ids_def) blast
qed

lemma authenticate_inv:
  assumes "manager_wf m" "accounted fp m log" "authenticate_credentials p uuid now creds m = (r, m')"
    and "uuid \<notin> set (log_ids log)"
  shows "case r of Ok s \<Rightarrow> manager_wf m' \<and> accounted fp m' (log @ [(t, s_id s, s_user s)]) \<and>
      token_of m' (s_id s) = None \<and> s_id s \<in> live m' \<and> (by_token m f = None \<longrightarrow> by_token m' f = None)
    | _ \<Rightarrow> m' = m"
proof (cases "p creds")
  case (Ok i)
  let ?s = "to_session uuid now None i"
  have s: "s_id ?s = uuid" by (simp add: to_session_def)
  note ev = evict_inv [OF assms(1,2)]
  have "r = Ok ?s" "m' = (evict_to_make_room m)\<lparr>sessions := AList.update (s_id ?s) ?s (sessions (evict_to_make_room m)),
      last_activity := (last_activity (evict_to_make_room m))(s_id ?s \<mapsto> now)\<rparr>"
    using assms(3) Ok by (auto simp: authenticate_credentials_def Let_def)
  with insert_session_inv [where m = "evict_to_make_room m" and fp = fp and log = log and s = ?s and now = now and t = t]
    ev assms(4) s by_token_evicted [of m f]
  show ?thesis by simp
qed (use assms(3) in \<open>auto simp: authenticate_credentials_def split: auth_error.splits\<close>)

lemma link_token_inv:
  assumes "manager_wf m" "accounted fp m log" "by_token m (fp tok) = None" "token_of m i = None"
    and "i \<in> live m" "(Some tok, i, u) \<in> set log"
  defines "m' \<equiv> m\<lparr>by_token := (by_token m)(fp tok \<mapsto> i), token_of := (token_of m)(i \<mapsto> fp tok)\<rparr>"
  shows "manager_wf m' \<and> accounted fp m' log"
proof -
  have "inverse_maps (by_token m') (token_of m')"
    using assms(1,3,4) by (simp add: m'_def manager_wf_def inverse_maps_link)
  then show ?thesis using assms by (auto simp: manager_wf_def accounted_def m'_def live_def)
qed

lemma get_session_None:
  assumes "manager_wf m" "by_token m f = Some i" "get_session cached now i m = (None, m')"
  shows "by_token m' f = None \<and> token_of m' i = None"
proof -
  have "i \<in> live m" using assms(1,2) by (auto simp: manager_wf_def inverse_maps_def)
  then obtain s where "map_of (sessions m) i = Some s" by (auto simp: live_map_of)
  with assms(3) have "m' = drop_session i s m"
    by (auto simp: get_session_def Let_def split: option.splits if_splits)
  with by_token_dropped [OF assms(1,2)] show ?thesis by simp
qed

text \<open>
  The first half of \<open>session_for_bearer\<close>: a hit, or a state in which the token is not known.
\<close>

lemma bearer_miss:
  assumes "manager_wf m" "accounted fp m log" "by_token m (fp tok) = Some i" "get_session cached now i m = (None, m1)"
  shows "m1\<lparr>by_token := (by_token m1)(fp tok := None), token_of := (token_of m1)(i := None)\<rparr> = m1"
    "manager_wf m1" "accounted fp m1 log" "by_token m1 (fp tok) = None"
proof -
  have none: "by_token m1 (fp tok) = None" "token_of m1 i = None"
    using get_session_None [OF assms(1,3,4)] by auto
  then have "(by_token m1)(fp tok := None) = by_token m1" "(token_of m1)(i := None) = token_of m1" by auto
  then show "m1\<lparr>by_token := (by_token m1)(fp tok := None), token_of := (token_of m1)(i := None)\<rparr> = m1" by simp
  show "by_token m1 (fp tok) = None" by (rule none(1))
  show "manager_wf m1" "accounted fp m1 log" using get_session_inv [OF assms(1,2), of cached now i] assms(4) by auto
qed

definition bearer_miss_step ::
    "(string \<Rightarrow> string) \<Rightarrow> auth_provider \<Rightarrow> string \<Rightarrow> datetime \<Rightarrow> string \<Rightarrow> string option \<Rightarrow> session_manager \<Rightarrow>
      (sqe_error, session \<times> bool) outcome \<times> session_manager" where
  "bearer_miss_step fp p uuid now tok peer m =
     (case authenticate_credentials p uuid now (no_credentials\<lparr>fc_bearer_token := Some tok, fc_peer_ip := peer\<rparr>) m of
        (Ok s, m) \<Rightarrow> (Ok (s, True),
           m\<lparr>by_token := (by_token m)(fp tok \<mapsto> s_id s), token_of := (token_of m)(s_id s \<mapsto> fp tok)\<rparr>)
      | (Err e, m) \<Rightarrow> (Err e, m)
      | (Panic, m) \<Rightarrow> (Panic, m))"

lemma bearer_miss_step_inv:
  assumes "manager_wf m" "accounted fp m log" "by_token m (fp tok) = None" "uuid \<notin> set (log_ids log)"
    and "bearer_miss_step fp p uuid now tok peer m = (r, m')"
  shows "(\<exists>s. r = Ok (s, True) \<and> manager_wf m' \<and> accounted fp m' (log @ [(Some tok, s_id s, s_user s)])) \<or>
    ((\<forall>x. r \<noteq> Ok x) \<and> manager_wf m' \<and> accounted fp m' log)"
proof -
  obtain r0 m0 where a: "authenticate_credentials p uuid now
      (no_credentials\<lparr>fc_bearer_token := Some tok, fc_peer_ip := peer\<rparr>) m = (r0, m0)" by fastforce
  show ?thesis
  proof (cases r0)
    case (Ok s)
    with authenticate_inv [OF assms(1,2) a assms(4), of "Some tok" "fp tok"] assms(3) have
      "manager_wf m0" "accounted fp m0 (log @ [(Some tok, s_id s, s_user s)])" "by_token m0 (fp tok) = None"
      "token_of m0 (s_id s) = None" "s_id s \<in> live m0" by simp_all
    from link_token_inv [OF this(1-5), of "s_user s"] a Ok assms(5) show ?thesis
      by (auto simp: bearer_miss_step_def)
  qed (use authenticate_inv [OF assms(1,2) a assms(4)] assms(1,2,5) a in \<open>auto simp: bearer_miss_step_def\<close>)
qed

lemma session_for_bearer_cases:
  assumes "manager_wf m" "accounted fp m log" "session_for_bearer fp p cached uuid now tok peer m = (r, m')"
  obtains (hit) i s where "by_token m (fp tok) = Some i" "get_session cached now i m = (Some s, m')" "r = Ok (s, False)"
  | (miss) m1 where "manager_wf m1" "accounted fp m1 log" "by_token m1 (fp tok) = None"
      "bearer_miss_step fp p uuid now tok peer m1 = (r, m')"
proof (cases "by_token m (fp tok)")
  case None
  then show ?thesis using assms by (intro miss [of m]) (simp_all add: session_for_bearer_def bearer_miss_step_def Let_def)
next
  case (Some i)
  obtain g m1 where g: "get_session cached now i m = (g, m1)" by fastforce
  show ?thesis
  proof (cases g)
    case None
    note bm = bearer_miss [OF assms(1,2) Some g [unfolded None]]
    show ?thesis using assms(3) Some g None bm
      by (intro miss [of m1]) (simp_all add: session_for_bearer_def bearer_miss_step_def Let_def)
  next
    case (Some s)
    with \<open>by_token m (fp tok) = Some i\<close> g assms(3) show ?thesis
      by (intro hit [of i s]) (simp_all add: session_for_bearer_def Let_def)
  qed
qed

section \<open>Every run\<close>

lemma session_exec_inv:
  assumes "manager_wf m" "accounted fp m log" "draws_fresh op log" "session_exec fp ch op (m, log) = (m', log')"
  shows "manager_wf m' \<and> accounted fp m' log'"
proof (cases op)
  case (Login p creds uuid now)
  obtain r m1 where a: "authenticate_credentials p uuid now creds m = (r, m1)" by fastforce
  have "uuid \<notin> set (log_ids log)" using assms(3) Login by simp
  from authenticate_inv [OF assms(1,2) a this, of None] assms(1,2,4) Login a show ?thesis by (cases r) auto
next
  case (Bearer p cached tok peer uuid now)
  obtain r m1 where b: "session_for_bearer fp p cached uuid now tok peer m = (r, m1)" by fastforce
  have fresh: "uuid \<notin> set (log_ids log)" using assms(3) Bearer by simp
  from assms(1,2) b show ?thesis
  proof (cases rule: session_for_bearer_cases)
    case (hit i s)
    with get_session_inv [OF assms(1,2), of cached now i] assms(4) Bearer b show ?thesis by auto
  next
    case (miss m2)
    from bearer_miss_step_inv [OF miss(1-3) fresh miss(4)] assms(4) Bearer b show ?thesis by (cases r) auto
  qed
next
  case (Sweep idle absolute now)
  then show ?thesis using assms sweep_ids_inv [OF assms(1,2)]
    by (auto simp: sweep_expired_sessions_def Let_def split: option.splits prod.splits)
qed (use assms get_session_inv [OF assms(1,2)] remove_session_inv [OF assms(1,2)]
      update_session_inv [OF assms(1,2)] in
    \<open>auto simp: set_write_branch_def set_default_scope_def set_transaction_id_def session_set_write_branch_def
      session_set_default_scope_def Let_def\<close>)

lemma session_run_inv:
  "session_run fp ch ops st = Some (m, log) \<Longrightarrow> manager_wf (fst st) \<Longrightarrow> accounted fp (fst st) (snd st) \<Longrightarrow>
   manager_wf m \<and> accounted fp m log"
proof (induction ops arbitrary: st)
  case (Cons op ops)
  obtain m0 log0 where st: "st = (m0, log0)" by (cases st)
  obtain m1 log1 where e: "session_exec fp ch op (m0, log0) = (m1, log1)" by fastforce
  from Cons.prems st e have "draws_fresh op log0" "session_run fp ch ops (m1, log1) = Some (m, log)"
    by (auto split: if_splits)
  with session_exec_inv [OF _ _ _ e] Cons.prems(2,3) st show ?case by (intro Cons.IH [of "(m1, log1)"]) auto
qed simp

lemma manager_start_inv: "manager_wf (manager_start cap)" "accounted fp (manager_start cap) []"
  by (auto simp: manager_start_def on_session_end_def with_max_sessions_def manager_new_def manager_wf_def
      accounted_def live_def inverse_maps_def log_ids_def)


lemma get_session_user:
  "get_session cached now i m = (Some s, m') \<Longrightarrow> \<exists>s0. map_of (sessions m) i = Some s0 \<and> s_id s = s_id s0 \<and> s_user s = s_user s0"
  by (auto simp: get_session_def rotate_credentials_def Let_def split: option.splits if_splits)

lemma log_ids_unique:
  assumes "distinct (log_ids log)" "(t, i, u) \<in> set log" "(t', i, u') \<in> set log"
  shows "t = t' \<and> u = u'"
  using assms by (induction log) (auto simp: log_ids_def image_iff)

text \<open>
  C9: A bearer token is only ever served the session that was created for that very token. When the
  index answers a bearer request in any reachable state (no new session), the session it answers with
  was created by authenticating the same token, and its user is still the user the provider returned
  then. The token is assumed to share its fingerprint with no other token that a session was created for.
\<close>

theorem bearer_session_own:
  assumes "session_run fp ch ops (manager_start cap, []) = Some (m, log)"
    and "\<And>t i u. (Some t, i, u) \<in> set log \<Longrightarrow> fp t = fp tok \<Longrightarrow> t = tok"
    and "session_for_bearer fp p cached uuid now tok peer m = (Ok (s, False), m')"
  shows "(Some tok, s_id s, s_user s) \<in> set log"
proof -
  have wf: "manager_wf m" and acc: "accounted fp m log"
    using session_run_inv [OF assms(1)] manager_start_inv by auto
  from wf acc assms(3) show ?thesis
  proof (cases rule: session_for_bearer_cases)
    case (hit i s0)
    from get_session_user [OF hit(2)] obtain s1 where s1: "map_of (sessions m) i = Some s1" "s_id s0 = s_id s1" "s_user s0 = s_user s1"
      by blast
    have "s_id s1 = i" using wf s1(1) by (auto simp: manager_wf_def dest!: map_of_SomeD)
    moreover obtain t where "(t, i, s_user s1) \<in> set log" using acc s1(1) unfolding accounted_def by blast
    moreover obtain tok' u where "fp tok' = fp tok" "(Some tok', i, u) \<in> set log"
      using acc hit(1) unfolding accounted_def by blast
    moreover have "distinct (log_ids log)" using acc by (simp add: accounted_def)
    ultimately show ?thesis
      using log_ids_unique [of log t i "s_user s1" "Some tok'" u] assms(2) [of tok' i u] hit(3) s1 by auto
  next
    case (miss m1)
    then show ?thesis
      by (auto simp: bearer_miss_step_def split: prod.splits outcome.splits)
  qed
qed

section \<open>A race\<close>

text \<open>
  Between the two halves of an update another thread may close the session. The second half then inserts
  the copy: the session the hook has already seen is alive again under its old id.
\<close>

lemma closed_session_resurrected:
  assumes "update_read i m = Some s" "hook_set m"
  shows "map_of (sessions (remove_session i m)) i = None"
    "s \<in> set (hook_calls (update_write now i (f s) (remove_session i m)))"
    "map_of (sessions (update_write now i (f s) (remove_session i m))) i = Some (f s)"
  using assms by (simp_all add: update_read_def update_write_def remove_session_def record_activity_def
      update_conv' delete_conv')

section \<open>Example\<close>

definition alice_identity :: identity where
  "alice_identity = \<lparr>user_id = ''alice'', display_name = ''Alice'', id_roles = [], id_subject = None, id_email = None,
     id_groups = [], catalog_token = None, id_refresh_token = None, id_expires_at = Some 1000, scopes = []\<rparr>"

definition alice_provider :: auth_provider where
  "alice_provider creds = Ok alice_identity"

definition alice_ops :: "session_op list" where
  "alice_ops = [Bearer alice_provider None ''jwt'' None ''u1'' 0, SetTransactionId ''u1'' (Some ''t'') 1,
     Login alice_provider no_credentials ''u2'' 2, Close ''u2'']"

definition alice_session :: session where
  "alice_session = (into_session ''u1'' 0 None alice_identity)\<lparr>s_transaction_id := Some ''t''\<rparr>"

definition alice_manager :: session_manager where
  "alice_manager = \<lparr>sessions = [(''u1'', alice_session)], last_activity = [''u1'' \<mapsto> 1],
     by_token = [''jwt'' \<mapsto> ''u1''], token_of = [''u1'' \<mapsto> ''jwt''], max_sessions = 2, hook_set = True,
     hook_calls = [into_session ''u2'' 2 None alice_identity]\<rparr>"

definition alice_log :: created_log where
  "alice_log = [(Some ''jwt'', ''u1'', s_user alice_session), (None, ''u2'', s_user alice_session)]"

lemma alice_run: "session_run (\<lambda>x. x) ch alice_ops (manager_start 2, []) = Some (alice_manager, alice_log)"
  by (simp add: alice_ops_def manager_start_def on_session_end_def with_max_sessions_def manager_new_def
      session_for_bearer_def authenticate_credentials_def alice_provider_def evict_to_make_room.simps to_session_def
      log_ids_def set_transaction_id_def update_session_def update_read_def update_write_def record_activity_def
      remove_session_def drop_session_def session_ended_def forget_token_def Let_def alice_manager_def
      alice_log_def alice_session_def fun_upd_twist)


theorem bearer_session_own_witness:
  "session_for_bearer (\<lambda>x. x) alice_provider None ''u3'' 5 ''jwt'' None alice_manager =
     (Ok (alice_session, False), record_activity 5 ''u1'' alice_manager) \<and>
   (Some ''jwt'', s_id alice_session, s_user alice_session) \<in> set alice_log"
proof -
  have "session_for_bearer (\<lambda>x. x) alice_provider None ''u3'' 5 ''jwt'' None alice_manager =
      (Ok (alice_session, False), record_activity 5 ''u1'' alice_manager)"
    by (simp add: session_for_bearer_def alice_manager_def get_session_def alice_session_def into_session_def
        session_expiry_def alice_identity_def with_identity_def session_new_def Let_def)
  with bearer_session_own [OF alice_run _ this] show ?thesis by simp
qed

end
