(* ===== verification/Txn_Session.thy ===== *)
theory Txn_Session
  imports Txn_Isolation Txn_Registry Session_Manager
begin

text \<open>
  BEGIN, COMMIT and ROLLBACK of a session (\<open>sqe-coordinator/src/query_handler.rs\<close>): the composition of the
  transaction registry, the publish and discard of a transaction's branches, and the session manager that
  holds the transaction id of a Flight SQL session. The coordinator's state is the registry, the session
  manager if one is attached, and what the handler invalidates or counts: the number of invalidations of the
  query cache, if there is one, the users whose session contexts were dropped, and the failed branch drops, if
  there are metrics. The store is the world the catalog works on. A scope is shared with the registry, so what
  publishing records in it is in the entry that is finished or reopened. A registry has its own clock (\<open>millis\<close>), the session manager the wall clock.
\<close>

record 'w coordinator =
  transactions :: "'w registry"
  manager :: "session_manager option"
  query_cache :: "nat option"
  invalidated_users :: "string list"
  branch_drop_failures :: "nat option"

definition set_session_transaction ::
    "datetime \<Rightarrow> session \<Rightarrow> string option \<Rightarrow> 'w coordinator \<Rightarrow> 'w coordinator \<times> (sqe_error, unit) outcome" where
  "set_session_transaction wall s tid co =
     (case manager co of
        None \<Rightarrow> (co, Ok ())
      | Some m \<Rightarrow>
          (case set_transaction_id wall (s_id s) tid m of
             (found, m') \<Rightarrow>
               (co\<lparr>manager := Some m'\<rparr>,
                if found then Ok ()
                else Err (with_code ExecutionFailed ''transaction control: session not found in manager''))))"

definition begin_transaction ::
    "(u128 \<Rightarrow> string) \<Rightarrow> u32 \<Rightarrow> u128 \<Rightarrow> datetime \<Rightarrow> session \<Rightarrow> 'w coordinator \<Rightarrow>
      'w coordinator \<times> (sqe_error, unit) outcome" where
  "begin_transaction to_string inc random wall s co =
     (if s_transaction_id s \<noteq> None then (co, Err (with_code NotSupported ''Nested transactions not supported''))
      else set_session_transaction wall s (Some (new_txn_id to_string inc random)) co)"

definition invalidate_caches :: "string \<Rightarrow> 'w coordinator \<Rightarrow> 'w coordinator" where
  "invalidate_caches owner co = co\<lparr>query_cache := map_option Suc (query_cache co),
     invalidated_users := invalidated_users co @ [owner]\<rparr>"

definition end_transaction ::
    "(string \<Rightarrow> u128 option) \<Rightarrow> u32 \<Rightarrow> nat \<Rightarrow> millis \<Rightarrow> datetime \<Rightarrow> session \<Rightarrow> bool \<Rightarrow> 'w \<Rightarrow> 'w coordinator \<Rightarrow>
      'w \<times> 'w coordinator \<times> (sqe_error, unit) outcome" where
  "end_transaction parse_str inc n now wall s commit w co =
     (case s_transaction_id s of
        None \<Rightarrow> (w, co, Ok ())
      | Some i \<Rightarrow>
        (let owner = username (s_user s);
             (reg, res) = reg_end parse_str inc i owner now (transactions co);
             co = co\<lparr>transactions := reg\<rparr>
         in case res of
              Inl e \<Rightarrow> (w, co, Err e)
            | Inr Unused \<Rightarrow> (w, set_session_transaction wall s None co)
            | Inr (Already e) \<Rightarrow>
                (case set_session_transaction wall s None co of
                   (co, Ok _) \<Rightarrow> (w, co, if commit then Err e else Ok ())
                 | (co, r) \<Rightarrow> (w, co, r))
            | Inr (EndedOpen op) \<Rightarrow>
                if \<not> commit then
                  (case discard n (open_scope op) w of
                     (w, failed) \<Rightarrow>
                       (let co = co\<lparr>branch_drop_failures := map_option ((+) failed) (branch_drop_failures co)\<rparr>;
                            co = co\<lparr>transactions := finish now op RolledBack (transactions co)\<rparr>
                        in (w, set_session_transaction wall s None co)))
                else
                  (case publish n (open_scope op) w of
                     (w, scope, r) \<Rightarrow>
                     (let op = op\<lparr>open_scope := scope\<rparr>
                      in case r of
                           Ok _ \<Rightarrow>
                             (let co = co\<lparr>transactions := finish now op Committed (transactions co)\<rparr>;
                                  co = (if scope_tables scope \<noteq> [] then invalidate_caches owner co else co)
                              in (w, set_session_transaction wall s None co))
                         | Err e \<Rightarrow>
                             if error_code e = TransactionConflict then
                               (let co = co\<lparr>transactions := finish now op ConflictOutcome (transactions co)\<rparr>
                                in case set_session_transaction wall s None co of
                                     (co, Ok _) \<Rightarrow> (w, co, Err e)
                                   | (co, r) \<Rightarrow> (w, co, r))
                             else (w, co\<lparr>transactions := reopen owner op now (transactions co)\<rparr>, Err e)
                         | Panic \<Rightarrow> (w, co, Panic)))))"

text \<open>The hook of the session manager: what each session that ends does to the registry.\<close>

definition abandon_session :: "millis \<Rightarrow> session \<Rightarrow> 'w registry \<Rightarrow> 'w registry" where
  "abandon_session now s r =
     (case s_transaction_id s of Some i \<Rightarrow> abandon i (username (s_user s)) now r | None \<Rightarrow> r)"

definition abort_open_transactions :: "millis \<Rightarrow> 'w coordinator \<Rightarrow> 'w coordinator" where
  "abort_open_transactions now co = co\<lparr>transactions := abort_all now (transactions co)\<rparr>"

section \<open>The states a transaction can be left in\<close>

definition txn_ended :: "string \<Rightarrow> 'w coordinator \<Rightarrow> bool" where
  "txn_ended i co \<longleftrightarrow> map_of (open_txns (reg_state (transactions co))) i = None \<and>
     map_of (ended_txns (reg_state (transactions co))) i \<noteq> None"



definition session_known :: "session \<Rightarrow> 'w coordinator \<Rightarrow> bool" where
  "session_known s co \<longleftrightarrow> (case manager co of None \<Rightarrow> True | Some m \<Rightarrow> map_of (sessions m) (s_id s) \<noteq> None)"



lemma set_session_transaction_unknown:
  assumes "\<not> session_known s co" "set_session_transaction wall s t co = (co', r)"
  shows "r = Err (with_code ExecutionFailed ''transaction control: session not found in manager'') \<and>
    transactions co' = transactions co"
  using assms
  by (auto simp: set_session_transaction_def session_known_def set_transaction_id_def
      update_session_def update_read_def split: option.splits)





lemma invalidate_caches_keeps [simp]:
  "txn_ended i (invalidate_caches owner co) = txn_ended i co"
  "session_known s (invalidate_caches owner co) = session_known s co"
  by (simp_all add: txn_ended_def invalidate_caches_def session_known_def)


section \<open>COMMIT and ROLLBACK of an open transaction\<close>





lemma commit_published_reported_failed:
  assumes "\<not> session_known s co" "s_transaction_id s = Some i"
    and "reg_end parse_str inc i (username (s_user s)) now (transactions co) = (reg, Inr (EndedOpen op))"
    and "publish n (open_scope op) w = (w1, scope, Ok u)"
  shows "\<exists>co'. end_transaction parse_str inc n now wall s True w co =
    (w1, co', Err (with_code ExecutionFailed ''transaction control: session not found in manager''))"
proof -
  let ?co = "let co = co\<lparr>transactions := finish now (op\<lparr>open_scope := scope\<rparr>) Committed reg\<rparr>
       in if scope_tables scope \<noteq> [] then invalidate_caches (username (s_user s)) co else co"
  obtain co' r where c: "set_session_transaction wall s None ?co = (co', r)" by fastforce
  have "\<not> session_known s ?co" using assms(1) by (simp add: Let_def session_known_def invalidate_caches_def)
  with set_session_transaction_unknown [OF _ c] c assms(2-4) show ?thesis by (simp add: end_transaction_def Let_def)
qed





section \<open>Properties\<close>



end
