(* ===== verification/Spec2Isabelle.thy ===== *)
theory Spec2Isabelle
  imports Message Spill_Budget Circuit_Breaker Txn_Isolation Txn_Registry Scan_Distribution Txn_Session
begin

text \<open>
  Verification of SQE, a distributed SQL engine for Iceberg tables (Rust, \<open>src/crates\<close> and the vendored
  libraries of \<open>src/vendor\<close>).

  \<^bold>\<open>The program.\<close> A coordinator authenticates clients (Flight SQL, Trino HTTP, Quack, MCP), keeps their
  sessions, plans statements with DataFusion, cuts scans into tasks for workers, and commits writes to
  Iceberg tables through a catalog. A statement may run inside an explicit transaction: its writes go to a
  private branch of every table, and COMMIT publishes the branches to \<open>main\<close>. Workers receive scan tickets
  and stream batches back; operators that run out of memory spill under byte budgets; the Quack protocol
  carries results as column chunks in a binary format. The development models the parts that decide
  whether data is right: transactions, sessions, scan distribution, the wire format, and resource accounting.

  \<^bold>\<open>Conventions.\<close> \<open>Prelude\<close> holds the machine integers (words of their width; \<open>usize\<close> is a natural number
  with \<open>wrapping_mul\<close> and its relatives written out), the type \<open>outcome\<close> with the values \<open>Ok\<close>, \<open>Err\<close>
  and \<open>Panic\<close> of a Rust computation, and the facts on lists and association lists the components share.
  Structs are records, enums are datatypes, a method is a function from the state to the new state and its
  result. Clocks, UUIDs, hashes, random bits, and the answers of the network are arguments. Texts are
  lists of ASCII characters, strings of the wire format are their UTF-8 bytes; log output is left out.

  \<^bold>\<open>Explicit transactions.\<close>
  \<^item> \<open>Iceberg_Refs\<close>: snapshots, references, requirements and the four reference actions of
    \<open>vendor/iceberg-rust\<close> (\<open>spec/snapshot.rs\<close>, \<open>spec/table_metadata.rs\<close>, \<open>spec/table_metadata_builder.rs\<close>,
    \<open>transaction/branch.rs\<close>, \<open>catalog/mod.rs\<close>). What a publish or a branch creation does to the references.
  \<^item> \<open>Iceberg_Catalog\<close>: the trait \<open>Catalog\<close> as a record of functions on the world, \<open>Transaction::commit\<close> with
    its retry loop, and the locale \<open>catalog_laws\<close>, the contract of a catalog: loads see a table of the store,
    a successful commit is one step of the store whose requirements held, a failed one has changed nothing
    itself, and other clients may act in between. \<open>quiet\<close> is a stretch in which only others acted.
  \<^item> \<open>Sqlite_Catalog\<close>: the embedded catalog (\<open>sqe-catalog/src/sqlite_rs_catalog.rs\<close>), its staging of metadata
    files and its compare-and-swap of pointers, with writers and storage faults between any two accesses. It
    interprets \<open>catalog_laws\<close> (C3).
  \<^item> \<open>Txn_Scope\<close>: \<open>sqe-catalog/src/txn.rs\<close> (claims, branches, publish, discard, stale branches) and the
    session catalog's checks in \<open>rest_catalog.rs\<close>. C33 is about stale branches.
  \<^item> \<open>Txn_Isolation\<close>: runs of statements as an inductive relation; isolation (C1) and atomicity (C2) for every
    catalog with the laws.
  \<^item> \<open>Txn_Id\<close> and \<open>Txn_Registry\<close>: \<open>sqe-core/src/txn_id.rs\<close> and \<open>sqe-coordinator/src/txn_registry.rs\<close>, who
    may use which transaction and for how long (C5 to C8, C34). A run is a list of timed method calls.
  \<^item> \<open>Txn_Session\<close>: BEGIN, COMMIT and ROLLBACK in \<open>sqe-coordinator/src/query_handler.rs\<close>, which compose the
    registry, the publish and the session manager (C4).

  \<^bold>\<open>Sessions.\<close> \<open>Session\<close> models \<open>sqe-core/src/session.rs\<close> and the provider chain and identities of \<open>sqe-auth\<close>;
  \<open>Session_Manager\<close> models \<open>sqe-coordinator/src/session_manager.rs\<close>. In every run a bearer token is served
  only the session made for it (C9), and no session is lost or ends without its hook (C10).

  \<^bold>\<open>Distributed scans.\<close> \<open>Scan_Morsel\<close>, \<open>Scan_Task\<close> and \<open>Bin_Packing\<close> model \<open>scan_morsel.rs\<close>, \<open>scan_task.rs\<close>
  and \<open>splitter.rs\<close> of \<open>sqe-planner\<close>: cutting files (C32), the ticket and its version gate (C13), and packing
  (C31). \<open>Scheduler\<close> models \<open>sqe-coordinator/src/scheduler.rs\<close> (C28, C29). \<open>Scan_Distribution\<close> composes them as
  \<open>distribute_iceberg_scan\<close> of \<open>query_handler.rs\<close> does, with the load tracker of \<open>worker_registry.rs\<close>: every
  byte is read once (C11), delete files travel with their data files (C12), loads are exact (C30).

  \<^bold>\<open>The Quack wire format\<close> (\<open>sqe-quack-wire\<close>). \<open>Wire_Error\<close>, \<open>Varint\<close>, \<open>Codec\<close>, \<open>Logical_Type\<close>,
  \<open>Vector_Codec\<close> and \<open>Message\<close> model \<open>lib.rs\<close>, \<open>varint.rs\<close>, \<open>codec.rs\<close>, \<open>data_chunk.rs\<close> and \<open>message.rs\<close>. The
  locales \<open>wire_format\<close> and \<open>codec\<close> state a round trip and that encodings are not prefixes of each other; they are
  interpreted on every message body. The decoders give back what was encoded (C14, C17, C18, C21, C22) and
  never panic or promise rows they do not hold (C15, C16, C19, C20).

  \<^bold>\<open>Resources and errors.\<close> \<open>Spill_Pool\<close> and \<open>Spill_Budget\<close> model \<open>resizable_pool.rs\<close>, \<open>governor.rs\<close> and
  \<open>budget.rs\<close> of \<open>sqe-spill\<close> under every interleaving of their clients (C23 to C27). \<open>Circuit_Breaker\<close>
  models \<open>sqe-core/src/circuit_breaker.rs\<close>, whole methods and the atomic accesses of \<open>check\<close> (C37 to C40).
  \<open>Sqe_Error\<close> models \<open>sqe-core/src/error.rs\<close>, its classification and what a client sees (C35, C36).

  \<^bold>\<open>Bounds and fuel.\<close> Recursion is structural or has a proved measure, with two exceptions: \<open>byte_loop\<close> of
  \<open>Scan_Morsel\<close> and \<open>ancestry\<close> of \<open>Txn_Scope\<close> are partial functions, since the code can fail to end there (a
  file size within a chunk of \<open>2 ^ 64\<close>, a cycle of parent snapshots); C11 and C33 prove that a
  result exists. The retry loops of commits take the number of retries as an argument and the properties
  hold for each. The depth argument of the wire decoders is the one the code has, and 32 at the start.

  \<^bold>\<open>Not modelled.\<close> Planning and execution of queries and writes (\<open>query_handler.rs\<close> apart from the parts
  above, \<open>sqe-write\<close>, \<open>sqe-worker\<close>, \<open>sqe-sql\<close>, \<open>sqe-policy\<close>, \<open>sqe-trino-functions\<close>, the rules of
  \<open>sqe-planner\<close>) work on plans, syntax trees and arrays of DataFusion, sqlparser and Arrow, whose sources are not
  in the repository. HTTP and gRPC services, identity providers, remote catalogs, object stores, metrics,
  lineage, the command line and the configuration are input and output. Of the vendored Iceberg library only
  references and commits are modelled. Within the modelled parts: each method of the registry, the session
  manager and the breaker is one step unless a theory splits it; the snapshot file of the session manager,
  allocation failure, and the text of log lines are left out. The remaining pure code of the repository
  (maintenance schedules, join strategy, classification of statements) could be added in the same style.
\<close>

end
